(* ===== verification/Cxx_Prelude.thy ===== *)
theory Cxx_Prelude
  imports Main "HOL-Library.Word"
begin

text \<open>
  What the components share of C++ and of its standard library.

  \<^item> Results: a call either returns a value or fails. A failure is a value of
    \<open>cxx_error\<close>: an exception the source (or the library call it makes) throws, or an access
    that has no defined meaning (\<open>OutOfBounds\<close>). Calls are chained by \<open>res_bind\<close>.
  \<^item> \<open>size_t\<close>: natural numbers with the wrap-around at \<open>2 ^ 64\<close> written out
    (\<open>size_add\<close>, \<open>size_sub\<close>, \<open>npos\<close>); \<open>int\<close>: integers with the range check of
    signed arithmetic (\<open>chk_int\<close>) and the modular conversions.
  \<^item> \<open>std::string\<close> and \<open>std::string_view\<close>: lists of bytes (\<open>char\<close> is an
    8-bit value), with the library's search, \<open>substr\<close> and \<open>remove_prefix\<close>.
  \<^item> The character classes of the C locale.
\<close>

named_theorems res_simps \<open>rewriting of chained results\<close>
named_theorems size_simps \<open>size_t arithmetic without wrap-around\<close>
named_theorems sv_simps \<open>string_view operations\<close>


section \<open>Results\<close>

datatype cxx_error =
    OutOfBounds           \<comment> \<open>access outside an array or a string: undefined behaviour\<close>
  | IntOverflow           \<comment> \<open>signed overflow: undefined behaviour\<close>
  | StdException          \<comment> \<open>\<open>throw std::exception()\<close>\<close>
  | OutOfRange            \<comment> \<open>\<open>std::out_of_range\<close>\<close>
  | LengthError           \<comment> \<open>\<open>std::length_error\<close>\<close>
  | BadFunctionCall       \<comment> \<open>\<open>std::bad_function_call\<close>\<close>
  | BadOptionalAccess     \<comment> \<open>\<open>std::bad_optional_access\<close>\<close>
  | NullPointer           \<comment> \<open>use of a null pointer: undefined behaviour\<close>
  | Indeterminate         \<comment> \<open>use of a value that was never set: undefined behaviour\<close>
  | RangeError            \<comment> \<open>\<open>std::range_error\<close>\<close>
  | BadVariantAccess      \<comment> \<open>\<open>std::bad_variant_access\<close>\<close>
  | JsonError string      \<comment> \<open>\<open>libjson::JsonError\<close>\<close>
  | JsonSyntaxError int int string   \<comment> \<open>\<open>libjson::JsonSyntaxError\<close>: line, column, message\<close>
  | Exit                  \<comment> \<open>\<open>exit(-1)\<close>: the process ends\<close>
  | Terminate             \<comment> \<open>\<open>std::terminate\<close>: an exception leaves a \<open>noexcept\<close> function\<close>

type_synonym 'a res = "cxx_error + 'a"

definition res_bind :: "'a res \<Rightarrow> ('a \<Rightarrow> 'b res) \<Rightarrow> 'b res" where
  "res_bind m f = (case m of Inl e \<Rightarrow> Inl e | Inr x \<Rightarrow> f x)"

definition res_map :: "('a \<Rightarrow> 'b) \<Rightarrow> 'a res \<Rightarrow> 'b res" where
  "res_map f m = res_bind m (\<lambda>x. Inr (f x))"

text \<open>Running an operation for each element of a list, in order, stopping at the first failure.\<close>

fun res_fold :: "('s \<Rightarrow> 'a \<Rightarrow> 's res) \<Rightarrow> 'a list \<Rightarrow> 's \<Rightarrow> 's res" where
  "res_fold f [] s = Inr s"
| "res_fold f (x # xs) s = res_bind (f s x) (res_fold f xs)"

lemma res_bind_Inr [simp, res_simps]: "res_bind (Inr x) f = f x"
  by (simp add: res_bind_def)

lemma res_bind_Inl [simp, res_simps]: "res_bind (Inl e) f = Inl e"
  by (simp add: res_bind_def)

lemma res_bind_eq_Inr [res_simps]:
  "res_bind m f = Inr y \<longleftrightarrow> (\<exists>x. m = Inr x \<and> f x = Inr y)"
  by (cases m) (auto simp: res_bind_def)

lemma res_bind_eq_Inl [res_simps]:
  "res_bind m f = Inl e \<longleftrightarrow> m = Inl e \<or> (\<exists>x. m = Inr x \<and> f x = Inl e)"
  by (cases m) (auto simp: res_bind_def)

lemma res_bind_assoc: "res_bind (res_bind m f) g = res_bind m (\<lambda>x. res_bind (f x) g)"
  by (cases m) auto

lemma res_map_Inr [simp, res_simps]: "res_map f (Inr x) = Inr (f x)"
  by (simp add: res_map_def)

lemma res_map_Inl [simp, res_simps]: "res_map f (Inl e) = Inl e"
  by (simp add: res_map_def)

lemma res_map_eq_Inr [res_simps]: "res_map f m = Inr y \<longleftrightarrow> (\<exists>x. m = Inr x \<and> y = f x)"
  by (auto simp: res_map_def res_simps)

lemma res_bind_cong [fundef_cong]:
  "m = m' \<Longrightarrow> (\<And>x. m' = Inr x \<Longrightarrow> f x = f' x) \<Longrightarrow> res_bind m f = res_bind m' f'"
  by (cases m') auto

lemma res_fold_append: "res_fold f (xs @ ys) s = res_bind (res_fold f xs s) (res_fold f ys)"
proof (induction xs arbitrary: s)
  case (Cons x xs)
  then have "res_fold f (xs @ ys) = (\<lambda>s. res_bind (res_fold f xs s) (res_fold f ys))" by blast
  then show ?case by (simp add: res_bind_assoc)
qed simp


text \<open>
  A computation with a loop that may not end: \<open>None\<close> when it has not returned within its fuel.
\<close>

type_synonym 'a run = "'a res option"

definition run_bind :: "'a run \<Rightarrow> ('a \<Rightarrow> 'b run) \<Rightarrow> 'b run" where
  "run_bind m f = (case m of None \<Rightarrow> None | Some (Inl e) \<Rightarrow> Some (Inl e) | Some (Inr x) \<Rightarrow> f x)"

lemma run_bind_simps [simp, res_simps]:
  "run_bind None f = None" "run_bind (Some (Inl e)) f = Some (Inl e)" "run_bind (Some (Inr x)) f = f x"
  by (simp_all add: run_bind_def)

lemma run_bind_eq_Inr [res_simps]:
  "run_bind m f = Some (Inr y) \<longleftrightarrow> (\<exists>x. m = Some (Inr x) \<and> f x = Some (Inr y))"
  by (auto simp: run_bind_def split: option.splits sum.splits)


section \<open>Machine integers\<close>

type_synonym size_t = nat

abbreviation size_mod :: nat where
  "size_mod \<equiv> 18446744073709551616"

definition size_add :: "size_t \<Rightarrow> size_t \<Rightarrow> size_t" where
  "size_add a b = (a + b) mod size_mod"

definition size_sub :: "size_t \<Rightarrow> size_t \<Rightarrow> size_t" where
  "size_sub a b = (a + (size_mod - b mod size_mod)) mod size_mod"

definition npos :: size_t where
  "npos = size_mod - 1"

definition max_size :: size_t where
  \<comment> \<open>\<open>max_size()\<close> of a vector or a string of bytes\<close>
  "max_size = 9223372036854775807"

definition int_range :: "int \<Rightarrow> bool" where
  "int_range x \<longleftrightarrow> - 2147483648 \<le> x \<and> x < 2147483648"

definition chk_int :: "int \<Rightarrow> int res" where
  \<comment> \<open>the result of signed 32-bit arithmetic\<close>
  "chk_int x = (if int_range x then Inr x else Inl IntOverflow)"

definition to_int :: "int \<Rightarrow> int" where
  \<comment> \<open>conversion to a signed 32-bit \<open>int\<close>\<close>
  "to_int x = (x + 2147483648) mod 4294967296 - 2147483648"

definition to_size :: "int \<Rightarrow> size_t" where
  \<comment> \<open>conversion of an integer to \<open>size_t\<close>\<close>
  "to_size x = nat (x mod int size_mod)"

lemma size_add_small [size_simps]: "a + b < size_mod \<Longrightarrow> size_add a b = a + b"
  by (simp add: size_add_def)

lemma size_sub_small [size_simps]:
  assumes "b \<le> a" and "a < size_mod"
  shows "size_sub a b = a - b"
proof -
  from assms have "b mod size_mod = b" by simp
  with assms have "a + (size_mod - b mod size_mod) = (a - b) + size_mod" by linarith
  moreover have "((a - b) + size_mod) mod size_mod = a - b"
    using assms by (simp only: mod_add_self2 mod_less less_imp_diff_less)
  ultimately show ?thesis by (simp only: size_sub_def)
qed

lemma size_sub_bound: "size_sub a b < size_mod"
  by (simp add: size_sub_def)

lemma size_sub_one_less: "0 < i \<Longrightarrow> size_sub i 1 < i"
proof -
  assume "0 < i"
  then have "i + (size_mod - 1) = (i - 1) + size_mod" by simp
  moreover have "(1 :: nat) mod size_mod = 1" by simp
  ultimately have "size_sub i 1 = (i - 1) mod size_mod"
    unfolding size_sub_def by (simp only: mod_add_self2)
  also have "\<dots> \<le> i - 1" by simp
  finally show ?thesis using \<open>0 < i\<close> by simp
qed

lemma to_int_id [simp]: "int_range x \<Longrightarrow> to_int x = x"
  by (simp add: to_int_def int_range_def)

lemma int_range_to_int: "int_range (to_int x)"
proof -
  have "0 \<le> (x + 2147483648) mod 4294967296" "(x + 2147483648) mod 4294967296 < 4294967296"
    by simp_all
  then show ?thesis by (simp add: int_range_def to_int_def)
qed

lemma to_size_id: "n < size_mod \<Longrightarrow> to_size (int n) = n"
  by (simp add: to_size_def zmod_int flip: of_nat_mod)

text \<open>An index stored as an \<open>int\<close> and read back as a \<open>size_t\<close> is unchanged below \<open>2 ^ 31\<close>.\<close>

lemma to_size_to_int [size_simps]: "n < 2147483648 \<Longrightarrow> to_size (to_int (int n)) = n"
  by (simp add: int_range_def to_size_id)


section \<open>Arrays\<close>

text \<open>\<open>write_at\<close> is \<open>std::copy\<close> (or \<open>memcpy\<close>) into an array: every byte must fit.\<close>

definition write_at :: "'a list \<Rightarrow> nat \<Rightarrow> 'a list \<Rightarrow> 'a list res" where
  "write_at xs i ys =
     (if i + length ys \<le> length xs then Inr (take i xs @ ys @ drop (i + length ys) xs)
      else Inl OutOfBounds)"

definition at :: "'a list \<Rightarrow> nat \<Rightarrow> 'a res" where
  "at xs i = (if i < length xs then Inr (xs ! i) else Inl OutOfBounds)"

lemma at_Inr [simp]: "i < length xs \<Longrightarrow> at xs i = Inr (xs ! i)"
  by (simp add: at_def)

lemma at_eq_Inr [res_simps]: "at xs i = Inr x \<longleftrightarrow> i < length xs \<and> x = xs ! i"
  by (auto simp: at_def)

lemma drop_len: "length xs = n \<Longrightarrow> drop n (xs @ ys) = ys"
  by simp

lemma length_write_at: "write_at xs i ys = Inr zs \<Longrightarrow> length zs = length xs"
  by (auto simp: write_at_def split: if_splits)


section \<open>Strings and string views\<close>

type_synonym sview = string

definition NUL :: char where
  "NUL = CHR 0x00"

definition c_str :: "string \<Rightarrow> string" where
  \<comment> \<open>the string a \<open>const char *\<close> to the bytes denotes\<close>
  "c_str s = takeWhile (\<lambda>c. c \<noteq> NUL) s"

definition CRLF :: string where
  "CRLF = [CHR 0x0D, CHR 0x0A]"

definition starts_with :: "sview \<Rightarrow> sview \<Rightarrow> bool" where
  "starts_with s p \<longleftrightarrow> take (length p) s = p"

definition ends_with :: "sview \<Rightarrow> sview \<Rightarrow> bool" where
  "ends_with s p \<longleftrightarrow> length p \<le> length s \<and> drop (length s - length p) s = p"

fun search :: "sview \<Rightarrow> sview \<Rightarrow> nat option" where
  "search p [] = (if p = [] then Some 0 else None)"
| "search p (x # xs) = (if starts_with (x # xs) p then Some 0 else map_option Suc (search p xs))"

fun search_if :: "(char \<Rightarrow> bool) \<Rightarrow> sview \<Rightarrow> nat option" where
  "search_if P [] = None"
| "search_if P (x # xs) = (if P x then Some 0 else map_option Suc (search_if P xs))"

definition or_npos :: "nat option \<Rightarrow> size_t" where
  "or_npos r = (case r of None \<Rightarrow> npos | Some i \<Rightarrow> i)"

definition sv_find :: "sview \<Rightarrow> sview \<Rightarrow> size_t" where
  "sv_find s p = or_npos (search p s)"

definition sv_find_first_of :: "sview \<Rightarrow> char \<Rightarrow> size_t" where
  "sv_find_first_of s c = or_npos (search_if (\<lambda>x. x = c) s)"

definition sv_find_last_of :: "sview \<Rightarrow> char \<Rightarrow> size_t" where
  "sv_find_last_of s c =
     (case search_if (\<lambda>x. x = c) (rev s) of None \<Rightarrow> npos | Some i \<Rightarrow> length s - 1 - i)"

definition sv_substr :: "sview \<Rightarrow> size_t \<Rightarrow> size_t \<Rightarrow> sview res" where
  \<comment> \<open>\<open>substr(pos, n)\<close> throws \<open>std::out_of_range\<close> past the end\<close>
  "sv_substr s pos n =
     (if length s < pos then Inl OutOfRange else Inr (take (min n (length s - pos)) (drop pos s)))"

definition sv_remove_prefix :: "sview \<Rightarrow> size_t \<Rightarrow> sview res" where
  \<comment> \<open>\<open>remove_prefix(n)\<close> is undefined for \<open>n > size()\<close>\<close>
  "sv_remove_prefix s n = (if length s < n then Inl OutOfBounds else Inr (drop n s))"

lemma starts_with_append [simp, sv_simps]: "starts_with (p @ s) p"
  by (simp add: starts_with_def)

lemma starts_with_iff: "starts_with s p \<longleftrightarrow> (\<exists>t. s = p @ t)"
  by (metis append_take_drop_id append_eq_conv_conj starts_with_def)

lemma starts_with_length: "starts_with s p \<Longrightarrow> length p \<le> length s"
  by (auto simp: starts_with_iff)

lemma ends_with_append [simp, sv_simps]: "ends_with (s @ p) p"
  by (simp add: ends_with_def)

lemma ends_with_iff: "ends_with s p \<longleftrightarrow> (\<exists>t. s = t @ p)"
  by (metis append_take_drop_id ends_with_append ends_with_def)

lemma search_if_None [sv_simps]: "search_if P s = None \<longleftrightarrow> (\<forall>x \<in> set s. \<not> P x)"
  by (induction s) auto

lemma search_if_bound: "search_if P s = Some i \<Longrightarrow> i < length s"
  by (induction s arbitrary: i) (auto split: if_splits)

lemma search_if_append_hit [sv_simps]:
  "\<forall>x \<in> set s. \<not> P x \<Longrightarrow> P c \<Longrightarrow> search_if P (s @ c # t) = Some (length s)"
  by (induction s) auto

lemma search_bound: "search p s = Some i \<Longrightarrow> i + length p \<le> length s"
proof (induction s arbitrary: i)
  case (Cons x xs)
  show ?case
  proof (cases "starts_with (x # xs) p")
    case True
    with Cons.prems show ?thesis using starts_with_length by fastforce
  next
    case False
    with Cons.prems obtain j where "search p xs = Some j" "i = Suc j" by auto
    with Cons.IH show ?thesis by fastforce
  qed
qed (auto split: if_splits)

lemma search_found: "search p s = Some i \<Longrightarrow> starts_with (drop i s) p"
proof (induction s arbitrary: i)
  case (Cons x xs)
  then show ?case by (cases "starts_with (x # xs) p") auto
qed (auto simp: starts_with_def split: if_splits)

lemma sv_substr_eq_Inr [res_simps]:
  "sv_substr s pos n = Inr t \<longleftrightarrow> pos \<le> length s \<and> t = take (min n (length s - pos)) (drop pos s)"
  by (auto simp: sv_substr_def)

lemma sv_remove_prefix_eq_Inr [res_simps]:
  "sv_remove_prefix s n = Inr t \<longleftrightarrow> n \<le> length s \<and> t = drop n s"
  by (auto simp: sv_remove_prefix_def)

lemma sv_substr_prefix [simp, sv_simps]: "length s \<le> n \<Longrightarrow> sv_substr (s @ t) 0 (length s) = Inr s"
  by (simp add: sv_substr_def)


section \<open>C strings\<close>

text \<open>
  \<open>strncmp(p, q, n) == 0\<close>, with \<open>f\<close> applied to both bytes (\<open>tolower\<close> in
  \<open>strncasecmp\<close>). The comparison stops at the first difference and at a common NUL; the lists are
  the bytes that may be read from \<open>p\<close> and from \<open>q\<close>.
\<close>

fun strn_equal :: "(char \<Rightarrow> char) \<Rightarrow> string \<Rightarrow> string \<Rightarrow> nat \<Rightarrow> bool res" where
  "strn_equal f p q 0 = Inr True"
| "strn_equal f (x # p) (y # q) (Suc n) =
     (if f x \<noteq> f y then Inr False else if x = NUL then Inr True else strn_equal f p q n)"
| "strn_equal f _ _ (Suc n) = Inl OutOfBounds"

lemma strn_equal_prefix:
  "map f (take (length q) p) = map f q \<Longrightarrow> NUL \<notin> set (take (length q) p) \<Longrightarrow>
     strn_equal f p (q @ q') (length q) = Inr True"
proof (induction q arbitrary: p)
  case (Cons y q)
  then show ?case by (cases p) auto
qed simp

lemma strn_equal_iff_prefix:
  assumes "NUL \<notin> set q" and "length q \<le> length p"
  shows "strn_equal id p (q @ q') (length q) = Inr (starts_with p q)"
  using assms
proof (induction q arbitrary: p)
  case (Cons y q)
  then obtain x p' where "p = x # p'" by (cases p) auto
  with Cons show ?case by (auto simp: starts_with_def)
qed (simp add: starts_with_def)

text \<open>Decimal digits, as \<open>std::to_string\<close> prints a non-negative number.\<close>

fun decimal :: "nat \<Rightarrow> string" where
  "decimal n = (if n < 10 then [char_of (48 + n)] else decimal (n div 10) @ [char_of (48 + n mod 10)])"

declare decimal.simps [simp del]

lemma length_decimal: "length (decimal n) \<le> Suc n"
proof (induction n rule: decimal.induct)
  case (1 n)
  then show ?case by (subst decimal.simps) auto
qed

definition int_decimal :: "int \<Rightarrow> string" where
  "int_decimal x = (if x < 0 then ''-'' @ decimal (nat (- x)) else decimal (nat x))"


section \<open>Character classes (C locale)\<close>

definition isupper :: "char \<Rightarrow> bool" where
  "isupper c \<longleftrightarrow> of_char c \<in> {65..90 :: nat}"

definition islower :: "char \<Rightarrow> bool" where
  "islower c \<longleftrightarrow> of_char c \<in> {97..122 :: nat}"

definition isdigit :: "char \<Rightarrow> bool" where
  "isdigit c \<longleftrightarrow> of_char c \<in> {48..57 :: nat}"

definition isalnum :: "char \<Rightarrow> bool" where
  "isalnum c \<longleftrightarrow> isupper c \<or> islower c \<or> isdigit c"

definition isxdigit :: "char \<Rightarrow> bool" where
  "isxdigit c \<longleftrightarrow> isdigit c \<or> of_char c \<in> {65..70 :: nat} \<or> of_char c \<in> {97..102 :: nat}"

definition tolower :: "char \<Rightarrow> char" where
  "tolower c = (if isupper c then char_of (of_char c + 32 :: nat) else c)"

definition toupper :: "char \<Rightarrow> char" where
  "toupper c = (if islower c then char_of (of_char c - 32 :: nat) else c)"

end
