(* ===== verification/EncodeUtil.thy ===== *)
theory EncodeUtil
  imports Cxx_Prelude
begin

text \<open>
  \<open>soc/utility/src/EncodeUtil.cc\<close>: percent-encoding, case conversion, the MurmurHash2 that keys
  the MIME table, the hexadecimal MD5 digests, the loop around zlib and random strings. Bytes are \<open>char\<close>s; the arithmetic on them is
  written on their values 0..255. \<open>char\<close> is signed on the platform, but every comparison of the
  source is with an ASCII range, which bytes from 128 on fail either way. The MD5 functions of
  OpenSSL are parameters.
\<close>

unbundle bit_operations_syntax

section \<open>Percent-encoding\<close>

definition hex2dec :: "char \<Rightarrow> nat" where
  "hex2dec c =
     (let n = of_char c
      in if 48 \<le> n \<and> n \<le> 57 then n - 48
         else if 97 \<le> n \<and> n \<le> 122 then n - 97 + 10
         else if 65 \<le> n \<and> n \<le> 90 then n - 65 + 10
         else n)"

definition dec2hex :: "nat \<Rightarrow> char" where
  "dec2hex n =
     (if n \<le> 9 then char_of (n + 48)
      else if 10 \<le> n \<and> n \<le> 15 then char_of (n - 10 + 65)
      else char_of n)"

definition merge_hex :: "char \<Rightarrow> char \<Rightarrow> char" where
  \<comment> \<open>the local \<open>byte\<close> of \<open>urlDecode\<close>, an \<open>unsigned char\<close>\<close>
  "merge_hex h l = char_of (take_bit 8 (push_bit 4 (hex2dec h) OR hex2dec l))"

fun urlDecode :: "string \<Rightarrow> string" where
  "urlDecode (c # h # l # s) =
     (if c = CHR ''%'' \<and> isxdigit h \<and> isxdigit l then merge_hex h l # urlDecode s
      else c # urlDecode (h # l # s))"
| "urlDecode (c # s) = c # urlDecode s"
| "urlDecode [] = []"

definition url_safe :: "char \<Rightarrow> bool" where
  "url_safe c \<longleftrightarrow> isalnum c \<or> c = CHR ''-'' \<or> c = CHR ''_'' \<or> c = CHR ''.'' \<or> c = CHR ''~''"

definition escape :: "char \<Rightarrow> string" where
  \<comment> \<open>\<open>sprintf(buf, "%%%c%c", ...)\<close>\<close>
  "escape c = [CHR ''%'', toupper (dec2hex (drop_bit 4 (of_char c))), toupper (dec2hex (of_char c AND 15))]"

fun urlEncode :: "string \<Rightarrow> string" where
  "urlEncode [] = []"
| "urlEncode (c # s) = (if url_safe c then c # urlEncode s else escape c @ urlEncode s)"


section \<open>Case conversion\<close>

fun toLowers :: "string \<Rightarrow> string" where
  "toLowers [] = []"
| "toLowers (c # s) = (if isupper c then tolower c else c) # toLowers s"

fun toUppers :: "string \<Rightarrow> string" where
  "toUppers [] = []"
| "toUppers (c # s) = (if islower c then toupper c else c) # toUppers s"


section \<open>Hashes\<close>

definition load32 :: "char \<Rightarrow> char \<Rightarrow> char \<Rightarrow> char \<Rightarrow> 32 word" where
  \<comment> \<open>\<open>*(unsigned int *)data\<close> on a little-endian machine\<close>
  "load32 a b c d = of_nat (of_char a) OR push_bit 8 (of_nat (of_char b)) OR
     push_bit 16 (of_nat (of_char c)) OR push_bit 24 (of_nat (of_char d))"

definition murmur_m :: "32 word" where
  "murmur_m = 0x5bd1e995"

fun murmur_loop :: "string \<Rightarrow> 32 word \<Rightarrow> 32 word" where
  "murmur_loop (a # b # c # d # s) h =
     (let k = load32 a b c d * murmur_m;
          k = (k XOR drop_bit 24 k) * murmur_m
      in murmur_loop s ((h * murmur_m) XOR k))"
| "murmur_loop [a, b, c] h =
     (let h = h XOR push_bit 16 (of_nat (of_char c));
          h = h XOR push_bit 8 (of_nat (of_char b))
      in (h XOR of_nat (of_char a)) * murmur_m)"
| "murmur_loop [a, b] h =
     (let h = h XOR push_bit 8 (of_nat (of_char b)) in (h XOR of_nat (of_char a)) * murmur_m)"
| "murmur_loop [a] h = (h XOR of_nat (of_char a)) * murmur_m"
| "murmur_loop [] h = h"

definition murmurHash2 :: "string \<Rightarrow> 32 word" where
  "murmurHash2 s =
     (let h = murmur_loop s (0xEE6B27EB XOR of_nat (length s));
          h = (h XOR drop_bit 13 h) * murmur_m
      in h XOR drop_bit 15 h)"

definition hex_digit :: "nat \<Rightarrow> char" where
  \<comment> \<open>one digit of \<open>%x\<close>\<close>
  "hex_digit n = (if n \<le> 9 then char_of (n + 48) else char_of (n - 10 + 97))"

definition to_hex :: "string \<Rightarrow> string" where
  \<comment> \<open>the loop of \<open>sprintf("%02x")\<close>\<close>
  "to_hex md = concat (map (\<lambda>c. [hex_digit (drop_bit 4 (of_char c)), hex_digit (of_char c AND 15)]) md)"

definition md5Hash :: "(string \<Rightarrow> string) \<Rightarrow> string \<Rightarrow> string" where
  "md5Hash MD5 d = to_hex (MD5 d)"

definition md5HashEqual :: "(string \<Rightarrow> string) \<Rightarrow> string \<Rightarrow> sview \<Rightarrow> bool res" where
  \<comment> \<open>\<open>memcmp\<close> reads as many bytes of \<open>hashv\<close> as the digest has\<close>
  "md5HashEqual MD5 d hashv =
     (let hashv2 = md5Hash MD5 d
      in if length hashv < length hashv2 then Inl OutOfBounds
         else Inr (take (length hashv2) hashv = hashv2))"

function file_chunks :: "string \<Rightarrow> string list" where
  \<comment> \<open>the blocks \<open>fread\<close> returns with a buffer of 1024 bytes\<close>
  "file_chunks f = (if f = [] then [] else take 1024 f # file_chunks (drop 1024 f))"
  by pat_completeness auto
termination
  by (relation "measure length") auto

definition md5HashFile ::
  "'ctx \<Rightarrow> ('ctx \<Rightarrow> string \<Rightarrow> 'ctx) \<Rightarrow> ('ctx \<Rightarrow> string) \<Rightarrow> string option \<Rightarrow> string" where
  "md5HashFile MD5_Init MD5_Update MD5_Final file =
     (case file of None \<Rightarrow> [] | Some f \<Rightarrow> to_hex (MD5_Final (foldl MD5_Update MD5_Init (file_chunks f))))"

declare file_chunks.simps [simp del]


section \<open>Compression and random strings\<close>

text \<open>
  \<open>gz\<close> is the whole output of zlib's \<open>deflate\<close> for an input; a call with \<open>Z_FINISH\<close> writes as much
  of it as the space allows. \<open>avail_in\<close> and \<open>avail_out\<close> have 32 bits: the loop may not end for an
  input of more than 4 GiB and takes fuel.
\<close>

fun gzip_loop :: "nat \<Rightarrow> nat \<Rightarrow> string \<Rightarrow> string \<Rightarrow> string option" where
  "gzip_loop 0 increase z out = None"
| "gzip_loop (Suc fuel) increase z out =
     (let avail = increase mod 4294967296;
          out = out @ take avail z @ replicate (increase - avail) NUL
      in if avail \<le> length z then gzip_loop fuel increase (drop avail z) out else Some out)"

definition gzipCompress :: "nat \<Rightarrow> (string \<Rightarrow> string) \<Rightarrow> string \<Rightarrow> string option" where
  "gzipCompress fuel gz buf =
     gzip_loop fuel (length buf div 2 + 1024) (gz (take (length buf mod 4294967296) buf)) []"

definition genRandromStr :: "nat list \<Rightarrow> string" where
  \<comment> \<open>the results of \<open>rand\<close>, one for each element of the array; no terminating NUL is written\<close>
  "genRandromStr rands =
     map (\<lambda>r. ''0123456789abcdefghijklmnopqrstuvwxyzABCDEFGHIJKLMNOPQRSTUVWXYZ'' ! (r mod 62)) rands"


section \<open>Properties\<close>

text \<open>Below 4 GiB the loop ends and collects exactly what the compressor produces.\<close>

lemma gzip_loop_all:
  "0 < increase \<Longrightarrow> increase < 4294967296 \<Longrightarrow> length z < fuel \<Longrightarrow> gzip_loop fuel increase z out = Some (out @ z)"
proof (induction fuel arbitrary: z out)
  case (Suc fuel)
  then show ?case by (cases "increase \<le> length z") (auto simp: Let_def)
qed simp

lemma gzipCompress_all:
  "length buf < 4294967296 \<Longrightarrow> length (gz buf) < fuel \<Longrightarrow> gzipCompress fuel gz buf = Some (gz buf)"
  by (simp add: gzipCompress_def gzip_loop_all)

lemma genRandromStr_alnum: "c \<in> set (genRandromStr rands) \<Longrightarrow> isalnum c"
proof -
  let ?alpha = "''0123456789abcdefghijklmnopqrstuvwxyzABCDEFGHIJKLMNOPQRSTUVWXYZ''"
  assume "c \<in> set (genRandromStr rands)"
  then obtain r where "c = ?alpha ! (r mod 62)" unfolding genRandromStr_def by auto
  moreover have "r mod 62 < length ?alpha" by simp
  ultimately have "c \<in> set ?alpha" by (metis nth_mem)
  moreover have "list_all isalnum ?alpha" by (simp add: isalnum_def isdigit_def islower_def isupper_def)
  ultimately show "isalnum c" unfolding list_all_iff by blast
qed

lemma and_15: "n AND 15 = take_bit 4 (n :: nat)"
  by (simp add: take_bit_eq_mask mask_eq_exp_minus_1)

lemma nibbles: "push_bit 4 (drop_bit 4 n) OR take_bit 4 n = (n :: nat)"
  by (rule bit_eqI) (auto simp: bit_simps not_less)

lemma high_nibble_less: "drop_bit 4 (of_char c :: nat) < 16"
proof -
  have "(of_char c :: nat) < 16 * 16" by simp
  then have "(of_char c :: nat) div 16 < 16" by (rule less_mult_imp_div_less)
  then show ?thesis by (simp add: drop_bit_eq_div)
qed

lemma hex_digit_read:
  assumes "n < 16"
  shows "isxdigit (toupper (dec2hex n))" and "hex2dec (toupper (dec2hex n)) = n"
  using assms
  by (auto simp: dec2hex_def hex2dec_def toupper_def islower_def isxdigit_def isdigit_def Let_def)

lemma escape_decodes:
  shows "isxdigit (toupper (dec2hex (drop_bit 4 (of_char c))))"
    and "isxdigit (toupper (dec2hex (of_char c AND 15)))"
    and "merge_hex (toupper (dec2hex (drop_bit 4 (of_char c)))) (toupper (dec2hex (of_char c AND 15))) = c"
  using hex_digit_read high_nibble_less [of c] take_bit_nat_less_exp [of 4 "of_char c"]
  by (simp_all add: merge_hex_def and_15 nibbles take_bit_nat_eq_self)

lemma urlDecode_other: "c \<noteq> CHR ''%'' \<Longrightarrow> urlDecode (c # s) = c # urlDecode s"
  by (cases s rule: urlDecode.cases) auto

lemma url_safe_not_percent: "url_safe c \<Longrightarrow> c \<noteq> CHR ''%''"
  by (auto simp: url_safe_def isalnum_def isupper_def islower_def isdigit_def)

lemma url_roundtrip: "urlDecode (urlEncode s) = s"
proof (induction s)
  case (Cons c s)
  then show ?case
    using escape_decodes [of c] url_safe_not_percent by (auto simp: escape_def urlDecode_other)
qed simp

text \<open>
  C17. Percent-encoding is lossless: decoding what \<open>urlEncode\<close> produces gives back every string
  of bytes.
\<close>

theorem urlDecode_urlEncode: "urlDecode (urlEncode s) = s"
  by (rule url_roundtrip)

lemma urlEncode_alphabet: "x \<in> set (urlEncode s) \<Longrightarrow> url_safe x \<or> x = CHR ''%'' \<or> isxdigit x"
  by (induction s) (auto simp: escape_def escape_decodes split: if_splits)

lemma toLowers_map: "toLowers s = map (\<lambda>c. if isupper c then tolower c else c) s"
  by (induction s) auto

lemma toLowers_append [simp]: "toLowers (s @ t) = toLowers s @ toLowers t"
  by (simp add: toLowers_map)

lemma length_toLowers [simp]: "length (toLowers s) = length s"
  by (simp add: toLowers_map)

lemma tolower_not_upper: "isupper c \<Longrightarrow> \<not> isupper (tolower c)"
  by (auto simp: isupper_def tolower_def)

lemma toLowers_idem [simp]: "toLowers (toLowers s) = toLowers s"
  by (induction s) (auto simp: tolower_not_upper)

lemma length_to_hex: "length (to_hex md) = 2 * length md"
  by (induction md) (auto simp: to_hex_def)

lemma concat_file_chunks: "concat (file_chunks f) = f"
  by (induction f rule: file_chunks.induct) (subst file_chunks.simps, auto)

text \<open>
  C20. Hashing a file block by block gives the digest of its contents, for every MD5 whose
  incremental interface agrees with the one-shot function (as OpenSSL documents).
\<close>

theorem md5HashFile_is_md5Hash:
  assumes "\<And>blocks. MD5_Final (foldl MD5_Update MD5_Init blocks) = MD5 (concat blocks)"
  shows "md5HashFile MD5_Init MD5_Update MD5_Final (Some f) = md5Hash MD5 f"
  by (simp add: md5HashFile_def md5Hash_def assms concat_file_chunks)

theorem md5HashFile_is_md5Hash_witness:
  "md5HashFile [] (@) (take 16) (Some (replicate 3000 CHR ''a'')) = md5Hash (take 16) (replicate 3000 CHR ''a'')"
proof (rule md5HashFile_is_md5Hash)
  fix blocks :: "string list"
  have "foldl (@) acc blocks = acc @ concat blocks" for acc
    by (induction blocks arbitrary: acc) simp_all
  then show "take 16 (foldl (@) [] blocks) = take 16 (concat blocks)" by simp
qed

text \<open>Comparing digests accepts every stored value that begins with the digest.\<close>

lemma md5HashEqual_prefix:
  "2 * length (MD5 d) \<le> length hashv \<Longrightarrow> md5HashEqual MD5 d hashv = Inr (starts_with hashv (md5Hash MD5 d))"
  by (simp add: md5HashEqual_def md5Hash_def length_to_hex starts_with_def)

end
