(* ===== verification/Buffer.thy ===== *)
theory Buffer
  imports Cxx_Prelude
begin

text \<open>
  \<open>soc/net/include/Buffer.h\<close>: the growable byte buffer between the socket and the parsers.
  The state is the vector and the two indices; \<open>buf_view\<close> is the string view that the clients
  build from \<open>peek()\<close> and \<open>readable()\<close>. The buffer implements the interface
  \<open>byte_queue\<close>: a queue of bytes that is read from the front and appended to at the back.
\<close>

section \<open>The interface: a queue of bytes\<close>

locale byte_queue =
  fixes view :: "'q \<Rightarrow> string"
    and invar :: "'q \<Rightarrow> bool"
    and room :: "'q \<Rightarrow> nat \<Rightarrow> bool"
    and app :: "'q \<Rightarrow> string \<Rightarrow> 'q res"
    and retire :: "'q \<Rightarrow> nat \<Rightarrow> 'q"
  assumes app_law: "\<And>q s n. invar q \<Longrightarrow> room q (length s + n) \<Longrightarrow>
      \<exists>q'. app q s = Inr q' \<and> invar q' \<and> room q' n \<and> view q' = view q @ s"
    and view_retire: "\<And>q n. invar q \<Longrightarrow> view (retire q n) = drop n (view q)"
    and invar_retire: "\<And>q n. invar q \<Longrightarrow> invar (retire q n)"
    and room_retire: "\<And>q n m. invar q \<Longrightarrow> room q m \<Longrightarrow> room (retire q n) m"
begin

lemma append_chunks:
  assumes "invar q" and "room q (length (concat ss) + n)"
  shows "\<exists>q'. res_fold app ss q = Inr q' \<and> invar q' \<and> room q' n \<and> view q' = view q @ concat ss"
  using assms
proof (induction ss arbitrary: q)
  case Nil
  then show ?case by simp
next
  case (Cons s ss)
  then have "room q (length s + (length (concat ss) + n))" by (simp add: add.assoc)
  with Cons.prems(1) obtain q1 where q1: "app q s = Inr q1" "invar q1"
      "room q1 (length (concat ss) + n)" "view q1 = view q @ s"
    using app_law by blast
  with Cons.IH show ?case by fastforce
qed

lemma append_then_retire:
  assumes "invar q" and "room q (length s)" and "app q s = Inr q'"
  shows "view (retire q' (length (view q))) = s"
proof -
  from assms(1,2) app_law [of q s 0] obtain q'' where
    "app q s = Inr q''" "invar q''" "view q'' = view q @ s" by auto
  with assms(3) show ?thesis by (simp add: view_retire)
qed

lemma retire_retire: "invar q \<Longrightarrow> view (retire (retire q m) n) = view (retire q (m + n))"
  by (simp add: view_retire invar_retire drop_drop add.commute)

end


section \<open>The buffer\<close>

record buffer =
  buf_data :: string
  rindex :: size_t
  windex :: size_t

definition Buffer_new :: "size_t \<Rightarrow> buffer" where
  "Buffer_new init_size = \<lparr>buf_data = replicate init_size NUL, rindex = 0, windex = 0\<rparr>"

definition reset_buf :: "buffer \<Rightarrow> buffer" where
  "reset_buf b = b\<lparr>rindex := 0, windex := 0\<rparr>"

definition readable :: "buffer \<Rightarrow> size_t" where
  "readable b = size_sub (windex b) (rindex b)"

definition writable :: "buffer \<Rightarrow> size_t" where
  "writable b = size_sub (length (buf_data b)) (windex b)"

definition buf_view :: "buffer \<Rightarrow> sview" where
  \<comment> \<open>\<open>string_view(peek(), readable())\<close>\<close>
  "buf_view b = take (readable b) (drop (rindex b) (buf_data b))"

definition retiredAll :: "buffer \<Rightarrow> buffer" where
  "retiredAll b = b\<lparr>rindex := 0, windex := 0\<rparr>"

definition retired :: "buffer \<Rightarrow> size_t \<Rightarrow> buffer" where
  "retired b len =
     (if len < readable b then b\<lparr>rindex := size_add (rindex b) len\<rparr> else retiredAll b)"

definition hasWritten :: "buffer \<Rightarrow> size_t \<Rightarrow> buffer" where
  "hasWritten b len = b\<lparr>windex := size_add (windex b) len\<rparr>"

definition resize :: "string \<Rightarrow> size_t \<Rightarrow> string res" where
  \<comment> \<open>\<open>std::vector<char>::resize\<close>\<close>
  "resize xs n = (if max_size < n then Inl LengthError
                  else Inr (take n xs @ replicate (n - length xs) NUL))"

definition makeSpace :: "buffer \<Rightarrow> size_t \<Rightarrow> buffer res" where
  "makeSpace b len =
     (if size_add (rindex b) (writable b) < len
      then res_map (\<lambda>d. b\<lparr>buf_data := d\<rparr>)
             (resize (buf_data b) (size_add (size_add (windex b) len) 1))
      else let rlen = readable b
           in res_map (\<lambda>d. b\<lparr>buf_data := d, rindex := 0, windex := size_add 0 rlen\<rparr>)
                (write_at (buf_data b) 0 (buf_view b)))"

definition ensureWritable :: "buffer \<Rightarrow> size_t \<Rightarrow> buffer res" where
  "ensureWritable b len = (if writable b < len then makeSpace b len else Inr b)"

definition copy_in :: "buffer \<Rightarrow> string \<Rightarrow> buffer res" where
  \<comment> \<open>\<open>std::copy(first, last, beginWrite())\<close>\<close>
  "copy_in b s = res_map (\<lambda>d. b\<lparr>buf_data := d\<rparr>) (write_at (buf_data b) (windex b) s)"

definition append_buf :: "buffer \<Rightarrow> string \<Rightarrow> buffer res" where
  "append_buf b s =
     (if length s \<le> 0 then Inr b
      else res_bind (ensureWritable b (length s))
             (\<lambda>b1. res_map (\<lambda>b2. hasWritten b2 (length s)) (copy_in b1 s)))"

definition append_range :: "buffer \<Rightarrow> string \<Rightarrow> buffer res" where
  \<comment> \<open>the overload on a pair of iterators: the length goes through an \<open>int\<close>\<close>
  "append_range b s =
     (let len = to_int (int (length s))
      in if len \<le> 0 then Inr b
         else res_bind (ensureWritable b (to_size len))
                (\<lambda>b1. res_map (\<lambda>b2. hasWritten b2 (to_size len)) (copy_in b1 s)))"


section \<open>Invariant\<close>

definition buf_inv :: "buffer \<Rightarrow> bool" where
  "buf_inv b \<longleftrightarrow> rindex b \<le> windex b \<and> windex b \<le> length (buf_data b) \<and>
     length (buf_data b) \<le> max_size"

definition buf_room :: "buffer \<Rightarrow> nat \<Rightarrow> bool" where
  \<comment> \<open>there is address space for \<open>n\<close> more bytes\<close>
  "buf_room b n \<longleftrightarrow> windex b + n < max_size"

lemma readable_eq [simp]: "buf_inv b \<Longrightarrow> readable b = windex b - rindex b"
  unfolding readable_def buf_inv_def max_size_def by (rule size_sub_small) auto

lemma writable_eq [simp]: "buf_inv b \<Longrightarrow> writable b = length (buf_data b) - windex b"
  unfolding writable_def buf_inv_def max_size_def by (rule size_sub_small) auto

lemma length_buf_view [simp]: "buf_inv b \<Longrightarrow> length (buf_view b) = windex b - rindex b"
  by (simp add: buf_view_def) (auto simp: buf_inv_def)

lemma buf_inv_new: "n \<le> max_size \<Longrightarrow> buf_inv (Buffer_new n)"
  by (simp add: buf_inv_def Buffer_new_def)

lemma buf_view_new [simp]: "buf_view (Buffer_new n) = []"
  by (simp add: buf_view_def Buffer_new_def readable_def size_sub_def)

lemma buf_inv_reset [simp]: "buf_inv b \<Longrightarrow> buf_inv (reset_buf b)"
  by (simp add: buf_inv_def reset_buf_def)

lemma buf_view_reset [simp]: "buf_view (reset_buf b) = []"
  by (simp add: buf_view_def reset_buf_def readable_def size_sub_def)

lemma buf_inv_retiredAll [simp]: "buf_inv b \<Longrightarrow> buf_inv (retiredAll b)"
  by (simp add: buf_inv_def retiredAll_def)

lemma buf_view_retiredAll [simp]: "buf_view (retiredAll b) = []"
  by (simp add: buf_view_def retiredAll_def readable_def size_sub_def)

lemma retired_eq:
  assumes "buf_inv b"
  shows "retired b n =
     (if n < windex b - rindex b then b\<lparr>rindex := rindex b + n\<rparr> else retiredAll b)"
  using assms by (simp add: retired_def) (auto simp: buf_inv_def max_size_def size_add_small)

lemma buf_inv_retired [simp]: "buf_inv b \<Longrightarrow> buf_inv (retired b n)"
  by (simp add: retired_eq) (auto simp: buf_inv_def)

lemma buf_view_retired [simp]:
  assumes "buf_inv b"
  shows "buf_view (retired b n) = drop n (buf_view b)"
proof (cases "n < windex b - rindex b")
  case True
  then have r: "retired b n = b\<lparr>rindex := rindex b + n\<rparr>" using assms by (simp add: retired_eq)
  then have "buf_inv (b\<lparr>rindex := rindex b + n\<rparr>)" using assms buf_inv_retired by metis
  then show ?thesis using assms True r
    by (simp add: buf_view_def drop_take add.commute)
next
  case False
  then show ?thesis using assms by (simp add: retired_eq)
qed

lemma makeSpace_ok:
  assumes inv: "buf_inv b" and need: "writable b < len" and room: "buf_room b len"
  shows "\<exists>b'. makeSpace b len = Inr b' \<and> buf_inv b' \<and> buf_view b' = buf_view b \<and>
     len \<le> writable b' \<and> windex b' \<le> windex b"
proof -
  let ?d = "buf_data b" and ?r = "rindex b" and ?w = "windex b"
  from inv have bounds: "?r \<le> ?w" "?w \<le> length ?d" "length ?d < size_mod"
    by (auto simp: buf_inv_def max_size_def)
  have sum: "size_add ?r (writable b) = ?r + (length ?d - ?w)"
    using inv bounds by (simp add: size_add_small)
  show ?thesis
  proof (cases "?r + (length ?d - ?w) < len")
    case True
    have n: "size_add (size_add ?w len) 1 = ?w + len + 1" "?w + len + 1 \<le> max_size"
      using room by (auto simp: buf_room_def max_size_def size_add_small)
    let ?b = "b\<lparr>buf_data := ?d @ replicate (?w + len + 1 - length ?d) NUL\<rparr>"
    have grow: "length ?d \<le> ?w + len + 1" using True bounds by linarith
    have "makeSpace b len = Inr ?b"
      using True n grow sum by (simp add: makeSpace_def resize_def)
    moreover have inv': "buf_inv ?b" using inv n grow by (auto simp: buf_inv_def)
    moreover have "buf_view ?b = buf_view b"
      using inv inv' bounds by (simp add: buf_view_def)
    moreover have "len \<le> writable ?b" using inv' grow by simp
    ultimately show ?thesis by auto
  next
    case False
    let ?v = "buf_view b"
    let ?b = "b\<lparr>buf_data := ?v @ drop (?w - ?r) ?d, rindex := 0, windex := ?w - ?r\<rparr>"
    have "write_at ?d 0 ?v = Inr (?v @ drop (?w - ?r) ?d)"
      using inv bounds by (simp add: write_at_def)
    then have "makeSpace b len = Inr ?b"
      using False sum inv bounds by (simp add: makeSpace_def size_add_small)
    moreover have inv': "buf_inv ?b" using inv by (auto simp: buf_inv_def)
    moreover have "buf_view ?b = buf_view b"
      using inv inv' by (simp add: buf_view_def [of ?b])
    moreover have "len \<le> writable ?b" using inv inv' False bounds by simp
    ultimately show ?thesis by auto
  qed
qed

lemma ensureWritable_ok:
  assumes "buf_inv b" and "buf_room b len"
  shows "\<exists>b'. ensureWritable b len = Inr b' \<and> buf_inv b' \<and> buf_view b' = buf_view b \<and>
     len \<le> writable b' \<and> windex b' \<le> windex b"
  using assms makeSpace_ok [of b len] by (cases "writable b < len") (auto simp: ensureWritable_def)

lemma copy_in_ok:
  assumes inv: "buf_inv b" and fits: "length s \<le> writable b"
  shows "\<exists>b'. copy_in b s = Inr b' \<and> buf_inv (hasWritten b' (length s)) \<and>
     buf_view (hasWritten b' (length s)) = buf_view b @ s \<and>
     windex (hasWritten b' (length s)) = windex b + length s"
proof -
  let ?d = "buf_data b" and ?r = "rindex b" and ?w = "windex b"
  let ?d' = "take ?w ?d @ s @ drop (?w + length s) ?d"
  let ?b = "b\<lparr>buf_data := ?d', windex := ?w + length s\<rparr>"
  from inv have bounds: "?r \<le> ?w" "?w \<le> length ?d" "length ?d < size_mod"
    by (auto simp: buf_inv_def max_size_def)
  from inv fits bounds have fit: "?w + length s \<le> length ?d" by simp
  have "copy_in b s = Inr (b\<lparr>buf_data := ?d'\<rparr>)"
    using fit by (simp add: copy_in_def write_at_def)
  moreover have "hasWritten (b\<lparr>buf_data := ?d'\<rparr>) (length s) = ?b"
    using fit bounds by (simp add: hasWritten_def size_add_small)
  moreover have inv': "buf_inv ?b" using inv fit by (auto simp: buf_inv_def)
  moreover have "buf_view ?b = buf_view b @ s"
    using inv inv' bounds by (simp add: buf_view_def drop_take)
  ultimately show ?thesis by simp
qed

lemma append_buf_ok:
  assumes inv: "buf_inv b" and room: "buf_room b (length s + n)"
  shows "\<exists>b'. append_buf b s = Inr b' \<and> buf_inv b' \<and> buf_room b' n \<and> buf_view b' = buf_view b @ s"
proof (cases "s = []")
  case True
  then show ?thesis using assms by (simp add: append_buf_def buf_room_def)
next
  case False
  from room have "buf_room b (length s)" by (simp add: buf_room_def)
  with inv obtain b1 where b1: "ensureWritable b (length s) = Inr b1" "buf_inv b1"
      "buf_view b1 = buf_view b" "length s \<le> writable b1" "windex b1 \<le> windex b"
    using ensureWritable_ok by blast
  from copy_in_ok [OF b1(2,4)] obtain b2 where b2: "copy_in b1 s = Inr b2"
      "buf_inv (hasWritten b2 (length s))"
      "buf_view (hasWritten b2 (length s)) = buf_view b1 @ s"
      "windex (hasWritten b2 (length s)) = windex b1 + length s" by blast
  have "buf_room (hasWritten b2 (length s)) n"
    using b1(5) b2(4) room by (simp add: buf_room_def)
  with False b1 b2 show ?thesis by (simp add: append_buf_def)
qed

text \<open>Below \<open>2 ^ 31\<close> bytes the iterator overload is the plain one.\<close>

lemma append_range_eq: "length s < 2147483648 \<Longrightarrow> append_range b s = append_buf b s"
  by (auto simp: append_range_def append_buf_def int_range_def to_size_id Let_def)

interpretation bq: byte_queue buf_view buf_inv buf_room append_buf retired
proof unfold_locales
  fix b n m
  show "buf_inv b \<Longrightarrow> buf_room b m \<Longrightarrow> buf_room (retired b n) m"
    by (auto simp: retired_eq buf_room_def retiredAll_def)
qed (simp_all add: append_buf_ok)

lemmas buf_simps = buf_view_retired buf_inv_retired buf_view_retiredAll buf_inv_retiredAll
  buf_view_reset buf_inv_reset


section \<open>Sequences of operations\<close>

datatype buf_op = Append string | AppendRange string | Retired nat | RetiredAll | Reset

fun buf_step :: "buffer \<Rightarrow> buf_op \<Rightarrow> buffer res" where
  "buf_step b (Append s) = append_buf b s"
| "buf_step b (AppendRange s) = append_range b s"
| "buf_step b (Retired n) = Inr (retired b n)"
| "buf_step b RetiredAll = Inr (retiredAll b)"
| "buf_step b Reset = Inr (reset_buf b)"

text \<open>The specification: a sequence of bytes, written at the end and consumed at the front.\<close>

fun queue_step :: "buf_op \<Rightarrow> string \<Rightarrow> string" where
  "queue_step (Append s) q = q @ s"
| "queue_step (AppendRange s) q = q @ s"
| "queue_step (Retired n) q = drop n q"
| "queue_step RetiredAll q = []"
| "queue_step Reset q = []"

fun op_bytes :: "buf_op \<Rightarrow> nat" where
  "op_bytes (Append s) = length s"
| "op_bytes (AppendRange s) = length s"
| "op_bytes _ = 0"

lemma buf_room_kept:
  assumes "buf_room b m"
  shows "buf_inv b \<Longrightarrow> buf_room (retired b n) m" "buf_room (retiredAll b) m" "buf_room (reset_buf b) m"
  using assms bq.room_retire [of b m n] by (auto simp: buf_room_def retiredAll_def reset_buf_def)

lemma buf_step_ok:
  assumes "buf_inv b" and "buf_room b (op_bytes x + n)" and "op_bytes x < 2147483648"
  shows "\<exists>b'. buf_step b x = Inr b' \<and> buf_inv b' \<and> buf_room b' n \<and> buf_view b' = queue_step x (buf_view b)"
  using assms append_buf_ok [of b _ n] by (cases x) (auto simp: append_range_eq buf_room_kept)

text \<open>
  C13. A buffer behaves as a queue of bytes under every sequence of its operations: whatever growing
  and compacting \<open>makeSpace\<close> does, no operation fails or writes out of bounds, the indices stay
  ordered, and the readable bytes are those the queue specification gives. Each single append is
  shorter than \<open>2 ^ 31\<close> bytes (the iterator overload keeps its length in an \<open>int\<close>).
\<close>

theorem buffer_refines_queue:
  assumes "buf_inv b" and "buf_room b (sum_list (map op_bytes ops))"
    and "\<forall>x \<in> set ops. op_bytes x < 2147483648"
  shows "\<exists>b'. res_fold buf_step ops b = Inr b' \<and> buf_inv b' \<and>
     buf_view b' = fold queue_step ops (buf_view b)"
  using assms
proof (induction ops arbitrary: b)
  case (Cons x ops)
  then obtain b1 where "buf_step b x = Inr b1" "buf_inv b1"
      "buf_room b1 (sum_list (map op_bytes ops))" "buf_view b1 = queue_step x (buf_view b)"
    using buf_step_ok [of b x "sum_list (map op_bytes ops)"] by auto
  with Cons.IH [of b1] Cons.prems show ?case by simp
qed simp

theorem buffer_refines_queue_witness:
  "\<exists>b'. res_fold buf_step [Append ''abcd'', Retired 2, AppendRange ''efg'', Reset, Append ''h''] (Buffer_new 4) =
     Inr b' \<and> buf_inv b' \<and> buf_view b' = ''h''"
  using buffer_refines_queue [of "Buffer_new 4" "[Append ''abcd'', Retired 2, AppendRange ''efg'', Reset, Append ''h'']"]
  by (simp add: buf_inv_new buf_room_def max_size_def) (simp add: Buffer_new_def)

text \<open>
  The iterator overload of \<open>append\<close> drops everything when the length does not fit into an
  \<open>int\<close>: between \<open>2 ^ 31\<close> and \<open>2 ^ 32\<close> bytes the buffer is returned unchanged.
\<close>

theorem append_range_drops_huge:
  assumes "2147483648 \<le> length s" and "length s \<le> 4294967296"
  shows "append_range b s = Inr b"
proof -
  have "to_int (int (length s)) \<le> 0"
  proof (cases "length s = 4294967296")
    case False
    have "(int (length s) + 2147483648) mod 4294967296 = (int (length s) - 2147483648 + 4294967296) mod 4294967296"
      by (simp add: add.commute)
    also have "\<dots> = int (length s) - 2147483648"
      using assms False by (simp only: mod_add_self2) simp
    finally show ?thesis using assms by (simp add: to_int_def)
  qed (simp add: to_int_def)
  then show ?thesis by (simp add: append_range_def)
qed

theorem append_range_drops_huge_witness:
  "append_range (Buffer_new 4) (replicate 2147483648 NUL) = Inr (Buffer_new 4)"
  by (rule append_range_drops_huge) simp_all

end
