(* ===== verification/HttpMap.thy ===== *)
theory HttpMap
  imports EncodeUtil Buffer "HOL-Library.Char_ord" "HOL-Library.List_Lexorder"
begin

text \<open>
  The containers of the HTTP layer: the abstract class \<open>Map\<close> and its two implementations,
  \<open>HttpMap\<close> (\<open>soc/http/include/HttpMap.h\<close>) and \<open>HttpHeader\<close>
  (\<open>soc/http/src/HttpHeader.cc\<close>), and \<open>HttpCookie\<close>, which derives from
  \<open>HttpMap\<close>. The class \<open>Map\<close> is the locale \<open>assoc_map\<close>; both implementations are
  interpretations of it. Each operation holds the container's mutex from its first to its last
  statement, so an operation is one step.
\<close>

section \<open>The interface \<open>Map\<close>\<close>

text \<open>
  Keys are compared up to \<open>norm\<close> (header names ignore case); \<open>single k\<close> holds for the keys
  that have at most one value (all but \<open>set-cookie\<close> in a header).
\<close>

locale assoc_map =
  fixes invar :: "'m \<Rightarrow> bool"
    and norm :: "'k \<Rightarrow> 'n"
    and single :: "'k \<Rightarrow> bool"
    and clear :: "'m \<Rightarrow> 'm"
    and add :: "'m \<Rightarrow> 'k \<Rightarrow> 'v \<Rightarrow> 'm"
    and remove :: "'m \<Rightarrow> 'k \<Rightarrow> 'm"
    and get :: "'m \<Rightarrow> 'k \<Rightarrow> 'v option"
    and contain :: "'m \<Rightarrow> 'k \<Rightarrow> bool"
  assumes single_norm: "\<And>k k'. norm k = norm k' \<Longrightarrow> single k = single k'"
    and clear_law: "\<And>m k. get (clear m) k = None" "\<And>m. invar (clear m)"
    and add_law: "\<And>m k v k'. invar m \<Longrightarrow> single k \<Longrightarrow>
      get (add m k v) k' = (if norm k' = norm k then Some v else get m k')"
    and add_other: "\<And>m k v k'. invar m \<Longrightarrow> norm k' \<noteq> norm k \<Longrightarrow> get (add m k v) k' = get m k'"
    and invar_add: "\<And>m k v. invar m \<Longrightarrow> invar (add m k v)"
    and remove_law: "\<And>m k k'. invar m \<Longrightarrow> get (remove m k) k' = (if norm k' = norm k then None else get m k')"
    and invar_remove: "\<And>m k. invar m \<Longrightarrow> invar (remove m k)"
    and contain_law: "\<And>m k. contain m k = (get m k \<noteq> None)"
begin

lemma invar_adds: "invar m \<Longrightarrow> invar (foldl (\<lambda>m (k, v). add m k v) m kvs)"
  by (induction kvs arbitrary: m) (auto simp: invar_add)

text \<open>Adding a sequence of pairs: the last pair of a key decides.\<close>

lemma get_adds:
  assumes "invar m" and "single k"
  shows "get (foldl (\<lambda>m (k, v). add m k v) m kvs) k =
    (case find (\<lambda>(k', v). norm k' = norm k) (rev kvs) of Some (k', v) \<Rightarrow> Some v | None \<Rightarrow> get m k)"
  using assms
proof (induction kvs rule: rev_induct)
  case (snoc kv kvs)
  obtain k' v where kv: "kv = (k', v)" by fastforce
  have inv: "invar (foldl (\<lambda>m (k, v). add m k v) m kvs)" using snoc.prems invar_adds by blast
  show ?case
  proof (cases "norm k' = norm k")
    case True
    then have "single k'" using snoc.prems single_norm by blast
    with True inv kv show ?thesis by (simp add: add_law)
  next
    case False
    with inv kv snoc show ?thesis by (simp add: add_other)
  qed
qed simp

lemma add_then_remove:
  "invar m \<Longrightarrow> get m k = None \<Longrightarrow> get (remove (add m k v) k) k' = (if norm k' = norm k then None else get m k')"
  by (simp add: remove_law invar_add add_other)

end


section \<open>\<open>HttpMap\<close>\<close>

type_synonym ('k, 'v) httpmap = "'k \<rightharpoonup> 'v"

definition hm_new :: "('k, 'v) httpmap" where
  "hm_new = Map.empty"

definition hm_add :: "('k, 'v) httpmap \<Rightarrow> 'k \<Rightarrow> 'v \<Rightarrow> ('k, 'v) httpmap" where
  "hm_add m key value = m(key \<mapsto> value)"

definition hm_remove :: "('k, 'v) httpmap \<Rightarrow> 'k \<Rightarrow> ('k, 'v) httpmap" where
  "hm_remove m key = (case m key of Some _ \<Rightarrow> m(key := None) | None \<Rightarrow> m)"

definition hm_get :: "('k, 'v) httpmap \<Rightarrow> 'k \<Rightarrow> 'v option" where
  "hm_get m key = (case m key of Some v \<Rightarrow> Some v | None \<Rightarrow> None)"

definition hm_contain :: "('k, 'v) httpmap \<Rightarrow> 'k \<Rightarrow> bool" where
  "hm_contain m key \<longleftrightarrow> m key \<noteq> None"

definition hm_clear :: "('k, 'v) httpmap \<Rightarrow> ('k, 'v) httpmap" where
  "hm_clear m = Map.empty"

definition hm_index :: "'v \<Rightarrow> ('k, 'v) httpmap \<Rightarrow> 'k \<Rightarrow> 'v \<times> ('k, 'v) httpmap" where
  \<comment> \<open>\<open>operator[]\<close>: an absent key is inserted with the default value\<close>
  "hm_index dflt m key = (case m key of Some v \<Rightarrow> (v, m) | None \<Rightarrow> (dflt, m(key \<mapsto> dflt)))"

definition hm_size :: "('k \<times> 'v) list \<Rightarrow> nat" where
  \<comment> \<open>the entries in the order of iteration\<close>
  "hm_size es = length es"

definition hm_empty :: "('k \<times> 'v) list \<Rightarrow> bool" where
  "hm_empty es \<longleftrightarrow> es = []"

definition hm_forEach :: "('k \<Rightarrow> 'v \<Rightarrow> 's \<Rightarrow> 's) \<Rightarrow> ('k \<times> 'v) list \<Rightarrow> 's \<Rightarrow> 's" where
  "hm_forEach callback es s = fold (\<lambda>(k, v). callback k v) es s"

fun hm_each :: "('k \<Rightarrow> 'v \<Rightarrow> 's \<Rightarrow> bool \<times> 's) \<Rightarrow> ('k \<times> 'v) list \<Rightarrow> 's \<Rightarrow> 's" where
  \<comment> \<open>\<open>each\<close> over the entries in the order of iteration: the callback's result stops the loop\<close>
  "hm_each callback [] s = s"
| "hm_each callback ((k, v) # es) s =
     (case callback k v s of (stop, s') \<Rightarrow> if stop then s' else hm_each callback es s')"

definition enumerates :: "('k \<times> 'v) list \<Rightarrow> ('k, 'v) httpmap \<Rightarrow> bool" where
  \<comment> \<open>an order in which \<open>unordered_map\<close> may iterate\<close>
  "enumerates es m \<longleftrightarrow> distinct (map fst es) \<and> map_of es = m"

interpretation hm: assoc_map "\<lambda>_. True" id "\<lambda>_. True" hm_clear hm_add hm_remove hm_get hm_contain
  by unfold_locales
    (auto simp: hm_clear_def hm_add_def hm_remove_def hm_get_def hm_contain_def split: option.splits)


section \<open>\<open>HttpHeader\<close>\<close>

text \<open>The \<open>std::multimap\<close>: the entries in the order of their keys, equal keys in insertion order.\<close>

type_synonym header = "(string \<times> string) list"

fun mm_emplace :: "string \<Rightarrow> string \<Rightarrow> header \<Rightarrow> header" where
  "mm_emplace k v [] = [(k, v)]"
| "mm_emplace k v ((k', v') # h) =
     (if k' \<le> k then (k', v') # mm_emplace k v h else (k, v) # (k', v') # h)"

fun mm_assign :: "string \<Rightarrow> string \<Rightarrow> header \<Rightarrow> header" where
  \<comment> \<open>\<open>lower_bound(k)->second = v\<close>\<close>
  "mm_assign k v [] = []"
| "mm_assign k v ((k', v') # h) = (if k' = k then (k, v) # h else (k', v') # mm_assign k v h)"

definition add0 :: "header \<Rightarrow> string \<Rightarrow> string \<Rightarrow> header" where
  "add0 h key value =
     (let k = toLowers key
      in if \<not> starts_with k ''set-cookie'' \<and> map_of h k \<noteq> None then mm_assign k value h
         else mm_emplace k value h)"

definition hd_add :: "header \<Rightarrow> string \<Rightarrow> string \<Rightarrow> header" where
  "hd_add h key value = add0 h key value"

definition hd_add_all :: "header \<Rightarrow> header \<Rightarrow> header" where
  \<comment> \<open>\<open>add(const HttpHeader &)\<close>\<close>
  "hd_add_all h h' = foldl (\<lambda>h (k, v). add0 h k v) h h'"

definition hd_remove :: "header \<Rightarrow> string \<Rightarrow> header" where
  "hd_remove h key =
     (let k = toLowers key in if map_of h k \<noteq> None then filter (\<lambda>(k', v). k' \<noteq> k) h else h)"

definition hd_get :: "header \<Rightarrow> string \<Rightarrow> string option" where
  "hd_get h key = map_of h (toLowers key)"

definition hd_contain :: "header \<Rightarrow> string \<Rightarrow> bool" where
  "hd_contain h key \<longleftrightarrow> map_of h (toLowers key) \<noteq> None"

definition hd_size :: "header \<Rightarrow> nat" where
  "hd_size h = length h"

definition hd_empty :: "header \<Rightarrow> bool" where
  "hd_empty h \<longleftrightarrow> h = []"

definition hd_clear :: "header \<Rightarrow> header" where
  "hd_clear h = []"

definition hd_line :: "string \<times> string \<Rightarrow> string" where
  "hd_line = (\<lambda>(key, value). key @ '': '' @ value @ CRLF)"

definition hd_toString :: "header \<Rightarrow> string" where
  "hd_toString h = concat (map hd_line h)"

definition hd_store :: "header \<Rightarrow> buffer option \<Rightarrow> buffer option res" where
  "hd_store h sender =
     (case sender of None \<Rightarrow> Inr None
      | Some b \<Rightarrow> res_map Some (res_fold append_buf (map hd_line h) b))"

text \<open>
  \<open>parse\<close>. The loop that skips blanks indexes \<open>line_header\<close>, a view whose end is the
  \<open>\r\n\<close> of \<open>header\<close>; \<open>operator[]\<close> does not check, so it reads through the
  pointer the two views share.
\<close>

function skip_blanks :: "sview \<Rightarrow> nat \<Rightarrow> nat res" where
  "skip_blanks s pos2 =
     res_bind (at s (pos2 + 1)) (\<lambda>c. if c = CHR '' '' then skip_blanks s (pos2 + 1) else Inr pos2)"
  by pat_completeness auto
termination
  by (relation "measure (\<lambda>(s, pos2). length s - pos2)") (auto simp: res_simps)

declare skip_blanks.simps [simp del]

lemma search_CRLF_Cons: "search CRLF s = Some pos \<Longrightarrow> pos + 2 \<le> length s"
  using search_bound [of CRLF s pos] by (simp add: CRLF_def)

function hd_parse :: "header \<Rightarrow> sview \<Rightarrow> int \<Rightarrow> (header \<times> int) res" where
  "hd_parse h s index =
     (if 2 \<le> length s \<and> s ! 0 = CHR 0x0D \<and> s ! 1 = CHR 0x0A then Inr (h, to_int (index + 2))
      else case search CRLF s of
        None \<Rightarrow> Inr (h, index)
      | Some pos \<Rightarrow> (case search_if (\<lambda>c. c = CHR '':'') (take pos s) of
          None \<Rightarrow> Inr (h, index)
        | Some pos2 \<Rightarrow>
            res_bind (sv_substr (take pos s) 0 pos2) (\<lambda>key.
            res_bind (skip_blanks s pos2) (\<lambda>pos3.
            res_bind (sv_substr (take pos s) (pos3 + 1) (size_sub pos (pos3 + 1))) (\<lambda>value.
              hd_parse (add0 h key value) (drop (pos + 2) s) (to_int (index + int (pos + 2))))))))"
  by pat_completeness auto
termination
  by (relation "measure (\<lambda>(h, s, index). length s)") (auto dest: search_CRLF_Cons)

declare hd_parse.simps [simp del]

definition HttpHeader_new :: "sview \<Rightarrow> header res" where
  "HttpHeader_new header = res_map fst (hd_parse [] header 0)"

definition hd_forEach :: "(string \<Rightarrow> string \<Rightarrow> 's \<Rightarrow> 's) \<Rightarrow> header \<Rightarrow> 's \<Rightarrow> 's" where
  "hd_forEach callback h s = fold (\<lambda>(k, v). callback k v) h s"


section \<open>\<open>HttpCookie\<close>\<close>

record cookie =
  ck_map :: "(string, string) httpmap"
  ck_expires :: string
  ck_domain :: string
  ck_path :: string
  ck_max_age :: int
  ck_secure :: bool
  ck_http_only :: bool

definition ck_new :: cookie where
  "ck_new = \<lparr>ck_map = hm_new, ck_expires = [], ck_domain = [], ck_path = [], ck_max_age = 0,
     ck_secure = False, ck_http_only = False\<rparr>"

definition ck_add :: "string \<Rightarrow> string \<Rightarrow> cookie \<Rightarrow> cookie" where
  "ck_add key value c = c\<lparr>ck_map := hm_add (ck_map c) key value\<rparr>"

definition setExpires :: "string \<Rightarrow> cookie \<Rightarrow> cookie" where
  "setExpires expires c = c\<lparr>ck_expires := expires\<rparr>"

definition setDomain :: "string \<Rightarrow> cookie \<Rightarrow> cookie" where
  "setDomain domain c = c\<lparr>ck_domain := domain\<rparr>"

definition setPath :: "string \<Rightarrow> cookie \<Rightarrow> cookie" where
  "setPath path c = c\<lparr>ck_path := path\<rparr>"

definition setMaxAge :: "int \<Rightarrow> cookie \<Rightarrow> cookie" where
  "setMaxAge second c = c\<lparr>ck_max_age := second\<rparr>"

definition setSecure :: "bool \<Rightarrow> cookie \<Rightarrow> cookie" where
  "setSecure secure c = c\<lparr>ck_secure := secure\<rparr>"

definition setHttpOnly :: "bool \<Rightarrow> cookie \<Rightarrow> cookie" where
  "setHttpOnly httponly c = c\<lparr>ck_http_only := httponly\<rparr>"

fun ck_pairs :: "nat \<Rightarrow> nat \<Rightarrow> (string \<times> string) list \<Rightarrow> string" where
  "ck_pairs i n [] = []"
| "ck_pairs i n ((key, value) # es) =
     (key @ ''='' @ value) @ (if i + 1 < n then ''; '' else []) @ ck_pairs (i + 1) n es"

definition ck_toString :: "(string \<times> string) list \<Rightarrow> cookie \<Rightarrow> string" where
  \<comment> \<open>the entries of \<open>map_\<close> in the order of iteration, and the cookie\<close>
  "ck_toString es c =
     ck_pairs 0 (length es) es @
     (if ck_expires c \<noteq> [] then ''; Expires='' @ ck_expires c else []) @
     (if ck_domain c \<noteq> [] then ''; Domain='' @ ck_domain c else []) @
     (if ck_path c \<noteq> [] then ''; Path='' @ ck_path c else []) @
     (if ck_max_age c > 0 then ''; Max-Age='' @ decimal (nat (ck_max_age c)) else []) @
     (if ck_secure c then ''; Secure'' else []) @
     (if ck_http_only c then ''; HttpOnly'' else [])"

lemma enumerates_size:
  assumes "enumerates es m"
  shows "hm_size es = card (dom m)" "hm_empty es \<longleftrightarrow> m = hm_new"
proof -
  have "dom m = fst ` set es" "distinct (map fst es)" using assms by (simp_all add: enumerates_def flip: dom_map_of_conv_image_fst)
  then show "hm_size es = card (dom m)" using distinct_card [of "map fst es"] by (simp add: hm_size_def)
  show "hm_empty es \<longleftrightarrow> m = hm_new" using assms by (cases es) (auto simp: enumerates_def hm_empty_def hm_new_def)
qed

text \<open>\<open>forEach\<close> and an \<open>each\<close> whose callback never asks to stop visit the same entries.\<close>

lemma hm_forEach_each: "hm_forEach f es s = hm_each (\<lambda>k v s. (False, f k v s)) es s"
  by (induction es arbitrary: s) (auto simp: hm_forEach_def)

lemma hd_toString_forEach: "hd_toString h = hd_forEach (\<lambda>key value str. str @ hd_line (key, value)) h []"
proof -
  have "hd_forEach (\<lambda>key value str. str @ hd_line (key, value)) h s = s @ hd_toString h" for s
    by (induction h arbitrary: s) (auto simp: hd_forEach_def hd_toString_def)
  then show ?thesis by simp
qed


section \<open>The header implements \<open>Map\<close>\<close>

definition header_inv :: "header \<Rightarrow> bool" where
  "header_inv h \<longleftrightarrow> sorted (map fst h) \<and> (\<forall>k \<in> set (map fst h). toLowers k = k)"

lemma set_mm_emplace: "set (mm_emplace k v h) = insert (k, v) (set h)"
  by (induction k v h rule: mm_emplace.induct) auto

lemma sorted_mm_emplace: "sorted (map fst h) \<Longrightarrow> sorted (map fst (mm_emplace k v h))"
  by (induction k v h rule: mm_emplace.induct) (auto simp: set_mm_emplace)

lemma map_fst_mm_assign: "map fst (mm_assign k v h) = map fst h"
  by (induction k v h rule: mm_assign.induct) auto

lemma map_of_mm_assign: "map_of (mm_assign k v h) k' = (if k' = k \<and> map_of h k \<noteq> None then Some v else map_of h k')"
  by (induction k v h rule: mm_assign.induct) auto

lemma map_of_mm_emplace:
  "sorted (map fst h) \<Longrightarrow> map_of (mm_emplace k v h) k' = (if k' = k \<and> map_of h k = None then Some v else map_of h k')"
proof (induction k v h rule: mm_emplace.induct)
  case (2 k v k1 v1 h)
  show ?case
  proof (cases "k1 \<le> k")
    case False
    with 2 have "k \<notin> fst ` set ((k1, v1) # h)" by auto
    then have "map_of ((k1, v1) # h) k = None" by (rule map_of_eq_None_iff [THEN iffD2])
    with False show ?thesis by simp
  qed (use 2 in auto)
qed simp

lemma header_inv_emplace: "header_inv h \<Longrightarrow> toLowers k = k \<Longrightarrow> header_inv (mm_emplace k v h)"
  by (auto simp: header_inv_def sorted_mm_emplace set_mm_emplace)

lemma header_inv_assign: "header_inv h \<Longrightarrow> header_inv (mm_assign k v h)"
  by (unfold header_inv_def map_fst_mm_assign)

lemma header_inv_add0: "header_inv h \<Longrightarrow> header_inv (add0 h k v)"
  by (auto simp: add0_def Let_def header_inv_emplace header_inv_assign)

lemma map_of_filter_neq: "map_of (filter (\<lambda>(k', v). k' \<noteq> k) h) k' = (if k' = k then None else map_of h k')"
  by (induction h) auto

lemma sorted_filter_fst: "sorted (map fst h) \<Longrightarrow> sorted (map fst (filter P h))"
  by (induction h) auto

interpretation hd: assoc_map header_inv toLowers "\<lambda>k. \<not> starts_with (toLowers k) ''set-cookie''"
  hd_clear hd_add hd_remove hd_get hd_contain
proof unfold_locales
  fix m :: header and k k' v
  show "header_inv (hd_add m k v)" if "header_inv m" using that by (simp add: hd_add_def header_inv_add0)
  show "header_inv (hd_remove m k)" if "header_inv m"
    using that by (auto simp: hd_remove_def Let_def header_inv_def sorted_filter_fst)
  show "hd_get (hd_remove m k) k' = (if toLowers k' = toLowers k then None else hd_get m k')"
    by (auto simp: hd_remove_def hd_get_def Let_def map_of_filter_neq)
  show "hd_get (hd_add m k v) k' = hd_get m k'" if "header_inv m" "toLowers k' \<noteq> toLowers k"
    using that by (auto simp: hd_add_def add0_def hd_get_def Let_def map_of_mm_assign map_of_mm_emplace header_inv_def)
  show "hd_get (hd_add m k v) k' = (if toLowers k' = toLowers k then Some v else hd_get m k')"
    if "header_inv m" "\<not> starts_with (toLowers k) ''set-cookie''"
    using that by (auto simp: hd_add_def add0_def hd_get_def Let_def map_of_mm_assign map_of_mm_emplace header_inv_def)
qed (auto simp: hd_clear_def hd_get_def hd_contain_def header_inv_def)


section \<open>Printing and parsing headers\<close>

lemma length_mm_emplace: "length (hd_toString (mm_emplace k v h)) = length (hd_toString h) + length k + length v + 4"
  by (induction k v h rule: mm_emplace.induct) (simp_all add: hd_toString_def hd_line_def CRLF_def split_beta)

lemma length_mm_assign: "length (hd_toString (mm_assign k v h)) \<le> length (hd_toString h) + length v"
  by (induction k v h rule: mm_assign.induct) (simp_all add: hd_toString_def hd_line_def CRLF_def split_beta)

lemma length_hd_add: "length (hd_toString (hd_add h k v)) \<le> length (hd_toString h) + length k + length v + 4"
  using length_mm_assign [of "toLowers k" v h] by (simp add: hd_add_def add0_def Let_def length_mm_emplace length_toLowers)

text \<open>The entries that survive printing and parsing.\<close>

definition entry_ok :: "string \<times> string \<Rightarrow> bool" where
  "entry_ok = (\<lambda>(k, v). CHR '':'' \<notin> set k \<and> CHR 0x0D \<notin> set k \<and> CHR 0x0D \<notin> set v \<and>
     (v = [] \<or> hd v \<noteq> CHR '' ''))"

definition once_keys :: "header \<Rightarrow> bool" where
  \<comment> \<open>only \<open>set-cookie\<close> headers are repeated\<close>
  "once_keys h \<longleftrightarrow> distinct (filter (\<lambda>k. \<not> starts_with k ''set-cookie'') (map fst h))"

lemma search_CRLF_line: "CHR 0x0D \<notin> set s \<Longrightarrow> search CRLF (s @ CRLF @ t) = Some (length s)"
  by (induction s) (auto simp: CRLF_def starts_with_def)

lemma skip_blanks_at:
  assumes "CHR '':'' \<notin> set k" and "v = [] \<or> hd v \<noteq> CHR '' ''"
  shows "skip_blanks (k @ '': '' @ v @ CRLF @ t) (length k) = Inr (length k + 1)"
proof -
  let ?s = "k @ '': '' @ v @ CRLF @ t"
  have "at ?s (length k + 1) = Inr (CHR '' '')" by (simp add: at_def nth_append)
  moreover have "at ?s (length k + 1 + 1) = Inr ((v @ CRLF @ t) ! 0)"
    by (simp add: at_def nth_append CRLF_def)
  moreover have "(v @ CRLF @ t) ! 0 \<noteq> CHR '' ''"
    using assms(2) by (cases v) (auto simp: CRLF_def)
  ultimately show ?thesis
    by (subst skip_blanks.simps, simp) (subst skip_blanks.simps, simp)
qed

lemma hd_parse_line:
  assumes ok: "entry_ok (k, v)" and len: "length (hd_line (k, v)) < size_mod"
  shows "hd_parse h (hd_line (k, v) @ t) index =
     hd_parse (add0 h k v) t (to_int (index + int (length (hd_line (k, v)))))"
proof -
  let ?l = "k @ '': '' @ v" and ?s = "k @ '': '' @ v @ CRLF @ t"
  from ok have cr: "CHR 0x0D \<notin> set ?l" and colon: "CHR '':'' \<notin> set k" by (auto simp: entry_ok_def)
  have 1: "search CRLF ?s = Some (length ?l)" using search_CRLF_line [OF cr, of t] by simp
  have 2: "search_if (\<lambda>c. c = CHR '':'') (take (length ?l) ?s) = Some (length k)"
    using colon by (auto intro: search_if_append_hit)
  have 3: "skip_blanks ?s (length k) = Inr (length k + 1)"
    using skip_blanks_at [OF colon] ok by (simp add: entry_ok_def)
  have 4: "?s ! 0 \<noteq> CHR 0x0D" using cr by (cases k) auto
  have 5: "size_sub (length ?l) (length k + 1 + 1) = length v"
    using len by (subst size_sub_small) (auto simp: hd_line_def)
  have 6: "drop (length ?l + 2) ?s = t" using drop_len [of "?l @ CRLF" "length ?l + 2" t] by (simp add: CRLF_def)
  have 7: "hd_line (k, v) @ t = ?s" "length (hd_line (k, v)) = length ?l + 2" by (simp_all add: hd_line_def CRLF_def)
  show ?thesis unfolding 7
    by (subst hd_parse.simps) (simp only: 1 2 3 4 5 6 option.case res_bind_Inr if_False simp_thms sv_substr_def, simp)
qed

lemma mm_emplace_last: "\<forall>x \<in> set h. fst x \<le> k \<Longrightarrow> mm_emplace k v h = h @ [(k, v)]"
  by (induction h) auto

lemma add0_last:
  assumes "sorted (map fst h @ [k])" and "toLowers k = k"
    and "starts_with k ''set-cookie'' \<or> k \<notin> fst ` set h"
  shows "add0 h k v = h @ [(k, v)]"
proof -
  have "mm_emplace k v h = h @ [(k, v)]" using assms(1) by (intro mm_emplace_last) (auto simp: sorted_append)
  moreover have "starts_with k ''set-cookie'' \<or> map_of h k = None"
    using assms(3) by (auto simp: map_of_eq_None_iff)
  ultimately show ?thesis using assms(2) by (auto simp: add0_def Let_def)
qed

lemma hd_parse_lines:
  assumes "header_inv (h @ es)" and "once_keys (h @ es)" and "\<forall>e \<in> set es. entry_ok e"
    and "0 \<le> index" and "index + int (length (concat (map hd_line es))) < 2147483648"
  shows "hd_parse h (concat (map hd_line es) @ t) index =
     hd_parse (h @ es) t (index + int (length (concat (map hd_line es))))"
  using assms
proof (induction es arbitrary: h index)
  case (Cons e es)
  obtain k v where e: "e = (k, v)" by fastforce
  let ?l = "hd_line (k, v)"
  have ok: "entry_ok (k, v)" using Cons.prems(3) e by simp
  have len: "length ?l < size_mod" and ir: "int_range (index + int (length ?l))"
    using Cons.prems(4,5) e by (auto simp: int_range_def)
  have add: "add0 h k v = h @ [(k, v)]"
  proof (rule add0_last)
    show "sorted (map fst h @ [k])" "toLowers k = k"
      using Cons.prems(1) e by (auto simp: header_inv_def sorted_append)
    show "starts_with k ''set-cookie'' \<or> k \<notin> fst ` set h"
      using Cons.prems(2) e by (auto simp: once_keys_def image_iff)
  qed
  have "hd_parse h (?l @ concat (map hd_line es) @ t) index =
      hd_parse (h @ [(k, v)]) (concat (map hd_line es) @ t) (index + int (length ?l))"
    using hd_parse_line [OF ok len] ir by (simp add: add)
  also have "\<dots> = hd_parse ((h @ [(k, v)]) @ es) t (index + int (length ?l) + int (length (concat (map hd_line es))))"
    using Cons.prems e by (intro Cons.IH) auto
  finally show ?case using e by (simp add: add.assoc)
qed simp

lemma hd_parse_end: "hd_parse h (CRLF @ t) index = Inr (h, to_int (index + 2))"
  by (subst hd_parse.simps) (simp add: CRLF_def)

text \<open>
  C15. Printing a header and parsing the text gives the header back, in order and with its repeated
  \<open>Set-Cookie\<close> lines, and reports the length of the text: for entries without line breaks, without
  a colon in the name and without a leading blank in the value.
\<close>

theorem header_roundtrip:
  assumes "header_inv h" and "once_keys h" and "\<forall>e \<in> set h. entry_ok e"
    and "int (length (hd_toString h)) + 2 < 2147483648"
  shows "hd_parse (hd_clear h') (hd_toString h @ CRLF @ body) 0 = Inr (h, int (length (hd_toString h)) + 2)"
proof -
  have "hd_parse [] (hd_toString h @ CRLF @ body) 0 = hd_parse h (CRLF @ body) (int (length (hd_toString h)))"
    using hd_parse_lines [of "[]" h 0 "CRLF @ body"] assms by (simp add: hd_toString_def)
  also have "\<dots> = Inr (h, int (length (hd_toString h)) + 2)"
    using assms(4) by (simp add: hd_parse_end int_range_def)
  finally show ?thesis by (simp add: hd_clear_def)
qed

theorem header_roundtrip_witness:
  "hd_parse (hd_clear []) (hd_toString [(''host'', ''a''), (''set-cookie'', ''x=1''), (''set-cookie'', ''y=2'')] @ CRLF @ ''b'') 0 =
     Inr ([(''host'', ''a''), (''set-cookie'', ''x=1''), (''set-cookie'', ''y=2'')], 45)"
proof -
  let ?h = "[(''host'', ''a''), (''set-cookie'', ''x=1''), (''set-cookie'', ''y=2'')]"
  have "int (length (hd_toString ?h)) + 2 = 45" by (simp add: hd_toString_def hd_line_def CRLF_def)
  then show ?thesis
    using header_roundtrip [of ?h "[]" "''b''"]
    by (simp add: header_inv_def once_keys_def entry_ok_def starts_with_def isupper_def)
qed

text \<open>
  \<open>get\<close> after adding a list of headers returns the value of the last one with that name, names
  compared without case; \<open>Set-Cookie\<close> names are never overwritten and are the exception.
\<close>

theorem header_last_value_wins:
  assumes "header_inv h" and "\<not> starts_with (toLowers k) ''set-cookie''"
  shows "hd_get (hd_add_all h kvs) k =
    (case find (\<lambda>(k', v). toLowers k' = toLowers k) (rev kvs) of Some (k', v) \<Rightarrow> Some v | None \<Rightarrow> hd_get h k)"
  using hd.get_adds [OF assms, of kvs] by (simp add: hd_add_all_def hd_add_def)

theorem header_last_value_wins_witness:
  "hd_get (hd_add_all [(''host'', ''a'')] [(''Host'', ''b''), (''HOST'', ''c''), (''x'', ''d'')]) ''hOST'' = Some ''c''"
  using header_last_value_wins [of "[(''host'', ''a'')]" "''hOST''" "[(''Host'', ''b''), (''HOST'', ''c''), (''x'', ''d'')]"]
  by (simp add: header_inv_def starts_with_def isupper_def tolower_def char_of_def bit_0)

text \<open>
  Storing a header in the send buffer appends exactly its printed form to the readable bytes.
\<close>

theorem header_store_appends:
  assumes "buf_inv b" and "buf_room b (length (hd_toString h))"
  shows "\<exists>b'. hd_store h (Some b) = Inr (Some b') \<and> buf_inv b' \<and> buf_view b' = buf_view b @ hd_toString h"
  using bq.append_chunks [of b "map hd_line h" 0] assms by (auto simp: hd_store_def hd_toString_def)

theorem header_store_appends_witness:
  "\<exists>b'. hd_store [(''host'', ''a'')] (Some (Buffer_new 4)) = Inr (Some b') \<and> buf_inv b' \<and>
     buf_view b' = buf_view (Buffer_new 4) @ hd_toString [(''host'', ''a'')]"
proof (rule header_store_appends)
  show "buf_inv (Buffer_new 4)" by (simp add: buf_inv_new max_size_def)
  show "buf_room (Buffer_new 4) (length (hd_toString [(''host'', ''a'')]))"
    by (simp add: buf_room_def max_size_def Buffer_new_def hd_toString_def hd_line_def CRLF_def)
qed

end
