(* ===== verification/HttpMultiPart.thy ===== *)
theory HttpMultiPart
  imports HttpMap
begin

text \<open>
  \<open>soc/http/src/HttpMultiPart.cc\<close>: the state machine that takes a \<open>multipart/form-data\<close>
  body apart. One step is one turn of the outer \<open>while\<close>; the inner loops are recursive
  functions. The outer loop need not make progress, so it has fuel: \<open>None\<close> is a loop that has not
  ended. The comparisons with \<open>strncmp\<close> read through the raw pointer of the body; \<open>tail\<close> is
  the memory after the body.
\<close>

section \<open>State\<close>

record part =
  pt_name :: string
  pt_file_name :: string
  pt_file_type :: string
  pt_data :: string

record multipart =
  mp_bd :: string
  mp_form :: "(string, string) httpmap"
  mp_files :: "(string, part list) httpmap"

definition mp_new :: multipart where
  "mp_new = \<lparr>mp_bd = [], mp_form = hm_new, mp_files = hm_new\<rparr>"

definition setBoundary :: "multipart \<Rightarrow> string \<Rightarrow> multipart" where
  "setBoundary m boundary = m\<lparr>mp_bd := boundary\<rparr>"

definition getValue :: "multipart \<Rightarrow> string \<Rightarrow> string option" where
  "getValue m name = hm_get (mp_form m) name"

definition getFile :: "multipart \<Rightarrow> string \<Rightarrow> nat \<Rightarrow> part option" where
  "getFile m name index =
     (if hm_contain (mp_files m) name
      then (let fs = fst (hm_index [] (mp_files m) name)
            in if length fs \<le> index then None else Some (fs ! index))
      else None)"

datatype mp_state = start_body | start_boundary | end_boundary | start_content_disposition
  | end_content_disposition | start_content_type | end_content_type | start_content_data
  | end_content_data | end_body

record mp_local =
  ml_i :: nat
  ml_state :: mp_state
  ml_name :: string
  ml_filename :: string
  ml_type :: string
  ml_data :: string
  ml_file_mark :: bool

definition mp_start :: mp_local where
  "mp_start = \<lparr>ml_i = 0, ml_state = start_body, ml_name = [], ml_filename = [], ml_type = [],
     ml_data = [], ml_file_mark = False\<rparr>"


section \<open>The inner loops\<close>

definition two_at :: "sview \<Rightarrow> nat \<Rightarrow> char \<Rightarrow> char \<Rightarrow> bool" where
  \<comment> \<open>\<open>i + 1 < len && body[i] == a && body[i + 1] == b\<close>\<close>
  "two_at body i a b \<longleftrightarrow> i + 1 < length body \<and> body ! i = a \<and> body ! (i + 1) = b"

abbreviation crlf_at :: "sview \<Rightarrow> nat \<Rightarrow> bool" where
  "crlf_at body i \<equiv> two_at body i (CHR 0x0D) (CHR 0x0A)"

text \<open>The loop of \<open>start_content_disposition\<close>: whether it reached the end of the line, \<open>i\<close>,
  the name and the file name.\<close>

function disposition_loop ::
  "sview \<Rightarrow> nat \<Rightarrow> bool \<Rightarrow> bool \<Rightarrow> string \<Rightarrow> string \<Rightarrow> bool \<times> nat \<times> string \<times> string" where
  "disposition_loop body i started is_name name filename =
     (if \<not> i < length body then (False, i, name, filename)
      else if crlf_at body i then (True, i + 2, name, filename)
      else if two_at body i (CHR ''='') (CHR 0x22) then disposition_loop body (i + 2) True is_name name filename
      else if body ! i = CHR 0x22 then disposition_loop body (i + 1) False (\<not> is_name) name filename
      else if started then
        (if is_name then disposition_loop body (i + 1) started is_name (name @ [body ! i]) filename
         else disposition_loop body (i + 1) started is_name name (filename @ [body ! i]))
      else disposition_loop body (i + 1) started is_name name filename)"
  by pat_completeness auto
termination
  by (relation "measure (\<lambda>(body, i, s, n, a, b). length body - i)") auto

function type_loop :: "sview \<Rightarrow> nat \<Rightarrow> string \<Rightarrow> bool \<times> nat \<times> string" where
  "type_loop body i ty =
     (if \<not> i < length body then (False, i, ty)
      else if crlf_at body i then (True, i + 2, ty)
      else type_loop body (i + 1) (ty @ [body ! i]))"
  by pat_completeness auto
termination
  by (relation "measure (\<lambda>(body, i, t). length body - i)") auto

definition string_resize :: "string \<Rightarrow> nat \<Rightarrow> string" where
  "string_resize s n = take n s @ replicate (n - length s) NUL"

text \<open>The loop of \<open>start_content_data\<close>: \<open>buf\<close> holds the first \<open>k\<close> bytes of
  \<open>buffer\<close>, \<open>pi\<close> is where the data began.\<close>

function data_loop :: "string \<Rightarrow> string \<Rightarrow> sview \<Rightarrow> nat \<Rightarrow> nat \<Rightarrow> string \<Rightarrow> string \<Rightarrow> (bool \<times> nat \<times> string) res" where
  "data_loop bd tail body pi i buf fdata =
     (if \<not> i < length body then Inr (False, i, fdata)
      else res_bind
        (if i + 4 < length body \<and> crlf_at body i \<and> two_at body (i + 2) (CHR ''-'') (CHR ''-'')
         then strn_equal id (drop (i + 4) (body @ tail)) (bd @ [NUL]) (length bd)
         else Inr False)
        (\<lambda>found.
          if found
          then Inr (True, i + 2, string_resize (if length buf \<noteq> 0 then fdata @ buf else fdata) (i - pi))
          else let buf' = buf @ [body ! i]
               in if 4096 \<le> length buf' then data_loop bd tail body pi (i + 1) [] (fdata @ buf')
                  else data_loop bd tail body pi (i + 1) buf' fdata))"
  by pat_completeness auto
termination
  by (relation "measure (\<lambda>(bd, tail, body, pi, i, b, f). length body - i)") auto

declare disposition_loop.simps [simp del] type_loop.simps [simp del] data_loop.simps [simp del]


section \<open>The state machine\<close>

definition end_part :: "multipart \<Rightarrow> mp_local \<Rightarrow> multipart" where
  \<comment> \<open>\<open>end_content_data\<close>: \<open>files_.get\<close> returns a copy, so the part appended to it is lost\<close>
  "end_part m l =
     (if \<not> ml_file_mark l then m\<lparr>mp_form := hm_add (mp_form m) (ml_name l) (ml_data l)\<rparr>
      else case hm_get (mp_files m) (ml_name l) of
        Some x \<Rightarrow> m
      | None \<Rightarrow> m\<lparr>mp_files := hm_add (mp_files m) (ml_name l)
          [\<lparr>pt_name = ml_name l, pt_file_name = ml_filename l, pt_file_type = ml_type l, pt_data = ml_data l\<rparr>]\<rparr>)"

definition mp_step :: "string \<Rightarrow> sview \<Rightarrow> multipart \<Rightarrow> mp_local \<Rightarrow> (multipart \<times> mp_local) res" where
  "mp_step tail body m l =
     (let i = ml_i l; len = length body; bd = mp_bd m
      in case ml_state l of
        start_body \<Rightarrow>
          (if two_at body i (CHR ''-'') (CHR ''-'') then Inr (m, l\<lparr>ml_i := i + 2, ml_state := start_boundary\<rparr>)
           else Inr (m, l))
      | start_boundary \<Rightarrow>
          res_bind (strn_equal id (drop i (body @ tail)) (bd @ [NUL]) (length bd)) (\<lambda>eq.
            if eq then
              (let i = i + length bd
               in if crlf_at body i then Inr (m, l\<lparr>ml_i := i + 2, ml_state := end_boundary\<rparr>)
                  else if two_at body i (CHR ''-'') (CHR ''-'') then Inr (m, l\<lparr>ml_i := i + 2, ml_state := end_body\<rparr>)
                  else Inr (m, l\<lparr>ml_i := i\<rparr>))
            else Inr (m, l))
      | end_boundary \<Rightarrow>
          res_bind (strn_equal tolower (drop i (body @ tail)) (''Content-Disposition'' @ [NUL]) 19) (\<lambda>eq.
            if eq then Inr (m, l\<lparr>ml_i := i + 19, ml_state := start_content_disposition\<rparr>) else Inr (m, l))
      | start_content_disposition \<Rightarrow>
          (case disposition_loop body (i + 13) False True (ml_name l) (ml_filename l) of
             (done, i, name, filename) \<Rightarrow>
               Inr (m, l\<lparr>ml_i := i, ml_name := name, ml_filename := filename,
                         ml_state := if done then end_content_disposition else ml_state l\<rparr>))
      | end_content_disposition \<Rightarrow>
          (if crlf_at body i then Inr (m, l\<lparr>ml_i := i + 2, ml_file_mark := False, ml_state := start_content_data\<rparr>)
           else res_bind (strn_equal tolower (drop i (body @ tail)) (''Content-Type'' @ [NUL]) 12) (\<lambda>eq.
             if eq then Inr (m, l\<lparr>ml_i := i + 14, ml_file_mark := True, ml_state := start_content_type\<rparr>)
             else Inr (m, l)))
      | start_content_type \<Rightarrow>
          (case type_loop body i (ml_type l) of
             (done, i, ty) \<Rightarrow>
               Inr (m, l\<lparr>ml_i := i, ml_type := ty, ml_state := if done then end_content_type else ml_state l\<rparr>))
      | end_content_type \<Rightarrow>
          (if crlf_at body i then Inr (m, l\<lparr>ml_i := i + 2, ml_state := start_content_data\<rparr>) else Inr (m, l))
      | start_content_data \<Rightarrow>
          res_map (\<lambda>(done, i, fdata).
              (m, l\<lparr>ml_i := i, ml_data := fdata, ml_state := if done then end_content_data else ml_state l\<rparr>))
            (data_loop bd tail body i i [] (ml_data l))
      | end_content_data \<Rightarrow>
          Inr (end_part m l, l\<lparr>ml_name := [], ml_filename := [], ml_type := [], ml_data := [],
             ml_file_mark := False, ml_state := start_body\<rparr>)
      | end_body \<Rightarrow> Inr (m, l\<lparr>ml_i := i + 2\<rparr>))"

fun mp_loop :: "nat \<Rightarrow> string \<Rightarrow> sview \<Rightarrow> multipart \<Rightarrow> mp_local \<Rightarrow> multipart res option" where
  "mp_loop fuel tail body m l =
     (if \<not> ml_i l < length body then Some (Inr m)
      else case fuel of
        0 \<Rightarrow> None
      | Suc fuel \<Rightarrow> (case mp_step tail body m l of Inl e \<Rightarrow> Some (Inl e) | Inr (m', l') \<Rightarrow> mp_loop fuel tail body m' l'))"

declare mp_loop.simps [simp del]

definition mp_parse :: "nat \<Rightarrow> string \<Rightarrow> multipart \<Rightarrow> sview \<Rightarrow> multipart res option" where
  "mp_parse fuel tail m body = mp_loop fuel tail body m mp_start"

section \<open>Progress\<close>

lemma disposition_loop_mono:
  "disposition_loop body i st isn n f = (d, i', n', f') \<Longrightarrow> i \<le> i'"
proof (induction body i st isn n f rule: disposition_loop.induct)
  case (1 body i st isn n f)
  from "1.prems" show ?case
    by (subst (asm) disposition_loop.simps) (auto split: if_splits dest: "1.IH" [simplified])
qed

lemma type_loop_progress:
  "type_loop body i t = (d, i', t') \<Longrightarrow> i < length body \<Longrightarrow> i < i'"
proof (induction body i t rule: type_loop.induct)
  case (1 body i t)
  show ?case
  proof (cases "crlf_at body i")
    case True
    with 1 show ?thesis by (subst (asm) type_loop.simps) auto
  next
    case False
    with 1 have "type_loop body (i + 1) (t @ [body ! i]) = (d, i', t')"
      by (subst (asm) type_loop.simps) simp
    moreover have "i' = i + 1" if "\<not> i + 1 < length body"
      using that calculation by (subst (asm) type_loop.simps) simp
    ultimately show ?thesis using 1 False by (cases "i + 1 < length body") auto
  qed
qed

lemma data_loop_progress:
  "data_loop bd tail body pi i b f = Inr (d, i', f') \<Longrightarrow> i < length body \<Longrightarrow> i < i' \<and> (d \<longrightarrow> i + 2 \<le> i')"
proof (induction bd tail body pi i b f rule: data_loop.induct)
  case (1 bd tail body pi i b f)
  have stop: "i' = j \<and> \<not> d" if "data_loop bd tail body pi j b f = Inr (d, i', f')" "\<not> j < length body" for j b f
    using that by (subst (asm) data_loop.simps) simp
  from "1.prems" show ?case
    by (subst (asm) data_loop.simps)
      (auto simp: res_simps Let_def split: if_splits; use "1.IH" stop in fastforce)
qed

definition mp_meas :: "sview \<Rightarrow> mp_local \<Rightarrow> nat" where
  "mp_meas body l = 2 * (length body - ml_i l) + (if ml_state l = end_content_data \<and> ml_i l < length body then 1 else 0)"

lemma mp_meas_less:
  "ml_i l < length body \<Longrightarrow> ml_i l < ml_i l' \<Longrightarrow> ml_state l' = end_content_data \<longrightarrow> ml_i l + 2 \<le> ml_i l' \<Longrightarrow>
     mp_meas body l' < mp_meas body l"
  by (auto simp: mp_meas_def)

lemma mp_step_progress:
  assumes step: "mp_step tail body m l = Inr (m', l')" and i: "ml_i l < length body"
  shows "(m', l') = (m, l) \<or> mp_meas body l' < mp_meas body l"
proof (cases "ml_state l")
  case start_boundary
  with step i show ?thesis
    by (cases "length (mp_bd m)") (auto simp: mp_step_def Let_def res_simps intro!: mp_meas_less split: if_splits)
next
  case start_content_disposition
  with step i show ?thesis
    by (auto simp: mp_step_def Let_def intro!: mp_meas_less split: prod.splits dest!: disposition_loop_mono)
next
  case start_content_type
  with step i show ?thesis
    by (auto simp: mp_step_def Let_def intro!: mp_meas_less split: prod.splits if_splits dest!: type_loop_progress)
next
  case start_content_data
  with step i show ?thesis
    by (auto simp: mp_step_def Let_def res_simps intro!: mp_meas_less dest!: data_loop_progress)
next
  case end_content_data
  with step i show ?thesis by (auto simp: mp_step_def mp_meas_def)
qed (use step i in \<open>auto simp: mp_step_def Let_def res_simps intro!: mp_meas_less split: if_splits\<close>)

lemma mp_loop_mono: "mp_loop f tail body m l = Some r \<Longrightarrow> f \<le> f' \<Longrightarrow> mp_loop f' tail body m l = Some r"
proof (induction f arbitrary: f' m l)
  case 0
  then show ?case by (simp add: mp_loop.simps [of 0] mp_loop.simps [of f'] split: if_splits)
next
  case (Suc f)
  then obtain g where "f' = Suc g" "f \<le> g" by (cases f') auto
  with Suc show ?case
    by (auto simp: mp_loop.simps [of "Suc f"] mp_loop.simps [of "Suc g"] split: if_splits sum.splits)
qed

lemma mp_loop_stuck:
  "mp_step tail body m l = Inr (m, l) \<Longrightarrow> ml_i l < length body \<Longrightarrow> mp_loop fuel tail body m l = None"
  by (induction fuel) (simp_all add: mp_loop.simps)

lemma mp_loop_decided:
  "mp_loop (mp_meas body l) tail body m l = None \<Longrightarrow> mp_loop fuel tail body m l = None"
proof (induction "mp_meas body l" arbitrary: m l fuel rule: less_induct)
  case less
  show ?case
  proof (cases "ml_i l < length body")
    case False
    with less.prems show ?thesis by (simp add: mp_loop.simps)
  next
    case True
    then obtain n where n: "mp_meas body l = Suc n" by (cases "mp_meas body l") (auto simp: mp_meas_def)
    with less.prems True obtain m' l' where st: "mp_step tail body m l = Inr (m', l')"
        and none: "mp_loop n tail body m' l' = None"
      by (auto simp: mp_loop.simps [of "Suc n"] split: sum.splits)
    from mp_step_progress [OF st True] consider "(m', l') = (m, l)" | "mp_meas body l' < mp_meas body l" by blast
    then show ?thesis
    proof cases
      case 1
      with st True show ?thesis by (simp add: mp_loop_stuck)
    next
      case 2
      with n none have "mp_loop (mp_meas body l') tail body m' l' = None"
        using mp_loop_mono [of "mp_meas body l'" tail body m' l' _ n] by (cases "mp_loop (mp_meas body l') tail body m' l'") auto
      with less.hyps [OF 2] st True show ?thesis by (cases fuel) (simp_all add: mp_loop.simps)
    qed
  qed
qed


text \<open>
  A body that does not begin with two dashes (a preamble, which the multipart format allows)
  keeps the parser in \<open>start_body\<close> for ever.
\<close>

theorem mp_parse_hangs_on_preamble:
  assumes "body \<noteq> []" and "\<not> starts_with body ''--''"
  shows "mp_parse fuel tail m body = None"
  unfolding mp_parse_def
proof (rule mp_loop_stuck)
  have "\<not> two_at body 0 (CHR ''-'') (CHR ''-'')"
    using assms by (cases body; cases "tl body") (auto simp: two_at_def starts_with_def)
  then show "mp_step tail body m mp_start = Inr (m, mp_start)" by (simp add: mp_step_def mp_start_def)
  show "ml_i mp_start < length body" using assms by (simp add: mp_start_def)
qed

theorem mp_parse_hangs_on_preamble_witness:
  "mp_parse 1000 [] (setBoundary mp_new ''b'') (''x'' @ CRLF @ ''--b--'' @ CRLF) = None"
  by (rule mp_parse_hangs_on_preamble) (simp_all add: starts_with_def)

section \<open>Well-formed bodies\<close>

text \<open>At the position after \<open>pre\<close> the tests of the loops look at what follows it.\<close>

lemma two_at_append: "two_at (pre @ s) (length pre) a b \<longleftrightarrow> starts_with s [a, b]"
  by (cases s; cases "tl s") (auto simp: two_at_def starts_with_def nth_append)

lemma two_at_append2: "two_at (pre @ c # d # s) (length pre + 2) a b \<longleftrightarrow> starts_with s [a, b]"
  using two_at_append [of "pre @ [c, d]" s a b] by simp

lemma disposition_skip:
  assumes "\<forall>c \<in> set w. c \<notin> {CHR 0x0D, CHR 0x22, CHR ''=''}"
  shows "disposition_loop (pre @ w @ s) (length pre) False isn n f =
     disposition_loop (pre @ w @ s) (length pre + length w) False isn n f"
  using assms
proof (induction w arbitrary: pre)
  case (Cons c w)
  have "disposition_loop (pre @ c # w @ s) (length pre) False isn n f =
      disposition_loop (pre @ c # w @ s) (length pre + 1) False isn n f"
    using Cons.prems by (subst disposition_loop.simps) (simp add: two_at_append starts_with_def)
  with Cons.IH [of "pre @ [c]"] Cons.prems show ?case by simp
qed simp

definition name_ok :: "string \<Rightarrow> bool" where
  \<comment> \<open>the quoted names that the parser reads back\<close>
  "name_ok n \<longleftrightarrow> CHR 0x0D \<notin> set n \<and> CHR 0x22 \<notin> set n \<and> (n = [] \<or> last n \<noteq> CHR ''='')"

lemma disposition_read:
  assumes "name_ok w"
  shows "disposition_loop (pre @ w @ CHR 0x22 # s) (length pre) True isn n f =
     disposition_loop (pre @ w @ CHR 0x22 # s) (length pre + length w) True isn
       (if isn then n @ w else n) (if isn then f else f @ w)"
  using assms
proof (induction w arbitrary: pre n f)
  case (Cons c w)
  have "\<not> starts_with (c # w @ CHR 0x22 # s) [CHR ''='', CHR 0x22]"
    using Cons.prems by (cases w) (auto simp: starts_with_def name_ok_def)
  then have "disposition_loop (pre @ c # w @ CHR 0x22 # s) (length pre) True isn n f =
      disposition_loop (pre @ c # w @ CHR 0x22 # s) (length pre + 1) True isn
        (if isn then n @ [c] else n) (if isn then f else f @ [c])"
    using Cons.prems
    by (subst disposition_loop.simps) (auto simp: two_at_append name_ok_def starts_with_def)
  moreover have "name_ok w" using Cons.prems by (auto simp: name_ok_def split: if_splits)
  ultimately show ?case
    using Cons.IH [of "pre @ [c]" "if isn then n @ [c] else n" "if isn then f else f @ [c]"] by simp
qed simp

text \<open>One quoted value: \<open>w="v"\<close>, where \<open>w\<close> is skipped.\<close>

lemma disposition_quoted:
  assumes w: "\<forall>c \<in> set w. c \<notin> {CHR 0x0D, CHR 0x22, CHR ''=''}" and v: "name_ok v"
  shows "disposition_loop (pre @ w @ ''='' @ CHR 0x22 # v @ CHR 0x22 # s) (length pre) False isn n f =
     disposition_loop (pre @ w @ ''='' @ CHR 0x22 # v @ CHR 0x22 # s) (length (pre @ w) + 3 + length v) False (\<not> isn)
       (if isn then n @ v else n) (if isn then f else f @ v)"
proof -
  let ?b = "pre @ w @ ''='' @ CHR 0x22 # v @ CHR 0x22 # s"
  have "disposition_loop ?b (length pre) False isn n f = disposition_loop ?b (length (pre @ w)) False isn n f"
    using disposition_skip [OF w, of pre "''='' @ CHR 0x22 # v @ CHR 0x22 # s"] by simp
  also have "\<dots> = disposition_loop ?b (length (pre @ w) + 2) True isn n f"
    using two_at_append [of "pre @ w" "''='' @ CHR 0x22 # v @ CHR 0x22 # s"]
    by (subst disposition_loop.simps) (simp add: starts_with_def)
  also have "\<dots> = disposition_loop ?b (length (pre @ w) + 2 + length v) True isn
       (if isn then n @ v else n) (if isn then f else f @ v)"
    using disposition_read [OF v, of "pre @ w @ ''='' @ [CHR 0x22]" s isn n f] by simp
  also have "\<dots> = disposition_loop ?b (length (pre @ w) + 3 + length v) False (\<not> isn)
       (if isn then n @ v else n) (if isn then f else f @ v)"
    using two_at_append [of "pre @ w @ ''='' @ CHR 0x22 # v" "CHR 0x22 # s"]
      nth_append_length [of "pre @ w @ ''='' @ CHR 0x22 # v" "CHR 0x22" s]
    by (subst disposition_loop.simps) (simp add: starts_with_def add.commute add.left_commute numeral_3_eq_3)
  finally show ?thesis .
qed

lemma disposition_end:
  "disposition_loop (pre @ CRLF @ s) (length pre) st isn n f = (True, length pre + 2, n, f)"
  using two_at_append [of pre "CRLF @ s"]
  by (subst disposition_loop.simps) (simp add: starts_with_def CRLF_def)

lemma type_read:
  assumes "CHR 0x0D \<notin> set w"
  shows "type_loop (pre @ w @ CRLF @ s) (length pre) t = (True, length pre + length w + 2, t @ w)"
  using assms
proof (induction w arbitrary: pre t)
  case Nil
  then show ?case
    using two_at_append [of pre "CRLF @ s"] by (subst type_loop.simps) (simp add: starts_with_def CRLF_def)
next
  case (Cons c w)
  then have "type_loop (pre @ c # w @ CRLF @ s) (length pre) t = type_loop (pre @ c # w @ CRLF @ s) (length pre + 1) (t @ [c])"
    using two_at_append [of pre "c # w @ CRLF @ s"] by (subst type_loop.simps) (auto simp: starts_with_def)
  with Cons.IH [of "pre @ [c]" "t @ [c]"] Cons.prems show ?case by simp
qed

definition delim :: "string \<Rightarrow> string" where
  "delim bd = CRLF @ ''--'' @ bd"

lemma length_delim: "length (delim bd) = 4 + length bd"
  by (simp add: delim_def CRLF_def)

definition data_ok :: "string \<Rightarrow> string \<Rightarrow> bool" where
  \<comment> \<open>the delimiter does not occur before the end of the data\<close>
  "data_ok bd d \<longleftrightarrow> search (delim bd) (d @ delim bd) = Some (length d)"

definition at_delim :: "string \<Rightarrow> string \<Rightarrow> sview \<Rightarrow> nat \<Rightarrow> bool res" where
  \<comment> \<open>the test of the data loop\<close>
  "at_delim bd tail body i =
     (if i + 4 < length body \<and> crlf_at body i \<and> two_at body (i + 2) (CHR ''-'') (CHR ''-'')
      then strn_equal id (drop (i + 4) (body @ tail)) (bd @ [NUL]) (length bd) else Inr False)"

lemma data_loop_unfold:
  "data_loop bd tail body pi i buf fdata =
     (if \<not> i < length body then Inr (False, i, fdata)
      else res_bind (at_delim bd tail body i) (\<lambda>found.
          if found
          then Inr (True, i + 2, string_resize (if length buf \<noteq> 0 then fdata @ buf else fdata) (i - pi))
          else let buf' = buf @ [body ! i]
               in if 4096 \<le> length buf' then data_loop bd tail body pi (i + 1) [] (fdata @ buf')
                  else data_loop bd tail body pi (i + 1) buf' fdata))"
  unfolding at_delim_def by (rule data_loop.simps)

lemma starts_with_Cons: "starts_with (x # s) (y # p) \<longleftrightarrow> x = y \<and> starts_with s p"
  by (auto simp: starts_with_def)

lemma starts_with_app: "starts_with s (p @ q) \<longleftrightarrow> starts_with s p \<and> starts_with (drop (length p) s) q"
proof (induction p arbitrary: s)
  case (Cons x p)
  then show ?case by (cases s) (auto simp: starts_with_def)
qed (simp add: starts_with_def)

lemma starts_with_extend: "length p \<le> length u \<Longrightarrow> starts_with (u @ s) p \<longleftrightarrow> starts_with u p"
  by (simp add: starts_with_def)

lemma at_delim_iff:
  assumes "bd \<noteq> []" and "NUL \<notin> set bd" and "4 + length bd \<le> length s"
  shows "at_delim bd tail (pre @ s) (length pre) = Inr (starts_with s (delim bd))"
proof -
  have a: "starts_with s (delim bd) \<longleftrightarrow> starts_with s CRLF \<and> starts_with (drop 2 s) ''--'' \<and> starts_with (drop 4 s) bd"
    using starts_with_app [of s CRLF "''--'' @ bd"] starts_with_app [of "drop 2 s" "''--''" bd]
    by (simp add: delim_def CRLF_def numeral_eq_Suc)
  have b: "two_at (pre @ s) (length pre + 2) (CHR ''-'') (CHR ''-'') \<longleftrightarrow> starts_with (drop 2 s) ''--''"
    using two_at_append [of "pre @ take 2 s" "drop 2 s" "CHR ''-''" "CHR ''-''"] assms(3) by simp
  have c: "strn_equal id (drop (length pre + 4) ((pre @ s) @ tail)) (bd @ [NUL]) (length bd) =
      Inr (starts_with (drop 4 s @ tail) bd)"
    using assms by (subst strn_equal_iff_prefix) auto
  have d: "starts_with (drop 4 s @ tail) bd \<longleftrightarrow> starts_with (drop 4 s) bd"
    using assms(3) by (simp add: starts_with_def)
  have "4 < length s" using assms(1,3) by (cases bd) auto
  then show ?thesis
    unfolding at_delim_def c d b a by (auto simp: two_at_append CRLF_def)
qed

lemma data_read:
  assumes bd: "bd \<noteq> []" "NUL \<notin> set bd" and d: "data_ok bd d"
    and acc: "length (fdata @ buf) = length pre - pi" and pi: "pi \<le> length pre"
  shows "data_loop bd tail (pre @ d @ delim bd @ s) pi (length pre) buf fdata =
     Inr (True, length pre + length d + 2, fdata @ buf @ d)"
  using d acc pi
proof (induction d arbitrary: pre buf fdata)
  case Nil
  have "at_delim bd tail (pre @ delim bd @ s) (length pre) = Inr True"
    using at_delim_iff [OF bd, of "delim bd @ s"] by (simp add: length_delim)
  with Nil show ?case
    by (subst data_loop_unfold) (auto simp: string_resize_def delim_def CRLF_def)
next
  case (Cons c d)
  let ?b = "pre @ c # d @ delim bd @ s"
  have "\<not> starts_with (c # d @ delim bd) (delim bd)" and d: "data_ok bd d"
    using Cons.prems(1) by (auto simp: data_ok_def split: if_splits)
  then have "\<not> starts_with (c # d @ delim bd @ s) (delim bd)"
    using starts_with_extend [of "delim bd" "c # d @ delim bd" s] by simp
  then have "at_delim bd tail ?b (length pre) = Inr False"
    using at_delim_iff [OF bd, of "c # d @ delim bd @ s"] by (simp add: length_delim)
  then have "data_loop bd tail ?b pi (length pre) buf fdata =
      (if 4096 \<le> length (buf @ [c]) then data_loop bd tail ?b pi (length pre + 1) [] (fdata @ buf @ [c])
       else data_loop bd tail ?b pi (length pre + 1) (buf @ [c]) fdata)"
    by (subst data_loop_unfold) (simp add: Let_def)
  with Cons.IH [OF d, of "fdata @ buf @ [c]" "[]" "pre @ [c]"] Cons.IH [OF d, of fdata "buf @ [c]" "pre @ [c]"] Cons.prems
  show ?case by (auto simp: Suc_diff_le)
qed

text \<open>The parts of a form and the text a browser sends for them.\<close>

datatype form_part = Field string string | File string string string string

fun part_head :: "form_part \<Rightarrow> string" where
  "part_head (Field n d) = ''name'' @ ''='' @ CHR 0x22 # n @ CHR 0x22 # CRLF"
| "part_head (File n f t d) = ''name'' @ ''='' @ CHR 0x22 # n @ CHR 0x22 # ''; filename'' @ ''='' @ CHR 0x22 # f @ CHR 0x22 # CRLF @
     ''Content-Type: '' @ t @ CRLF"

fun part_data :: "form_part \<Rightarrow> string" where
  "part_data (Field n d) = d"
| "part_data (File n f t d) = d"

definition part_text :: "string \<Rightarrow> form_part \<Rightarrow> string" where
  "part_text bd x = ''--'' @ bd @ CRLF @ ''Content-Disposition'' @ '': form-data; '' @ part_head x @ CRLF @ part_data x @ CRLF"

definition body_text :: "string \<Rightarrow> form_part list \<Rightarrow> string" where
  "body_text bd xs = concat (map (part_text bd) xs) @ ''--'' @ bd @ ''--'' @ CRLF"

fun part_ok :: "string \<Rightarrow> form_part \<Rightarrow> bool" where
  "part_ok bd (Field n d) \<longleftrightarrow> name_ok n \<and> data_ok bd d"
| "part_ok bd (File n f t d) \<longleftrightarrow> name_ok n \<and> name_ok f \<and> CHR 0x0D \<notin> set t \<and> data_ok bd d"

definition bd_ok :: "string \<Rightarrow> bool" where
  "bd_ok bd \<longleftrightarrow> bd \<noteq> [] \<and> NUL \<notin> set bd"

text \<open>What a part adds to the form. A second file under the same name is dropped.\<close>

fun add_part :: "form_part \<Rightarrow> multipart \<Rightarrow> multipart" where
  "add_part (Field n d) m = m\<lparr>mp_form := hm_add (mp_form m) n d\<rparr>"
| "add_part (File n f t d) m =
     (if hm_contain (mp_files m) n then m
      else m\<lparr>mp_files := hm_add (mp_files m) n [\<lparr>pt_name = n, pt_file_name = f, pt_file_type = t, pt_data = d\<rparr>]\<rparr>)"

lemma mp_loop_step:
  "ml_i l < length body \<Longrightarrow> mp_step tail body m l = Inr (m', l') \<Longrightarrow>
     mp_loop (Suc fuel) tail body m l = mp_loop fuel tail body m' l'"
  by (simp add: mp_loop.simps [of "Suc fuel"])

text \<open>The steps, each at the position after \<open>pre\<close>.\<close>

lemma step_start_body:
  assumes "body = pre @ ''--'' @ s" and "ml_i l = length pre" and "ml_state l = start_body"
  shows "mp_loop (Suc fuel) tail body m l = mp_loop fuel tail body m (l\<lparr>ml_i := length pre + 2, ml_state := start_boundary\<rparr>)"
  using assms two_at_append [of pre "''--'' @ s"]
  by (intro mp_loop_step) (auto simp: mp_step_def Let_def starts_with_def)

lemma drop_app: "drop (length pre) ((pre @ s) @ tail) = s @ tail"
  by simp

lemma step_boundary:
  assumes "body = pre @ mp_bd m @ x # y # s" and "ml_i l = length pre" and "ml_state l = start_boundary" and "bd_ok (mp_bd m)"
    and "(x = CHR 0x0D \<and> y = CHR 0x0A \<and> st = end_boundary) \<or> (x = CHR ''-'' \<and> y = CHR ''-'' \<and> st = end_body)"
  shows "mp_loop (Suc fuel) tail body m l =
     mp_loop fuel tail body m (l\<lparr>ml_i := length pre + length (mp_bd m) + 2, ml_state := st\<rparr>)"
proof (rule mp_loop_step)
  have "strn_equal id (drop (length pre) (body @ tail)) (mp_bd m @ [NUL]) (length (mp_bd m)) = Inr True"
    using assms(1,4) by (intro strn_equal_prefix) (auto simp: bd_ok_def)
  moreover have "two_at body (length pre + length (mp_bd m)) a b \<longleftrightarrow> a = x \<and> b = y" for a b
    using two_at_append [of "pre @ mp_bd m" "x # y # s" a b] assms(1) by (auto simp: starts_with_def)
  ultimately show "mp_step tail body m l = Inr (m, l\<lparr>ml_i := length pre + length (mp_bd m) + 2, ml_state := st\<rparr>)"
    using assms(2,3,5) by (auto simp: mp_step_def Let_def)
qed (simp add: assms)

lemma step_end_boundary:
  assumes "body = pre @ ''Content-Disposition'' @ s" and "ml_i l = length pre" and "ml_state l = end_boundary"
  shows "mp_loop (Suc fuel) tail body m l =
     mp_loop fuel tail body m (l\<lparr>ml_i := length (pre @ ''Content-Disposition''), ml_state := start_content_disposition\<rparr>)"
proof (rule mp_loop_step)
  have "strn_equal tolower (drop (length pre) (body @ tail)) (''Content-Disposition'' @ [NUL]) (length ''Content-Disposition'') = Inr True"
    using assms(1) by (intro strn_equal_prefix) (auto simp: NUL_def)
  moreover have "length ''Content-Disposition'' = 19" by simp
  ultimately have "strn_equal tolower (drop (length pre) (body @ tail)) (''Content-Disposition'' @ [NUL]) 19 = Inr True"
    by (simp only:)
  moreover have "length (pre @ ''Content-Disposition'') = length pre + 19" by simp
  ultimately show "mp_step tail body m l = Inr (m, l\<lparr>ml_i := length (pre @ ''Content-Disposition''), ml_state := start_content_disposition\<rparr>)"
    by (simp only: mp_step_def Let_def assms(2,3) mp_state.case res_bind_Inr if_True)
qed (simp add: assms)

lemma step_disposition:
  assumes "ml_i l < length body" and "ml_state l = start_content_disposition"
    and "disposition_loop body (ml_i l + 13) False True (ml_name l) (ml_filename l) = (True, i, n, f)"
  shows "mp_loop (Suc fuel) tail body m l =
     mp_loop fuel tail body m (l\<lparr>ml_i := i, ml_name := n, ml_filename := f, ml_state := end_content_disposition\<rparr>)"
  using assms by (intro mp_loop_step) (simp_all add: mp_step_def)

lemma step_end_disposition:
  assumes "body = pre @ CRLF @ s" and "ml_i l = length pre" and "ml_state l = end_content_disposition"
  shows "mp_loop (Suc fuel) tail body m l =
     mp_loop fuel tail body m (l\<lparr>ml_i := length pre + 2, ml_file_mark := False, ml_state := start_content_data\<rparr>)"
  using assms two_at_append [of pre "CRLF @ s"]
  by (intro mp_loop_step) (auto simp: mp_step_def Let_def starts_with_def CRLF_def)

lemma step_end_disposition_type:
  assumes "body = pre @ ''Content-Type: '' @ s" and "ml_i l = length pre" and "ml_state l = end_content_disposition"
  shows "mp_loop (Suc fuel) tail body m l =
     mp_loop fuel tail body m (l\<lparr>ml_i := length (pre @ ''Content-Type: ''), ml_file_mark := True, ml_state := start_content_type\<rparr>)"
proof (rule mp_loop_step)
  have "strn_equal tolower (drop (length pre) (body @ tail)) (''Content-Type'' @ [NUL]) (length ''Content-Type'') = Inr True"
    using assms(1) by (intro strn_equal_prefix) (auto simp: NUL_def)
  moreover have "length ''Content-Type'' = 12" by simp
  ultimately have "strn_equal tolower (drop (length pre) (body @ tail)) (''Content-Type'' @ [NUL]) 12 = Inr True"
    by (simp only:)
  moreover have "\<not> crlf_at body (length pre)"
    using two_at_append [of pre "''Content-Type: '' @ s"] assms(1) by (simp add: starts_with_def)
  moreover have "length (pre @ ''Content-Type: '') = length pre + 14" by simp
  ultimately show "mp_step tail body m l = Inr (m, l\<lparr>ml_i := length (pre @ ''Content-Type: ''), ml_file_mark := True, ml_state := start_content_type\<rparr>)"
    by (simp only: mp_step_def Let_def assms(2,3) mp_state.case res_bind_Inr if_True if_False)
qed (simp add: assms)

lemma step_type:
  assumes "body = pre @ t @ CRLF @ s" and "ml_i l = length pre" and "ml_state l = start_content_type" and "CHR 0x0D \<notin> set t"
  shows "mp_loop (Suc fuel) tail body m l =
     mp_loop fuel tail body m (l\<lparr>ml_i := length (pre @ t @ CRLF), ml_type := ml_type l @ t, ml_state := end_content_type\<rparr>)"
  using assms type_read [of t pre s "ml_type l"] by (intro mp_loop_step) (simp_all add: mp_step_def CRLF_def)

lemma step_end_type:
  assumes "body = pre @ CRLF @ s" and "ml_i l = length pre" and "ml_state l = end_content_type"
  shows "mp_loop (Suc fuel) tail body m l =
     mp_loop fuel tail body m (l\<lparr>ml_i := length pre + 2, ml_state := start_content_data\<rparr>)"
  using assms two_at_append [of pre "CRLF @ s"]
  by (intro mp_loop_step) (auto simp: mp_step_def Let_def starts_with_def CRLF_def)

lemma step_data:
  assumes "body = pre @ d @ delim (mp_bd m) @ s" and "ml_i l = length pre" and "ml_state l = start_content_data"
    and "ml_data l = []" and "bd_ok (mp_bd m)" and "data_ok (mp_bd m) d"
  shows "mp_loop (Suc fuel) tail body m l =
     mp_loop fuel tail body m (l\<lparr>ml_i := length pre + length d + 2, ml_data := d, ml_state := end_content_data\<rparr>)"
  using assms data_read [of "mp_bd m" d "[]" "[]" pre "length pre" tail s]
  by (intro mp_loop_step) (simp_all add: mp_step_def bd_ok_def length_delim)

lemma step_end_data:
  assumes "ml_i l < length body" and "ml_state l = end_content_data"
  shows "mp_loop (Suc fuel) tail body m l =
     mp_loop fuel tail body (end_part m l) (mp_start\<lparr>ml_i := ml_i l\<rparr>)"
  using assms by (intro mp_loop_step) (simp_all add: mp_step_def mp_start_def)

text \<open>One part: the parser adds it and is back in \<open>start_body\<close> at the next boundary.\<close>

fun part_steps :: "form_part \<Rightarrow> nat" where
  "part_steps (Field n d) = 7"
| "part_steps (File n f t d) = 9"

lemma mp_loop_head:
  assumes body: "body = pre @ ''--'' @ mp_bd m @ CRLF @ ''Content-Disposition'' @ s"
    and bd: "bd_ok (mp_bd m)"
  shows "mp_loop (Suc (Suc (Suc fuel))) tail body m (mp_start\<lparr>ml_i := length pre\<rparr>) =
     mp_loop fuel tail body m (mp_start\<lparr>ml_i := length (pre @ ''--'' @ mp_bd m @ CRLF @ ''Content-Disposition''), ml_state := start_content_disposition\<rparr>)"
proof -
  let ?p1 = "pre @ ''--''" and ?p2 = "pre @ ''--'' @ mp_bd m @ CRLF"
  let ?l1 = "mp_start\<lparr>ml_i := length ?p1, ml_state := start_boundary\<rparr>"
  let ?l2 = "mp_start\<lparr>ml_i := length ?p2, ml_state := end_boundary\<rparr>"
  have b: "body = ?p1 @ mp_bd m @ CHR 0x0D # CHR 0x0A # ''Content-Disposition'' @ s" "body = ?p2 @ ''Content-Disposition'' @ s"
    by (simp_all add: body CRLF_def)
  have "mp_loop (Suc (Suc (Suc fuel))) tail body m (mp_start\<lparr>ml_i := length pre\<rparr>) = mp_loop (Suc (Suc fuel)) tail body m ?l1"
    by (subst step_start_body [OF body]) (simp_all add: mp_start_def)
  also have "\<dots> = mp_loop (Suc fuel) tail body m ?l2"
    by (subst step_boundary [OF b(1) _ _ bd, of _ end_boundary]) (simp_all add: mp_start_def CRLF_def)
  also have "\<dots> = mp_loop fuel tail body m (mp_start\<lparr>ml_i := length (?p2 @ ''Content-Disposition''), ml_state := start_content_disposition\<rparr>)"
    by (subst step_end_boundary [OF b(2)]) (simp_all add: mp_start_def)
  finally show ?thesis by (simp only: append_assoc)
qed

lemma mp_loop_data:
  assumes body: "body = pre @ d @ delim (mp_bd m) @ s" and l: "ml_i l = length pre" "ml_state l = start_content_data" "ml_data l = []"
    and ok: "bd_ok (mp_bd m)" "data_ok (mp_bd m) d"
  shows "mp_loop (Suc (Suc fuel)) tail body m l =
     mp_loop fuel tail body (end_part m (l\<lparr>ml_data := d\<rparr>)) (mp_start\<lparr>ml_i := length pre + length d + 2\<rparr>)"
proof -
  have "end_part m (l\<lparr>ml_i := i, ml_data := d, ml_state := st\<rparr>) = end_part m (l\<lparr>ml_data := d\<rparr>)" for i st
    by (simp add: end_part_def split: option.splits)
  then show ?thesis
    by (subst step_data [OF body l ok]) (subst step_end_data, simp_all add: body length_delim)
qed

lemma numeral_7_9: "(7 :: nat) = Suc (Suc (Suc (Suc (Suc (Suc (Suc 0))))))"
  "(9 :: nat) = Suc (Suc (Suc (Suc (Suc (Suc (Suc (Suc (Suc 0))))))))"
  by simp_all

lemma skip_name:
  "\<forall>c \<in> set ''name''. c \<notin> {CHR 0x0D, CHR 0x22, CHR ''=''}"
  "\<forall>c \<in> set ''; filename''. c \<notin> {CHR 0x0D, CHR 0x22, CHR ''=''}"
  by simp_all

lemma mp_loop_field:
  assumes body: "body = pre @ part_text (mp_bd m) (Field n d) @ ''--'' @ mp_bd m @ s"
    and ok: "bd_ok (mp_bd m)" "part_ok (mp_bd m) (Field n d)"
  shows "mp_loop (7 + fuel) tail body m (mp_start\<lparr>ml_i := length pre\<rparr>) =
     mp_loop fuel tail body (add_part (Field n d) m) (mp_start\<lparr>ml_i := length (pre @ part_text (mp_bd m) (Field n d))\<rparr>)"
proof -
  let ?q = "CHR 0x22"
  let ?p2 = "pre @ ''--'' @ mp_bd m @ CRLF @ ''Content-Disposition''" and ?s2 = "CRLF @ d @ delim (mp_bd m) @ s"
  let ?p3 = "?p2 @ '': form-data; ''" and ?p4 = "?p2 @ '': form-data; name='' @ ?q # n @ [?q]"
  let ?p5 = "?p4 @ CRLF" and ?p6 = "?p4 @ CRLF @ CRLF"
  let ?l3 = "mp_start\<lparr>ml_i := length ?p2, ml_state := start_content_disposition\<rparr>"
  let ?l5 = "mp_start\<lparr>ml_i := length ?p5, ml_name := n, ml_state := end_content_disposition\<rparr>"
  let ?l6 = "mp_start\<lparr>ml_i := length ?p6, ml_name := n, ml_state := start_content_data\<rparr>"
  have b: "body = pre @ ''--'' @ mp_bd m @ CRLF @ ''Content-Disposition'' @ '': form-data; name='' @ ?q # n @ ?q # CRLF @ ?s2"
      "body = ?p3 @ ''name'' @ ''='' @ ?q # n @ ?q # CRLF @ ?s2"
      "body = ?p4 @ CRLF @ ?s2" "body = ?p5 @ ?s2" "body = ?p6 @ d @ delim (mp_bd m) @ s"
    by (simp_all add: body part_text_def delim_def)
  have e: "length ?p4 = length (?p3 @ ''name'') + 3 + length n" and n: "name_ok n" using ok(2) by simp_all
  have "disposition_loop body (length ?p3) False True [] [] = disposition_loop body (length ?p4) False False n []"
    using disposition_quoted [OF skip_name(1) n, of ?p3 "CRLF @ ?s2" True "[]" "[]"]
    unfolding b(2) [symmetric] e by (simp only: if_True not_True_eq_False append_Nil)
  moreover have "disposition_loop body (length ?p4) False False n [] = (True, length ?p5, n, [])"
    using disposition_end [of ?p4 ?s2 False False n "[]"] unfolding b(3) [symmetric] by (simp add: CRLF_def)
  moreover have e3: "length ?p2 + 13 = length ?p3" by simp
  ultimately have disp: "disposition_loop body (length ?p2 + 13) False True [] [] = (True, length ?p5, n, [])"
    unfolding e3 by (simp only:)
  have "mp_loop (7 + fuel) tail body m (mp_start\<lparr>ml_i := length pre\<rparr>) =
      mp_loop (Suc (Suc (Suc (Suc fuel)))) tail body m ?l3"
    using mp_loop_head [OF b(1) ok(1), of "Suc (Suc (Suc (Suc fuel)))"] by (simp only: add_Suc numeral_7_9 append_assoc add_0)
  also have "\<dots> = mp_loop (Suc (Suc (Suc fuel))) tail body m ?l5"
    using disp by (subst step_disposition [where i = "length ?p5" and n = n and f = "[]"]) (simp_all add: mp_start_def b(2))
  also have "\<dots> = mp_loop (Suc (Suc fuel)) tail body m ?l6"
    by (subst step_end_disposition [OF b(4)]) (simp_all add: mp_start_def CRLF_def)
  also have "\<dots> = mp_loop fuel tail body (add_part (Field n d) m) (mp_start\<lparr>ml_i := length ?p6 + length d + 2\<rparr>)"
    using ok by (subst mp_loop_data [OF b(5)]) (simp_all add: mp_start_def end_part_def)
  finally show ?thesis by (simp add: part_text_def CRLF_def add.assoc)
qed

lemma mp_loop_file:
  assumes body: "body = pre @ part_text (mp_bd m) (File n f t d) @ ''--'' @ mp_bd m @ s"
    and ok: "bd_ok (mp_bd m)" "part_ok (mp_bd m) (File n f t d)"
  shows "mp_loop (9 + fuel) tail body m (mp_start\<lparr>ml_i := length pre\<rparr>) =
     mp_loop fuel tail body (add_part (File n f t d) m) (mp_start\<lparr>ml_i := length (pre @ part_text (mp_bd m) (File n f t d))\<rparr>)"
proof -
  let ?q = "CHR 0x22"
  let ?p2 = "pre @ ''--'' @ mp_bd m @ CRLF @ ''Content-Disposition''"
  let ?p3 = "?p2 @ '': form-data; ''" and ?p4 = "?p2 @ '': form-data; name='' @ ?q # n @ [?q]"
  let ?p5 = "?p4 @ ''; filename='' @ ?q # f @ [?q]"
  let ?p6 = "?p5 @ CRLF" let ?p7 = "?p6 @ ''Content-Type: ''" let ?p8 = "?p7 @ t @ CRLF" let ?p9 = "?p8 @ CRLF"
  let ?s8 = "CRLF @ d @ delim (mp_bd m) @ s"
  let ?s6 = "''Content-Type: '' @ t @ CRLF @ ?s8"
  let ?s4 = "''; filename'' @ ''='' @ ?q # f @ ?q # CRLF @ ?s6"
  let ?l3 = "mp_start\<lparr>ml_i := length ?p2, ml_state := start_content_disposition\<rparr>"
  let ?l6 = "mp_start\<lparr>ml_i := length ?p6, ml_name := n, ml_filename := f, ml_state := end_content_disposition\<rparr>"
  let ?l7 = "mp_start\<lparr>ml_i := length ?p7, ml_name := n, ml_filename := f, ml_file_mark := True, ml_state := start_content_type\<rparr>"
  let ?l8 = "mp_start\<lparr>ml_i := length ?p8, ml_name := n, ml_filename := f, ml_file_mark := True, ml_type := t, ml_state := end_content_type\<rparr>"
  let ?l9 = "mp_start\<lparr>ml_i := length ?p9, ml_name := n, ml_filename := f, ml_file_mark := True, ml_type := t, ml_state := start_content_data\<rparr>"
  have b: "body = pre @ ''--'' @ mp_bd m @ CRLF @ ''Content-Disposition'' @ '': form-data; name='' @ ?q # n @ ?q # ?s4"
      "body = ?p3 @ ''name'' @ ''='' @ ?q # n @ ?q # ?s4"
      "body = ?p4 @ ?s4" "body = ?p5 @ CRLF @ ?s6" "body = ?p6 @ ?s6" "body = ?p7 @ t @ CRLF @ ?s8"
      "body = ?p8 @ ?s8" "body = ?p9 @ d @ delim (mp_bd m) @ s"
    by (simp_all add: body part_text_def delim_def)
  have e: "length ?p4 = length (?p3 @ ''name'') + 3 + length n" "length ?p5 = length (?p4 @ ''; filename'') + 3 + length f"
      "length ?p2 + 13 = length ?p3" "length ?p5 + 2 = length ?p6"
    by (simp_all add: CRLF_def)
  have nm: "name_ok n" "name_ok f" "CHR 0x0D \<notin> set t" "data_ok (mp_bd m) d" using ok(2) by simp_all
  have "disposition_loop body (length ?p3) False True [] [] = disposition_loop body (length ?p4) False False n []"
    using disposition_quoted [OF skip_name(1) nm(1), of ?p3 ?s4 True "[]" "[]"]
    unfolding b(2) [symmetric] e(1) by (simp only: if_True not_True_eq_False append_Nil)
  moreover have "disposition_loop body (length ?p4) False False n [] = disposition_loop body (length ?p5) False True n f"
    using disposition_quoted [OF skip_name(2) nm(2), of ?p4 "CRLF @ ?s6" False n "[]"]
    unfolding b(3) [symmetric] e(2) by (simp only: if_False not_False_eq_True append_Nil)
  moreover have "disposition_loop body (length ?p5) False True n f = (True, length ?p6, n, f)"
    using disposition_end [of ?p5 ?s6 False True n f] unfolding b(4) [symmetric] e(4) .
  ultimately have disp: "disposition_loop body (length ?p2 + 13) False True [] [] = (True, length ?p6, n, f)"
    unfolding e(3) by (simp only:)
  have "mp_loop (9 + fuel) tail body m (mp_start\<lparr>ml_i := length pre\<rparr>) =
      mp_loop (Suc (Suc (Suc (Suc (Suc (Suc fuel)))))) tail body m ?l3"
    using mp_loop_head [OF b(1) ok(1), of "Suc (Suc (Suc (Suc (Suc (Suc fuel)))))"] by (simp only: add_Suc numeral_7_9 append_assoc add_0)
  also have "\<dots> = mp_loop (Suc (Suc (Suc (Suc (Suc fuel))))) tail body m ?l6"
    using disp by (subst step_disposition [where i = "length ?p6" and n = n and f = f]) (simp_all add: mp_start_def b(2))
  also have "\<dots> = mp_loop (Suc (Suc (Suc (Suc fuel)))) tail body m ?l7"
    by (subst step_end_disposition_type [OF b(5)]) (simp_all add: mp_start_def)
  also have "\<dots> = mp_loop (Suc (Suc (Suc fuel))) tail body m ?l8"
    using nm(3) by (subst step_type [OF b(6)]) (simp_all add: mp_start_def CRLF_def add.commute)
  also have "\<dots> = mp_loop (Suc (Suc fuel)) tail body m ?l9"
    by (subst step_end_type [OF b(7)]) (simp_all add: mp_start_def CRLF_def)
  also have "\<dots> = mp_loop fuel tail body (add_part (File n f t d) m) (mp_start\<lparr>ml_i := length ?p9 + length d + 2\<rparr>)"
    using ok(1) nm(4) by (subst mp_loop_data [OF b(8)])
      (simp_all add: mp_start_def end_part_def hm_contain_def hm_get_def split: option.splits)
  finally show ?thesis by (simp add: part_text_def CRLF_def add.assoc)
qed

lemma mp_loop_part:
  assumes "body = pre @ part_text (mp_bd m) x @ ''--'' @ mp_bd m @ s" and "bd_ok (mp_bd m)" "part_ok (mp_bd m) x"
  shows "mp_loop (part_steps x + fuel) tail body m (mp_start\<lparr>ml_i := length pre\<rparr>) =
     mp_loop fuel tail body (add_part x m) (mp_start\<lparr>ml_i := length (pre @ part_text (mp_bd m) x)\<rparr>)"
  using mp_loop_field mp_loop_file assms by (cases x) (simp_all only: part_steps.simps)

lemma mp_bd_add_part [simp]: "mp_bd (add_part x m) = mp_bd m"
  by (cases x) auto

lemma mp_loop_last:
  assumes body: "body = pre @ ''--'' @ mp_bd m @ ''--'' @ CRLF" and "bd_ok (mp_bd m)"
  shows "mp_loop 3 tail body m (mp_start\<lparr>ml_i := length pre\<rparr>) = Some (Inr m)"
proof -
  let ?p1 = "pre @ ''--''"
  have b: "body = ?p1 @ mp_bd m @ CHR ''-'' # CHR ''-'' # CRLF" by (simp add: body)
  have "mp_loop (Suc (Suc (Suc 0))) tail body m (mp_start\<lparr>ml_i := length pre\<rparr>) =
      mp_loop (Suc (Suc 0)) tail body m (mp_start\<lparr>ml_i := length ?p1, ml_state := start_boundary\<rparr>)"
    by (subst step_start_body [OF body]) (simp_all add: mp_start_def)
  also have "\<dots> = mp_loop (Suc 0) tail body m (mp_start\<lparr>ml_i := length ?p1 + length (mp_bd m) + 2, ml_state := end_body\<rparr>)"
    by (subst step_boundary [OF b _ _ assms(2), of _ end_body]) (simp_all add: mp_start_def)
  also have "\<dots> = Some (Inr m)"
    by (simp add: mp_loop.simps mp_step_def mp_start_def body CRLF_def)
  finally show ?thesis by (simp add: numeral_3_eq_3)
qed

lemma mp_loop_parts:
  assumes "body = pre @ body_text (mp_bd m) xs" and "bd_ok (mp_bd m)" and "\<forall>x \<in> set xs. part_ok (mp_bd m) x"
  shows "mp_loop (sum_list (map part_steps xs) + 3) tail body m (mp_start\<lparr>ml_i := length pre\<rparr>) =
     Some (Inr (fold add_part xs m))"
  using assms
proof (induction xs arbitrary: pre m)
  case Nil
  then show ?case by (simp add: body_text_def mp_loop_last)
next
  case (Cons x xs)
  have "\<exists>s. body_text (mp_bd m) xs = ''--'' @ mp_bd m @ s"
    by (cases xs) (auto simp: body_text_def part_text_def)
  then obtain s where s: "body_text (mp_bd m) xs = ''--'' @ mp_bd m @ s" by blast
  have "body = pre @ part_text (mp_bd m) x @ ''--'' @ mp_bd m @ s"
    using Cons.prems(1) s by (simp add: body_text_def)
  then have "mp_loop (part_steps x + (sum_list (map part_steps xs) + 3)) tail body m (mp_start\<lparr>ml_i := length pre\<rparr>) =
      mp_loop (sum_list (map part_steps xs) + 3) tail body (add_part x m) (mp_start\<lparr>ml_i := length (pre @ part_text (mp_bd m) x)\<rparr>)"
    using Cons.prems by (intro mp_loop_part) auto
  also have "\<dots> = Some (Inr (fold add_part xs (add_part x m)))"
    using Cons.prems by (intro Cons.IH) (auto simp: body_text_def)
  finally show ?case by (simp add: add.assoc)
qed

text \<open>
  C14. Every well-formed multipart body is parsed: with nine turns of the loop per part and three for
  the end, the parser returns the form with exactly the fields and the files of the body, whatever
  memory follows the body. Of several files with one name only the first is kept.
\<close>

theorem mp_parse_well_formed:
  assumes "bd_ok bd" and "mp_bd m = bd" and "\<forall>x \<in> set xs. part_ok bd x" and "9 * length xs + 3 \<le> fuel"
  shows "mp_parse fuel tail m (body_text bd xs) = Some (Inr (fold add_part xs m))"
proof -
  have st: "part_steps x \<le> 9" for x by (cases x) auto
  have a: "sum_list (map part_steps xs) \<le> 9 * length xs"
  proof (induction xs)
    case (Cons x xs)
    with st [of x] show ?case by simp
  qed simp
  have c: "mp_start\<lparr>ml_i := length ([] :: string)\<rparr> = mp_start" by (simp add: mp_start_def)
  have "mp_loop (sum_list (map part_steps xs) + 3) tail (body_text bd xs) m (mp_start\<lparr>ml_i := length ([] :: string)\<rparr>) =
      Some (Inr (fold add_part xs m))"
    by (rule mp_loop_parts) (simp_all add: assms(1-3))
  then have b: "mp_loop (sum_list (map part_steps xs) + 3) tail (body_text bd xs) m mp_start = Some (Inr (fold add_part xs m))"
    by (simp only: c)
  show ?thesis unfolding mp_parse_def
    by (rule mp_loop_mono [OF b]) (use a assms(4) in linarith)
qed

theorem mp_parse_well_formed_witness:
  "mp_parse 30 [] (setBoundary mp_new ''b'')
      (body_text ''b'' [Field ''k'' ''v'', File ''f'' ''a.txt'' ''text/plain'' ''x'', File ''f'' ''b.txt'' ''text/plain'' ''y'']) =
     Some (Inr \<lparr>mp_bd = ''b'', mp_form = [''k'' \<mapsto> ''v''],
       mp_files = [''f'' \<mapsto> [\<lparr>pt_name = ''f'', pt_file_name = ''a.txt'', pt_file_type = ''text/plain'', pt_data = ''x''\<rparr>]]\<rparr>)"
proof -
  let ?xs = "[Field ''k'' ''v'', File ''f'' ''a.txt'' ''text/plain'' ''x'', File ''f'' ''b.txt'' ''text/plain'' ''y'']"
  have "\<forall>x \<in> set ?xs. part_ok ''b'' x"
    by (simp add: name_ok_def data_ok_def delim_def CRLF_def starts_with_def)
  then have "mp_parse 30 [] (setBoundary mp_new ''b'') (body_text ''b'' ?xs) =
      Some (Inr (fold add_part ?xs (setBoundary mp_new ''b'')))"
    by (intro mp_parse_well_formed) (simp_all add: bd_ok_def NUL_def setBoundary_def)
  then show ?thesis
    by (simp add: setBoundary_def mp_new_def hm_new_def hm_add_def hm_contain_def)
qed

end
