(* ===== verification/Base64.thy ===== *)
theory Base64
  imports Cxx_Prelude
begin

text \<open>
  \<open>soc/modules/base64/include/Base64.h\<close>: the encoder and the decoder that HTTP Basic
  authentication uses. \<open>encode\<close> and \<open>decode\<close> write through a raw pointer; the bytes
  they write are the result here, and the callers \<open>base64_encode\<close> and
  \<open>base64_decode\<close> check them against the size of the destination they allocated. The array
  \<open>c4\<close> is not initialised, so its first contents are an argument.
\<close>

unbundle bit_operations_syntax

section \<open>Tables\<close>

definition get_alphabet :: string where
  "get_alphabet = ''ABCDEFGHIJKLMNOPQRSTUVWXYZabcdefghijklmnopqrstuvwxyz0123456789+/''"

definition get_inverse :: "int list" where
  "get_inverse =
     replicate 43 (-1) @ [62, -1, -1, -1, 63] @ map int [52..<62] @ replicate 7 (-1) @
     map int [0..<26] @ replicate 6 (-1) @ map int [26..<52] @ replicate 133 (-1)"

definition encoded_size :: "nat \<Rightarrow> nat" where
  "encoded_size n = 4 * ((n + 2) div 3)"

definition decoded_size :: "nat \<Rightarrow> nat" where
  "decoded_size n = n div 4 * 3"


section \<open>Encoding\<close>

abbreviation tab :: "nat \<Rightarrow> char" where
  "tab i \<equiv> get_alphabet ! i"

fun encode :: "string \<Rightarrow> string" where
  "encode (x # y # z # s) =
     (let a = of_char x; b = of_char y; c = of_char z
      in tab (drop_bit 2 (a AND 0xfc)) #
         tab (push_bit 4 (a AND 0x03) + drop_bit 4 (b AND 0xf0)) #
         tab (drop_bit 6 (c AND 0xc0) + push_bit 2 (b AND 0x0f)) #
         tab (c AND 0x3f) # encode s)"
| "encode [x, y] =
     (let a = of_char x; b = of_char y
      in [tab (drop_bit 2 (a AND 0xfc)), tab (push_bit 4 (a AND 0x03) + drop_bit 4 (b AND 0xf0)),
          tab (push_bit 2 (b AND 0x0f)), CHR ''=''])"
| "encode [x] =
     (let a = of_char x
      in [tab (drop_bit 2 (a AND 0xfc)), tab (push_bit 4 (a AND 0x03)), CHR ''='', CHR ''=''])"
| "encode [] = []"

definition base64_encode :: "string \<Rightarrow> string res" where
  "base64_encode s =
     (let out = encode s
      in res_map (take (length out)) (write_at (replicate (encoded_size (length s)) NUL) 0 out))"


section \<open>Decoding\<close>

definition combine :: "nat list \<Rightarrow> string" where
  \<comment> \<open>the three bytes of \<open>c3\<close>, each an \<open>unsigned char\<close>\<close>
  "combine c4 =
     map char_of
       [push_bit 2 (c4 ! 0) + drop_bit 4 (c4 ! 1 AND 0x30),
        push_bit 4 (c4 ! 1 AND 0xf) + drop_bit 2 (c4 ! 2 AND 0x3c),
        push_bit 6 (c4 ! 2 AND 0x3) + c4 ! 3]"

fun decode_loop :: "string \<Rightarrow> nat \<Rightarrow> nat list \<Rightarrow> string \<Rightarrow> nat \<times> nat list \<times> string \<times> string" where
  \<comment> \<open>the unread input, \<open>i\<close>, \<open>c4\<close> and the bytes written so far\<close>
  "decode_loop [] i c4 out = (i, c4, out, [])"
| "decode_loop (x # s) i c4 out =
     (if x = CHR ''='' then (i, c4, out, x # s)
      else let v = get_inverse ! of_char x
           in if v = -1 then (i, c4, out, x # s)
              else let c4' = c4[i := nat v]
                   in if i + 1 = 4 then decode_loop s 0 c4' (out @ combine c4')
                      else decode_loop s (i + 1) c4' out)"

definition decode :: "nat list \<Rightarrow> string \<Rightarrow> string \<times> nat" where
  \<comment> \<open>the bytes written and the number of characters read\<close>
  "decode c4 s =
     (case decode_loop s 0 c4 [] of (i, c4', out, rest) \<Rightarrow>
        (if i \<noteq> 0 then out @ take (i - 1) (combine c4') else out, length s - length rest))"

definition base64_decode :: "nat list \<Rightarrow> string \<Rightarrow> string res" where
  "base64_decode c4 s =
     (let out = fst (decode c4 s)
      in res_map (take (length out)) (write_at (replicate (decoded_size (length s)) NUL) 0 out))"


section \<open>The tables are inverse\<close>

lemma inverse_tab:
  "list_all (\<lambda>i. get_inverse ! of_char (tab i) = int i \<and> tab i \<noteq> CHR ''='') [0..<64]"
  by code_simp

lemma tab_inverse:
  assumes "i < 64"
  shows "get_inverse ! of_char (tab i) = int i" and "tab i \<noteq> CHR ''=''"
  using inverse_tab assms by (auto simp: list_all_iff)

section \<open>Masks and shifts as division\<close>

lemma low_mask:
  "n AND 3 = n mod 4" "n AND 15 = n mod 16" "n AND 63 = n mod (64 :: nat)"
  using take_bit_eq_mask [of 2 n] take_bit_eq_mask [of 4 n] take_bit_eq_mask [of 6 n]
  by (simp_all add: mask_eq_exp_minus_1 take_bit_eq_mod)

lemma div_small: "n < 256 \<Longrightarrow> n div 4 < (64 :: nat)" "n < 256 \<Longrightarrow> n div 16 < (16 :: nat)"
  "n < 256 \<Longrightarrow> n div 64 < (4 :: nat)" "n < 64 \<Longrightarrow> n div 16 < (4 :: nat)" "n < 64 \<Longrightarrow> n div 4 < (16 :: nat)"
  by (auto intro!: less_mult_imp_div_less)

lemma high_mask:
  fixes n :: nat
  shows "n < 256 \<Longrightarrow> drop_bit 2 (n AND 252) = n div 4"
    and "n < 256 \<Longrightarrow> drop_bit 4 (n AND 240) = n div 16"
    and "n < 256 \<Longrightarrow> drop_bit 6 (n AND 192) = n div 64"
    and "n < 64 \<Longrightarrow> drop_bit 4 (n AND 48) = n div 16"
    and "n < 64 \<Longrightarrow> drop_bit 2 (n AND 60) = n div 4"
proof -
  have c: "drop_bit 2 252 = (63 :: nat)" "drop_bit 4 240 = (15 :: nat)" "drop_bit 6 192 = (3 :: nat)"
      "drop_bit 4 48 = (3 :: nat)" "drop_bit 2 60 = (15 :: nat)"
    by (simp_all add: drop_bit_eq_div)
  have d: "drop_bit 2 n = n div 4" "drop_bit 4 n = n div 16" "drop_bit 6 n = n div 64"
    by (simp_all add: drop_bit_eq_div)
  show "n < 256 \<Longrightarrow> drop_bit 2 (n AND 252) = n div 4"
    and "n < 256 \<Longrightarrow> drop_bit 4 (n AND 240) = n div 16"
    and "n < 256 \<Longrightarrow> drop_bit 6 (n AND 192) = n div 64"
    and "n < 64 \<Longrightarrow> drop_bit 4 (n AND 48) = n div 16"
    and "n < 64 \<Longrightarrow> drop_bit 2 (n AND 60) = n div 4"
    using div_small [of n] by (simp_all only: drop_bit_and c d low_mask mod_less)
qed

lemma shifts: "push_bit 2 n = n * (4 :: nat)" "push_bit 4 n = n * (16 :: nat)" "push_bit 6 n = n * (64 :: nat)"
  by (simp_all add: push_bit_eq_mult)

lemma of_char_byte: "(of_char c :: nat) < 256"
  by simp

lemmas bits_arith = low_mask high_mask shifts

section \<open>Encoding and decoding blocks\<close>

text \<open>The four 6-bit values of a block of three bytes.\<close>

definition sextets :: "nat \<Rightarrow> nat \<Rightarrow> nat \<Rightarrow> nat list" where
  "sextets a b c = [a div 4, a mod 4 * 16 + b div 16, c div 64 + b mod 16 * 4, c mod 64]"

lemma sextets_less:
  assumes "a < 256" "b < 256" "c < 256" and "x \<in> set (sextets a b c)"
  shows "x < 64"
proof -
  have "a mod 4 < 4" "b mod 16 < 16" by simp_all
  then show ?thesis using assms div_small by (fastforce simp: sextets_def)
qed

lemma combine_sextets:
  assumes "a < 256" "b < 256" "c < 256"
  shows "combine (sextets a b c) = map char_of [a, b, c]"
proof -
  let ?s = "sextets a b c"
  have s: "?s ! 0 = a div 4" "?s ! 1 = a mod 4 * 16 + b div 16" "?s ! 2 = c div 64 + b mod 16 * 4" "?s ! 3 = c mod 64"
    by (simp_all add: sextets_def numeral_3_eq_3)
  have "length ?s = 4" by (simp add: sextets_def)
  then have l: "?s ! 1 < 64" "?s ! 2 < 64" by (auto intro!: sextets_less [OF assms] nth_mem)
  have d: "b div 16 < 16" "c div 64 < 4" using assms div_small by simp_all
  have b: "?s ! 1 div 16 = a mod 4" "?s ! 1 mod 16 = b div 16" "?s ! 2 div 4 = b mod 16" "?s ! 2 mod 4 = c div 64"
    using d by (simp_all only: s div_mult_self3 mod_mult_self3 mod_mult_self1 div_mult_self1 mod_less div_less
      add_0_left add_0_right zero_neq_numeral not_False_eq_True)
  have "push_bit 2 (?s ! 0) + drop_bit 4 (?s ! 1 AND 0x30) = a"
    by (simp only: shifts high_mask(4) [OF l(1)] b s(1) div_mult_mod_eq)
  moreover have "push_bit 4 (?s ! 1 AND 0xf) + drop_bit 2 (?s ! 2 AND 0x3c) = b"
    by (simp only: shifts low_mask high_mask(5) [OF l(2)] b div_mult_mod_eq)
  moreover have "push_bit 6 (?s ! 2 AND 0x3) + ?s ! 3 = c"
    by (simp only: shifts low_mask b s(4) div_mult_mod_eq)
  ultimately show ?thesis by (simp only: combine_def)
qed

lemma take_4: "take 3 [p, q, r, t] = [p, q, r]" "take 2 [p, q, r, t] = [p, q]"
  by simp_all

lemma encode_sextets:
  "encode (x # y # z # s) = map tab (sextets (of_char x) (of_char y) (of_char z)) @ encode s"
  "encode [x, y] = map tab (take 3 (sextets (of_char x) (of_char y) 0)) @ ''=''"
  "encode [x] = map tab (take 2 (sextets (of_char x) 0 0)) @ ''==''"
  by (simp_all only: encode.simps Let_def bits_arith of_char_byte sextets_def list.map append.simps
      take_4 div_0 mod_0 add_0_left add_0_right)

text \<open>What the loop has written when it stops, with the bytes of an incomplete block.\<close>

definition flush :: "nat \<times> nat list \<times> string \<times> string \<Rightarrow> string" where
  "flush = (\<lambda>(i, c4, out, rest). if i \<noteq> 0 then out @ take (i - 1) (combine c4) else out)"

lemma fst_decode: "fst (decode c4 s) = flush (decode_loop s 0 c4 [])"
  by (simp add: decode_def flush_def split: prod.splits)

lemma decode_loop_tab:
  assumes "x < 64"
  shows "decode_loop (tab x # s) i c4 out =
    (if i + 1 = 4 then decode_loop s 0 (c4[i := x]) (out @ combine (c4[i := x]))
     else decode_loop s (i + 1) (c4[i := x]) out)"
  using tab_inverse [OF assms] by (simp add: Let_def)

lemma decode_loop_pad: "decode_loop (CHR ''='' # s) i c4 out = (i, c4, out, CHR ''='' # s)"
  by simp

lemma length_4: "length c4 = 4 \<Longrightarrow> \<exists>p q r t. c4 = [p, q, r, t]"
  by (auto simp: numeral_eq_Suc length_Suc_conv)

lemma combine_prefix:
  "take 2 (combine [p, q, r, t]) = take 2 (combine [p, q, r, 0])"
  "take 1 (combine [p, q, r, t]) = take 1 (combine [p, q, 0, 0])"
  by (simp_all add: combine_def)

lemma decode_block:
  assumes "length c4 = 4" and "w < 64" "x < 64" "y < 64" "z < 64"
  shows "decode_loop (map tab [w, x, y, z] @ s) 0 c4 out = decode_loop s 0 [w, x, y, z] (out @ combine [w, x, y, z])"
  using length_4 [OF assms(1)]
  by (auto simp: decode_loop_tab assms(2-5) simp del: decode_loop.simps)

lemma decode_tail:
  assumes "length c4 = 4" and "w < 64" "x < 64" "y < 64"
  shows "flush (decode_loop (map tab [w, x, y] @ ''='') 0 c4 out) = out @ take 2 (combine [w, x, y, 0])"
    and "flush (decode_loop (map tab [w, x] @ ''=='') 0 c4 out) = out @ take 1 (combine [w, x, 0, 0])"
proof -
  from length_4 [OF assms(1)] obtain p q r t where c4: "c4 = [p, q, r, t]" by blast
  have "decode_loop (map tab [w, x, y] @ ''='') 0 c4 out = (3, [w, x, y, t], out, ''='')"
    and "decode_loop (map tab [w, x] @ ''=='') 0 c4 out = (2, [w, x, r, t], out, ''=='')"
    by (simp_all add: c4 decode_loop_tab decode_loop_pad assms(2-4) del: decode_loop.simps)
  then show "flush (decode_loop (map tab [w, x, y] @ ''='') 0 c4 out) = out @ take 2 (combine [w, x, y, 0])"
    and "flush (decode_loop (map tab [w, x] @ ''=='') 0 c4 out) = out @ take 1 (combine [w, x, 0, 0])"
    using combine_prefix(1) [of w x y t] combine_prefix(2) [of w x r t] by (simp_all add: flush_def)
qed

lemma sextets_list:
  assumes "a < 256" "b < 256" "c < 256"
  shows "\<exists>w x y z. sextets a b c = [w, x, y, z] \<and> w < 64 \<and> x < 64 \<and> y < 64 \<and> z < 64"
proof -
  have "length (sextets a b c) = 4" by (simp add: sextets_def)
  then obtain w x y z where v: "sextets a b c = [w, x, y, z]" using length_4 by blast
  then show ?thesis using sextets_less [OF assms] by simp
qed

lemma flush_encode:
  assumes "length c4 = 4"
  shows "flush (decode_loop (encode s) 0 c4 out) = out @ s"
  using assms
proof (induction s arbitrary: c4 out rule: encode.induct)
  case (1 a b c s)
  obtain w x y z where v: "sextets (of_char a) (of_char b) (of_char c) = [w, x, y, z]"
      and l: "w < 64" "x < 64" "y < 64" "z < 64"
    using sextets_list [of "of_char a" "of_char b" "of_char c"] by auto
  have "combine [w, x, y, z] = [a, b, c]"
    using combine_sextets [of "of_char a" "of_char b" "of_char c"] v by simp
  moreover have "flush (decode_loop (encode s) 0 [w, x, y, z] (out @ [a, b, c])) = (out @ [a, b, c]) @ s"
    using 1(1) by simp
  ultimately show ?case
    by (simp only: encode_sextets v decode_block [OF 1(2) l]) simp
next
  case (2 a b)
  obtain w x y z where v: "sextets (of_char a) (of_char b) 0 = [w, x, y, z]"
      and l: "w < 64" "x < 64" "y < 64" "z < 64"
    using sextets_list [of "of_char a" "of_char b" 0] by auto
  have "combine [w, x, y, z] = map char_of [of_char a, of_char b, 0 :: nat]"
    using combine_sextets [of "of_char a" "of_char b" 0] v by simp
  then have "take 2 (combine [w, x, y, 0]) = [a, b]"
    using combine_prefix(1) [of w x y z] by (simp add: numeral_2_eq_2)
  then show ?case
    using decode_tail(1) [OF 2 l(1-3)] by (simp only: encode_sextets v) (simp add: numeral_3_eq_3)
next
  case (3 a)
  obtain w x y z where v: "sextets (of_char a) 0 0 = [w, x, y, z]"
      and l: "w < 64" "x < 64" "y < 64" "z < 64"
    using sextets_list [of "of_char a" 0 0] by auto
  have "combine [w, x, y, z] = map char_of [of_char a, 0, 0 :: nat]"
    using combine_sextets [of "of_char a" 0 0] v by simp
  then have "take 1 (combine [w, x, 0, 0]) = [a]"
    using combine_prefix(2) [of w x y z] by simp
  then show ?case
    using decode_tail(2) [OF 3 l(1-3)] by (simp only: encode_sextets v) (simp add: numeral_2_eq_2)
qed (simp add: flush_def)

section \<open>Properties\<close>

lemma length_encode: "length (encode s) = encoded_size (length s)"
proof (induction s rule: encode.induct)
  case (1 x y z s)
  have "length (x # y # z # s) + 2 = length s + 2 + 3" by simp
  then have "(length (x # y # z # s) + 2) div 3 = (length s + 2) div 3 + 1" by simp
  then have "encoded_size (length (x # y # z # s)) = encoded_size (length s) + 4" by (simp only: encoded_size_def) simp
  with 1 show ?case by (simp only: encode.simps Let_def list.size)
qed (simp_all add: encoded_size_def Let_def)

lemma base64_encode_ok: "base64_encode s = Inr (encode s)"
  by (simp add: base64_encode_def write_at_def length_encode Let_def)

lemma decoded_encoded_size: "n \<le> decoded_size (encoded_size n)"
proof -
  have "n \<le> (n + 2) div 3 * 3" by presburger
  then show ?thesis by (simp add: decoded_size_def encoded_size_def)
qed

text \<open>
  C16. Base64 is lossless: \<open>base64_encode\<close> never writes past its destination, and decoding its
  result gives back the bytes, whatever the uninitialised array \<open>c4\<close> holds; the decoder stays
  within its own destination too.
\<close>

theorem base64_roundtrip:
  assumes "length c4 = 4"
  shows "res_bind (base64_encode s) (base64_decode c4) = Inr s"
  using flush_encode [OF assms, of s "[]"] decoded_encoded_size [of "length s"]
  by (simp add: base64_encode_ok base64_decode_def fst_decode length_encode write_at_def)

theorem base64_roundtrip_witness:
  "res_bind (base64_encode ''user:pass'') (base64_decode [7, 7, 7, 7]) = Inr ''user:pass''"
  by (rule base64_roundtrip) simp

definition valid_char :: "char \<Rightarrow> bool" where
  "valid_char x \<longleftrightarrow> x \<noteq> CHR ''='' \<and> get_inverse ! of_char x \<noteq> -1"

lemma length_combine [simp]: "length (combine c4) = 3"
  by (simp add: combine_def)

lemma decode_loop_count:
  assumes "i < 4" and "decode_loop s i c4 out = (i', c4', out', rest)"
  shows "i' = (i + length (takeWhile valid_char s)) mod 4 \<and>
     length out' = length out + 3 * ((i + length (takeWhile valid_char s)) div 4)"
  using assms
proof (induction s i c4 out rule: decode_loop.induct)
  case (2 x s i c4 out)
  show ?case
  proof (cases "valid_char x")
    case False
    with 2 show ?thesis by (auto simp: valid_char_def Let_def split: if_splits)
  next
    case v: True
    then have x: "x \<noteq> CHR ''=''" "get_inverse ! of_char x \<noteq> -1" by (simp_all add: valid_char_def)
    let ?m = "length (takeWhile valid_char s)" and ?c = "c4[i := nat (get_inverse ! of_char x)]"
    show ?thesis
    proof (cases "i = 3")
      case True
      then have "decode_loop s 0 ?c (out @ combine ?c) = (i', c4', out', rest)"
        using 2(4) x by (simp add: Let_def)
      then have "i' = ?m mod 4 \<and> length out' = length out + 3 + 3 * (?m div 4)"
        using 2(1) [OF x(1) refl x(2) refl] True by simp
      moreover have "(4 + ?m) mod 4 = ?m mod 4" "(4 + ?m) div 4 = Suc (?m div 4)" by simp_all
      ultimately show ?thesis using True v by (simp add: add.commute)
    next
      case False
      then have "decode_loop s (i + 1) ?c out = (i', c4', out', rest)"
        using 2(4) x by (simp add: Let_def)
      then show ?thesis
        using 2(2) [OF x(1) refl x(2) refl] 2(3) False v by simp
    qed
  qed
qed auto

lemma length_fst_decode:
  "length (fst (decode c4 s)) =
     (let m = length (takeWhile valid_char s) in m div 4 * 3 + (m mod 4 - 1))"
proof -
  obtain i c4' out rest where d: "decode_loop s 0 c4 [] = (i, c4', out, rest)"
    by (cases "decode_loop s 0 c4 []")
  from decode_loop_count [OF _ d] have "i = length (takeWhile valid_char s) mod 4"
      "length out = 3 * (length (takeWhile valid_char s) div 4)" by simp_all
  moreover from this(1) have "i - 1 \<le> 3" by simp
  ultimately show ?thesis by (simp add: fst_decode d flush_def Let_def mult.commute)
qed

lemma block_bound: "p \<le> q \<Longrightarrow> r < 4 \<Longrightarrow> q * 3 < p * 3 + (r - 1) \<longleftrightarrow> p = q \<and> 2 \<le> (r :: nat)"
  by (cases "p = q") auto

text \<open>
  C19. Exactly when the decoder writes past the destination that \<open>base64_decode\<close> allocates: when
  the alphabet characters at the front fill all but less than a block of the input and leave an
  incomplete block of two or three. In particular unpadded Base64 overflows the destination by one
  or two bytes, and an input of a multiple of four characters never does.
\<close>

theorem base64_decode_overflow_iff:
  "base64_decode c4 s = Inl OutOfBounds \<longleftrightarrow>
     length (takeWhile valid_char s) div 4 = length s div 4 \<and> 2 \<le> length (takeWhile valid_char s) mod 4"
proof -
  let ?m = "length (takeWhile valid_char s)"
  have "?m \<le> length s" by (rule length_takeWhile_le)
  then have le: "?m div 4 \<le> length s div 4" by (rule div_le_mono)
  have "?m mod 4 < 4" by simp
  with le have iff: "length s div 4 * 3 < ?m div 4 * 3 + (?m mod 4 - 1) \<longleftrightarrow>
      ?m div 4 = length s div 4 \<and> 2 \<le> ?m mod 4"
    by (rule block_bound)
  have "base64_decode c4 s = Inl OutOfBounds \<longleftrightarrow> decoded_size (length s) < length (fst (decode c4 s))"
    by (simp add: base64_decode_def write_at_def Let_def)
  also have "\<dots> \<longleftrightarrow> length s div 4 * 3 < ?m div 4 * 3 + (?m mod 4 - 1)"
    by (simp only: length_fst_decode decoded_size_def Let_def)
  finally show ?thesis using iff by simp
qed

end
