(* ===== verification/HttpAuth.thy ===== *)
theory HttpAuth
  imports HttpMap Base64
begin

text \<open>
  \<open>soc/http/include/HttpPassStore.h\<close> and \<open>soc/http/include/HttpAuth.h\<close>: the table of
  stored credentials and the verification of Basic and Digest credentials. The MD5 function is an
  argument. The digest is assembled in an array of 128 bytes by C string functions; a result that
  does not fit is \<open>OutOfBounds\<close>.
\<close>

section \<open>The password store\<close>

record pass_store =
  ps_user_pass :: "(string, string) httpmap"
  ps_realm :: string

definition ps_add_line :: "(string, string) httpmap \<Rightarrow> string \<Rightarrow> (string, string) httpmap res" where
  \<comment> \<open>a line without a colon stores itself as its own digest: \<open>npos + 1\<close> is 0\<close>
  "ps_add_line m line =
     (let pos = sv_find_first_of line (CHR '':'')
      in res_bind (sv_substr line 0 pos) (\<lambda>user.
         res_map (hm_add m user) (sv_substr line (size_add pos 1) npos)))"

definition ps_load :: "string \<Rightarrow> string list option \<Rightarrow> pass_store res" where
  \<comment> \<open>the realm and the lines of the file, or \<open>None\<close> when it cannot be opened\<close>
  "ps_load realm file =
     res_map (\<lambda>m. \<lparr>ps_user_pass = m, ps_realm = realm\<rparr>)
       (case file of None \<Rightarrow> Inr hm_new | Some ls \<Rightarrow> res_fold ps_add_line ls hm_new)"

definition fetch :: "pass_store \<Rightarrow> string \<Rightarrow> string option" where
  "fetch ps user = hm_get (ps_user_pass ps) user"


section \<open>Credentials\<close>

datatype auth =
    BasicAuth (au_user: string) (au_pass: string) (au_verified: bool)
  | DigestAuth (au_info: string) (au_verified: bool)

definition HttpBasicAuth :: "(string \<Rightarrow> string) \<Rightarrow> pass_store \<Rightarrow> string \<Rightarrow> string \<Rightarrow> auth res" where
  "HttpBasicAuth MD5 ps user pass =
     (case fetch ps user of
        None \<Rightarrow> Inr (BasicAuth user pass False)
      | Some x \<Rightarrow>
          res_map (BasicAuth user pass) (md5HashEqual MD5 (user @ '':'' @ ps_realm ps @ '':'' @ pass) x))"

definition strcat :: "string \<Rightarrow> string \<Rightarrow> string res" where
  \<comment> \<open>appending to the C string in \<open>buffer[128]\<close>, with its terminating NUL\<close>
  "strcat b s = (if length b + length (c_str s) < 128 then Inr (b @ c_str s) else Inl OutOfBounds)"

definition strcat_opt :: "string \<Rightarrow> string option \<Rightarrow> string res" where
  "strcat_opt b x = (case x of None \<Rightarrow> Inr b | Some v \<Rightarrow> res_bind (strcat b '':'') (\<lambda>b. strcat b v))"

definition opt_value :: "'a option \<Rightarrow> 'a res" where
  "opt_value x = (case x of None \<Rightarrow> Inl BadOptionalAccess | Some v \<Rightarrow> Inr v)"

definition digest_response :: "(string \<Rightarrow> string) \<Rightarrow> string \<Rightarrow> (string, string) httpmap \<Rightarrow> string res" where
  \<comment> \<open>the contents of \<open>buffer\<close> before the comparison\<close>
  "digest_response MD5 h1 da =
     res_bind (opt_value (hm_get da ''method'')) (\<lambda>method.
     res_bind (opt_value (hm_get da ''uri'')) (\<lambda>uri.
       let h2 = md5Hash MD5 (take 127 (c_str method @ '':'' @ c_str uri))
       in res_bind (strcat [] h1) (\<lambda>b.
          res_bind (strcat_opt b (hm_get da ''nonce'')) (\<lambda>b.
          res_bind (strcat_opt b (hm_get da ''nc'')) (\<lambda>b.
          res_bind (strcat_opt b (hm_get da ''cnonce'')) (\<lambda>b.
          res_bind (strcat_opt b (hm_get da ''qop'')) (\<lambda>b.
          res_bind (strcat b '':'') (\<lambda>b. strcat b h2))))))))"

definition HttpDigestAuth :: "(string \<Rightarrow> string) \<Rightarrow> pass_store \<Rightarrow> string \<Rightarrow> (string, string) httpmap \<Rightarrow> auth res" where
  "HttpDigestAuth MD5 ps info da =
     (case hm_get da ''username'' of
        None \<Rightarrow> Inr (DigestAuth info False)
      | Some username \<Rightarrow> (case fetch ps username of
          None \<Rightarrow> Inr (DigestAuth info False)
        | Some h1 \<Rightarrow>
            res_bind (digest_response MD5 h1 da) (\<lambda>b.
            res_bind (opt_value (hm_get da ''response'')) (\<lambda>response.
              res_map (DigestAuth info) (md5HashEqual MD5 b (c_str response))))))"


section \<open>Properties\<close>

text \<open>
  Basic credentials are accepted exactly when the user is in the store and the stored value
  begins with the digest of \<open>user:realm:password\<close>; an unknown user is never accepted. Stored
  values hold at least a digest (32 characters for the 16 bytes of MD5).
\<close>

lemma basic_auth_iff:
  assumes "length (MD5 (user @ '':'' @ ps_realm ps @ '':'' @ pass)) = 16"
    and "\<And>v. fetch ps user = Some v \<Longrightarrow> 32 \<le> length v"
  shows "\<exists>a. HttpBasicAuth MD5 ps user pass = Inr a \<and> au_user a = user \<and> au_pass a = pass \<and>
    (au_verified a \<longleftrightarrow> (\<exists>v. fetch ps user = Some v \<and>
       starts_with v (md5Hash MD5 (user @ '':'' @ ps_realm ps @ '':'' @ pass))))"
  using assms by (cases "fetch ps user") (auto simp: HttpBasicAuth_def md5HashEqual_prefix)

lemma to_hex_zeros: "to_hex (replicate n NUL) = replicate (2 * n) (CHR ''0'')"
proof (induction n)
  case (Suc n)
  have "hex_digit 0 = CHR ''0''" by (simp add: hex_digit_def char_of_def bit_0)
  with Suc show ?case by (simp add: to_hex_def NUL_def)
qed (simp add: to_hex_def)

text \<open>Appending pieces one by one is appending them together: the check of the last one decides.\<close>

definition fits :: "string \<Rightarrow> string res" where
  "fits b = (if length b < 128 then Inr b else Inl OutOfBounds)"

lemma strcat_fits: "NUL \<notin> set s \<Longrightarrow> res_bind (fits b) (\<lambda>b. strcat b s) = fits (b @ s)"
proof -
  assume "NUL \<notin> set s"
  then have "c_str s = s" by (auto simp: c_str_def takeWhile_eq_all_conv)
  then show ?thesis by (auto simp: fits_def strcat_def)
qed

lemma strcat_opt_fits: "NUL \<notin> set s \<Longrightarrow> res_bind (fits b) (\<lambda>b. strcat_opt b (Some s)) = fits (b @ '':'' @ s)"
proof -
  assume s: "NUL \<notin> set s"
  have "res_bind (fits b) (\<lambda>b. strcat_opt b (Some s)) = res_bind (res_bind (fits b) (\<lambda>b. strcat b '':'')) (\<lambda>b. strcat b s)"
    by (simp add: strcat_opt_def res_bind_assoc)
  also have "res_bind (fits b) (\<lambda>b. strcat b '':'') = fits (b @ '':'')"
    by (rule strcat_fits) (simp add: NUL_def)
  also have "res_bind (fits (b @ '':'')) (\<lambda>b. strcat b s) = fits ((b @ '':'') @ s)"
    using s by (rule strcat_fits)
  finally show ?thesis by simp
qed

text \<open>
  The string that Digest verification hashes is the one the protocol defines,
  \<open>h1:nonce:nc:cnonce:qop:h2\<close>, as long as it fits into 127 bytes; a longer one (the client
  chooses \<open>nonce\<close>, \<open>nc\<close>, \<open>cnonce\<close> and \<open>qop\<close>) is written past the array.
\<close>

theorem digest_response_string:
  assumes "hm_get da ''method'' = Some method" "hm_get da ''uri'' = Some uri" "hm_get da ''nonce'' = Some nonce"
    "hm_get da ''nc'' = Some nc" "hm_get da ''cnonce'' = Some cnonce" "hm_get da ''qop'' = Some qop"
    and "\<forall>s \<in> {h1, nonce, nc, cnonce, qop, h2}. NUL \<notin> set s"
    and "h2 = md5Hash MD5 (take 127 (c_str method @ '':'' @ c_str uri))"
  shows "digest_response MD5 h1 da =
    (let b = h1 @ '':'' @ nonce @ '':'' @ nc @ '':'' @ cnonce @ '':'' @ qop @ '':'' @ h2
     in if length b < 128 then Inr b else Inl OutOfBounds)"
proof -
  have [simp]: "NUL \<notin> set h1" "NUL \<notin> set nonce" "NUL \<notin> set nc" "NUL \<notin> set cnonce" "NUL \<notin> set qop" "NUL \<notin> set h2"
      "NUL \<notin> set '':''"
    using assms(7) by (auto simp: NUL_def)
  have st: "strcat [] h1 = fits h1" using strcat_fits [of h1 "[]"] by (simp add: fits_def)
  have "digest_response MD5 h1 da =
      res_bind (res_bind (res_bind (res_bind (res_bind (res_bind (fits h1) (\<lambda>b. strcat_opt b (Some nonce)))
        (\<lambda>b. strcat_opt b (Some nc))) (\<lambda>b. strcat_opt b (Some cnonce))) (\<lambda>b. strcat_opt b (Some qop)))
        (\<lambda>b. strcat b '':'')) (\<lambda>b. strcat b h2)"
    by (simp only: digest_response_def assms(1-6) opt_value_def option.case res_bind_Inr Let_def res_bind_assoc st
        assms(8) [symmetric])
  also have "\<dots> = fits (((((((h1 @ '':'' @ nonce) @ '':'' @ nc) @ '':'' @ cnonce) @ '':'' @ qop) @ '':'') @ h2))"
    by (simp only: strcat_opt_fits strcat_fits \<open>NUL \<notin> set nonce\<close> \<open>NUL \<notin> set nc\<close> \<open>NUL \<notin> set cnonce\<close>
        \<open>NUL \<notin> set qop\<close> \<open>NUL \<notin> set h2\<close> \<open>NUL \<notin> set '':''\<close> not_False_eq_True)
  finally show ?thesis by (simp add: fits_def Let_def)
qed

theorem digest_response_string_witness:
  "digest_response (\<lambda>s. ''h'') (replicate 32 (CHR ''0''))
     [''method'' \<mapsto> ''GET'', ''uri'' \<mapsto> ''/'', ''nonce'' \<mapsto> replicate 90 (CHR ''n''), ''nc'' \<mapsto> ''1'', ''cnonce'' \<mapsto> ''c'', ''qop'' \<mapsto> ''auth''] =
   Inl OutOfBounds"
proof -
  let ?da = "[''method'' \<mapsto> ''GET'', ''uri'' \<mapsto> ''/'', ''nonce'' \<mapsto> replicate 90 (CHR ''n''), ''nc'' \<mapsto> ''1'', ''cnonce'' \<mapsto> ''c'', ''qop'' \<mapsto> ''auth'']"
  have "NUL \<notin> set (md5Hash (\<lambda>s. ''h'') s)" for s
    by (simp add: md5Hash_def to_hex_def hex_digit_def NUL_def char_of_def and_15 bit_0)
  then show ?thesis
    using digest_response_string [of ?da "''GET''" "''/''" "replicate 90 (CHR ''n'')" "''1''" "''c''" "''auth''"
        "replicate 32 (CHR ''0'')" "md5Hash (\<lambda>s. ''h'') (take 127 (c_str ''GET'' @ '':'' @ c_str ''/''))" "\<lambda>s. ''h''"]
    by (simp add: hm_get_def NUL_def Let_def)
qed

end
