(* ===== verification/HttpRequest.thy ===== *)
theory HttpRequest
  imports HttpMultiPart HttpAuth
begin

text \<open>
  \<open>soc/http/src/HttpRequest.cc\<close>: the incremental parser of a request. Its state is the record
  \<open>request\<close>; the receive buffer of the connection is passed along with it. \<open>parseRequest\<close>
  is called whenever bytes have arrived and returns one of the codes of \<open>RetCode\<close>. The fuel is
  that of the multipart and of the Digest parser. \<open>method_\<close> and \<open>version_\<close> are not
  initialised by the constructor: they are \<open>None\<close> until the request line is read.
\<close>

section \<open>State\<close>

datatype http_method = GET | POST | HEAD

datatype http_version = HTTP_1_0 | HTTP_1_1 | HTTP_2_0

datatype ret_code = NO_REQUEST | REQUEST_LINE_DONE | REQUEST_HEADER_DONE | REQUEST_CONTENT_DONE
  | BAD_REQUEST | AGAIN_HEADER | AGAIN_CONTENT

record request =
  rq_req_url :: string
  rq_url :: string
  rq_query_s :: string
  rq_post_data :: string
  rq_method :: "http_method option"
  rq_version :: "http_version option"
  rq_header :: header
  rq_multipart :: multipart
  rq_ret_code :: ret_code
  rq_cookies :: "(string, string) httpmap"
  rq_keepalive :: bool
  rq_compressed :: bool
  rq_has_multipart :: bool
  rq_has_cookies :: bool
  rq_auth :: "auth option"
  rq_query :: "(string, string) httpmap"
  rq_form :: "(string, string) httpmap"
  rq_da :: "(string, string) httpmap"

definition rq_new :: request where
  "rq_new = \<lparr>rq_req_url = [], rq_url = [], rq_query_s = [], rq_post_data = [], rq_method = None, rq_version = None,
     rq_header = [], rq_multipart = mp_new, rq_ret_code = NO_REQUEST, rq_cookies = hm_new, rq_keepalive = False,
     rq_compressed = False, rq_has_multipart = False, rq_has_cookies = False, rq_auth = None, rq_query = hm_new,
     rq_form = hm_new, rq_da = hm_new\<rparr>"

definition rq_reset :: "request \<Rightarrow> request" where
  "rq_reset r = r\<lparr>rq_ret_code := NO_REQUEST\<rparr>"

text \<open>
  What the parser takes from outside: the MD5 function, the password store, the uninitialised array of
  the Base64 decoder, and the bytes seen through the view \<open>v\<close> of the destroyed temporary
  \<open>EncodeUtil::toLowers(conn.value())\<close>.
\<close>

record env =
  ev_md5 :: "string \<Rightarrow> string"
  ev_store :: pass_store
  ev_c4 :: "nat list"
  ev_dangling :: "string \<Rightarrow> string"


section \<open>The request line and the header lines\<close>

definition rq_setHeader :: "string \<Rightarrow> string \<Rightarrow> request \<Rightarrow> request" where
  "rq_setHeader key value r = r\<lparr>rq_header := hd_add (rq_header r) key value\<rparr>"

definition getHeaderValue :: "request \<Rightarrow> string \<Rightarrow> string option" where
  "getHeaderValue r key = hd_get (rq_header r) key"

fun method_of :: "sview \<Rightarrow> (http_method \<times> nat) option" where
  "method_of line =
     (if starts_with line ''GET'' then Some (GET, 4)
      else if starts_with line ''POST'' then Some (POST, 5)
      else if starts_with line ''HEAD'' then Some (HEAD, 5)
      else None)"

fun version_of :: "sview \<Rightarrow> http_version option" where
  "version_of line =
     (if starts_with line ''HTTP/1.0'' then Some HTTP_1_0
      else if starts_with line ''HTTP/1.1'' then Some HTTP_1_1
      else if starts_with line ''HTTP/2.0'' then Some HTTP_2_0
      else None)"

definition parseRequestLine :: "buffer \<Rightarrow> request \<Rightarrow> (buffer \<times> request) res" where
  "parseRequestLine b r =
     (case method_of (buf_view b) of
        None \<Rightarrow> Inr (b, r\<lparr>rq_ret_code := BAD_REQUEST\<rparr>)
      | Some (m, i) \<Rightarrow>
          let r = r\<lparr>rq_method := Some m\<rparr>
          in res_bind (sv_remove_prefix (buf_view b) i) (\<lambda>line.
             case search_if (\<lambda>c. c = CHR '' '') line of
               None \<Rightarrow> Inr (b, r\<lparr>rq_ret_code := BAD_REQUEST\<rparr>)
             | Some pos \<Rightarrow>
                 let r = r\<lparr>rq_req_url := take pos line\<rparr>
                 in res_bind (sv_remove_prefix line (pos + 1)) (\<lambda>line.
                    case version_of line of
                      None \<Rightarrow> Inr (b, r\<lparr>rq_ret_code := BAD_REQUEST\<rparr>)
                    | Some v \<Rightarrow>
                        res_bind (sv_remove_prefix line 10) (\<lambda>_.
                          Inr (retired b (i + (pos + 1) + 10),
                               r\<lparr>rq_version := Some v, rq_ret_code := REQUEST_LINE_DONE\<rparr>)))))"

function header_loop :: "sview \<Rightarrow> buffer \<Rightarrow> header \<Rightarrow> (ret_code \<times> buffer \<times> header) res" where
  "header_loop s b h =
     (if 2 \<le> length s \<and> s ! 0 = CHR 0x0D \<and> s ! 1 = CHR 0x0A then Inr (REQUEST_HEADER_DONE, retired b 2, h)
      else case search CRLF s of
        None \<Rightarrow> Inr (AGAIN_HEADER, b, h)
      | Some pos \<Rightarrow> (case search_if (\<lambda>c. c = CHR '':'') (take pos s) of
          None \<Rightarrow> Inr (BAD_REQUEST, b, h)
        | Some pos2 \<Rightarrow>
            res_bind (sv_substr (take pos s) 0 pos2) (\<lambda>key.
            res_bind (sv_substr (take pos s) (pos2 + 2) (size_sub (size_sub pos pos2) 2)) (\<lambda>value.
              header_loop (drop (pos + 2) s) (retired b (pos + 2)) (hd_add h key value)))))"
  by pat_completeness auto
termination
  by (relation "measure (\<lambda>(s, b, h). length s)") (auto dest: search_CRLF_Cons)

declare header_loop.simps [simp del]

definition parseRequestHeader :: "buffer \<Rightarrow> request \<Rightarrow> (buffer \<times> request) res" where
  "parseRequestHeader b r =
     res_map (\<lambda>(code, b', h). (b', r\<lparr>rq_ret_code := code, rq_header := h\<rparr>))
       (header_loop (buf_view b) b (rq_header r))"


section \<open>Keys and values\<close>

text \<open>
  \<open>tail\<close> is the memory after the text: \<open>kv[pos + 1]\<close> is read without a check, also when the
  separator is the last character. Without \<open>s1\<close> in a pair, \<open>pos2 + s1.size()\<close> wraps to 0, so
  the value is the key.
\<close>

function parseKeyValue ::
  "sview \<Rightarrow> string \<Rightarrow> char \<Rightarrow> char \<Rightarrow> (string, string) httpmap \<Rightarrow> (string, string) httpmap res" where
  "parseKeyValue s tail s1 s2 c =
     (if s = [] then Inr c
      else let pos = sv_find_first_of s s2
           in res_bind (sv_substr s 0 pos) (\<lambda>kv.
              let pos2 = sv_find_first_of kv s1
              in res_bind (sv_substr kv 0 pos2) (\<lambda>k.
                 res_bind (sv_substr kv (size_add pos2 1) (size_sub (size_sub pos pos2) 1)) (\<lambda>v.
                 res_bind (if pos = npos then Inr (length s) else res_map Suc (skip_blanks (s @ tail) pos)) (\<lambda>pos'.
                 res_bind (sv_remove_prefix s pos') (\<lambda>s'.
                   parseKeyValue s' tail s1 s2 (hm_add c (urlDecode k) (urlDecode v))))))))"
  by pat_completeness auto
termination
  by (relation "measure (\<lambda>(s, tail, s1, s2, c). length s)") (auto simp: res_simps split: if_splits)

declare parseKeyValue.simps [simp del]

definition parseUrlQuery :: "request \<Rightarrow> request res" where
  "parseUrlQuery r =
     (let uls = rq_req_url r
      in res_map (\<lambda>r. r\<lparr>rq_url := urlDecode (take (or_npos (search_if (\<lambda>c. c = CHR ''?'') uls)) uls)\<rparr>)
          (case search_if (\<lambda>c. c = CHR ''?'') uls of
             None \<Rightarrow> Inr r
           | Some pos \<Rightarrow>
               res_map (\<lambda>q. r\<lparr>rq_query_s := drop (pos + 1) uls, rq_query := q\<rparr>)
                 (parseKeyValue (drop (pos + 1) uls) [NUL] (CHR ''='') (CHR ''&'') (rq_query r))))"

definition parseCookie :: "request \<Rightarrow> request res" where
  "parseCookie r =
     (case hd_get (rq_header r) ''Cookie'' of
        None \<Rightarrow> Inr r
      | Some it \<Rightarrow>
          res_map (\<lambda>c. r\<lparr>rq_has_cookies := True, rq_cookies := c\<rparr>)
            (parseKeyValue it [NUL] (CHR ''='') (CHR '';'') (rq_cookies r)))"

definition parseMultiPartData :: "request \<Rightarrow> request res" where
  "parseMultiPartData r =
     (case hd_get (rq_header r) ''Content-Type'' of
        None \<Rightarrow> Inr r
      | Some value \<Rightarrow>
          if starts_with value ''multipart/form-data''
          then let r = r\<lparr>rq_has_multipart := True\<rparr>
               in res_bind (sv_remove_prefix value 21) (\<lambda>value.
                  if starts_with value ''boundary''
                  then res_map (\<lambda>v. r\<lparr>rq_multipart := setBoundary (rq_multipart r) v\<rparr>) (sv_remove_prefix value 9)
                  else Inr r)
          else Inr r)"


section \<open>Authorization\<close>

text \<open>The Digest parameters: \<open>buffer[128]\<close> holds the key up to \<open>k\<close> and the value up to \<open>v\<close>.\<close>

record digest_local =
  dg_state :: nat
  dg_i :: nat
  dg_k :: nat
  dg_v :: nat
  dg_buffer :: string

function digest_key :: "sview \<Rightarrow> digest_local \<Rightarrow> digest_local res" where
  "digest_key s d =
     (if \<not> dg_i d < length s then Inr d
      else if s ! dg_i d = CHR ''='' then Inr (d\<lparr>dg_i := dg_i d + 1, dg_v := dg_k d, dg_state := 1\<rparr>)
      else res_bind (write_at (dg_buffer d) (dg_k d) [s ! dg_i d]) (\<lambda>b.
             digest_key s (d\<lparr>dg_buffer := b, dg_k := dg_k d + 1, dg_i := dg_i d + 1\<rparr>)))"
  by pat_completeness auto
termination
  by (relation "measure (\<lambda>(s, d). length s - dg_i d)") auto

function digest_value :: "sview \<Rightarrow> digest_local \<Rightarrow> digest_local res" where
  "digest_value s d =
     (if \<not> dg_i d < length s then Inr d
      else if s ! dg_i d = CHR '','' then Inr d
      else if s ! dg_i d = CHR 0x22 then Inr (d\<lparr>dg_i := dg_i d + 1\<rparr>)
      else res_bind (write_at (dg_buffer d) (dg_v d) [s ! dg_i d]) (\<lambda>b.
             digest_value s (d\<lparr>dg_buffer := b, dg_v := dg_v d + 1, dg_i := dg_i d + 1\<rparr>)))"
  by pat_completeness auto
termination
  by (relation "measure (\<lambda>(s, d). length s - dg_i d)") auto

declare digest_key.simps [simp del] digest_value.simps [simp del]

definition digest_step ::
  "sview \<Rightarrow> digest_local \<Rightarrow> (string, string) httpmap \<Rightarrow> (digest_local \<times> (string, string) httpmap) res" where
  "digest_step s d da =
     (if dg_state d = 0 then res_map (\<lambda>d. (d, da)) (digest_key s d)
      else if dg_state d = 1 then
        res_map (\<lambda>d. (d\<lparr>dg_k := 0, dg_v := 0, dg_state := 2\<rparr>,
                      hm_add da (take (dg_k d) (dg_buffer d)) (take (dg_v d - dg_k d) (drop (dg_k d) (dg_buffer d)))))
          (digest_value s (if s ! dg_i d = CHR 0x22 then d\<lparr>dg_i := dg_i d + 1\<rparr> else d))
      else if dg_i d + 1 < length s \<and> s ! dg_i d = CHR '','' \<and> s ! (dg_i d + 1) = CHR '' ''
        then Inr (d\<lparr>dg_i := dg_i d + 2, dg_state := 0\<rparr>, da)
      else Inr (d, da))"

fun digest_loop ::
  "nat \<Rightarrow> sview \<Rightarrow> digest_local \<Rightarrow> (string, string) httpmap \<Rightarrow> (string, string) httpmap run" where
  "digest_loop fuel s d da =
     (if \<not> dg_i d < length s then Some (Inr da)
      else case fuel of
        0 \<Rightarrow> None
      | Suc fuel \<Rightarrow> run_bind (Some (digest_step s d da)) (\<lambda>(d', da'). digest_loop fuel s d' da'))"

declare digest_loop.simps [simp del]

definition digest_start :: digest_local where
  "digest_start = \<lparr>dg_state = 0, dg_i = 0, dg_k = 0, dg_v = 0, dg_buffer = replicate 128 NUL\<rparr>"

fun method_name :: "http_method option \<Rightarrow> string" where
  "method_name (Some GET) = ''GET''"
| "method_name (Some POST) = ''POST''"
| "method_name (Some HEAD) = ''HEAD''"
| "method_name None = []"

definition parseAuthorization :: "nat \<Rightarrow> env \<Rightarrow> request \<Rightarrow> request run" where
  "parseAuthorization fuel ev r =
     (case hd_get (rq_header r) ''Authorization'' of
        None \<Rightarrow> Some (Inr r)
      | Some x \<Rightarrow>
          if starts_with x ''Basic'' then
            Some (res_bind (sv_remove_prefix x 6) (\<lambda>auth.
                  res_bind (base64_decode (ev_c4 ev) auth) (\<lambda>user_pass.
                  let pos = sv_find_first_of user_pass (CHR '':'')
                  in res_bind (sv_substr user_pass 0 pos) (\<lambda>user.
                     res_bind (sv_substr user_pass (size_add pos 1) npos) (\<lambda>pass.
                     res_map (\<lambda>a. r\<lparr>rq_auth := Some a\<rparr>) (HttpBasicAuth (ev_md5 ev) (ev_store ev) user pass))))))
          else if starts_with x ''Digest'' then
            run_bind (Some (sv_remove_prefix x 7)) (\<lambda>auth.
            run_bind (digest_loop fuel auth digest_start (rq_da r)) (\<lambda>da.
              let da = hm_add da ''method'' (method_name (rq_method r))
              in Some (res_map (\<lambda>a. r\<lparr>rq_da := da, rq_auth := Some a\<rparr>) (HttpDigestAuth (ev_md5 ev) (ev_store ev) x da))))
          else Some (Inr r))"


section \<open>The body and the whole request\<close>

definition buf_tail :: "buffer \<Rightarrow> string" where
  \<comment> \<open>the memory after the readable bytes\<close>
  "buf_tail b = drop (windex b) (buf_data b)"

definition parseRequestContent :: "nat \<Rightarrow> buffer \<Rightarrow> request \<Rightarrow> (buffer \<times> request) run" where
  "parseRequestContent fuel b r =
     (let content = buf_view b;
          r = r\<lparr>rq_post_data := rq_post_data r @ content\<rparr>
      in if rq_has_multipart r
         then if \<not> ends_with content (''--'' @ mp_bd (rq_multipart r) @ ''--'' @ CRLF)
              then Some (Inr (b, r\<lparr>rq_ret_code := AGAIN_CONTENT\<rparr>))
              else run_bind (mp_parse fuel (buf_tail b) (rq_multipart r) content) (\<lambda>mp.
                     Some (Inr (retiredAll b, r\<lparr>rq_multipart := mp, rq_ret_code := REQUEST_CONTENT_DONE\<rparr>)))
         else run_bind (Some (parseKeyValue content (buf_tail b) (CHR ''='') (CHR ''&'') (rq_form r))) (\<lambda>form.
                Some (Inr (retiredAll b, r\<lparr>rq_form := form, rq_ret_code := REQUEST_CONTENT_DONE\<rparr>))))"

definition headerOptions :: "env \<Rightarrow> request \<Rightarrow> request" where
  \<comment> \<open>keep-alive and compression, from the version and the header\<close>
  "headerOptions ev r =
     (let r = (if rq_version r \<noteq> Some HTTP_1_0 then r\<lparr>rq_keepalive := True\<rparr> else r);
          r = (case hd_get (rq_header r) ''Connection'' of
                 None \<Rightarrow> r
               | Some conn \<Rightarrow>
                   let v = ev_dangling ev (toLowers conn)
                   in if rq_version r = Some HTTP_1_0 \<and> starts_with v ''keep-alive'' then r\<lparr>rq_keepalive := True\<rparr>
                      else if starts_with v ''close'' then r\<lparr>rq_keepalive := False\<rparr>
                      else r)
      in case hd_get (rq_header r) ''Accept-Encoding'' of
           None \<Rightarrow> r
         | Some enc \<Rightarrow> r\<lparr>rq_compressed := (search ''gzip'' enc \<noteq> None)\<rparr>)"

fun parse_loop :: "nat \<Rightarrow> nat \<Rightarrow> env \<Rightarrow> buffer \<Rightarrow> request \<Rightarrow> (ret_code \<times> buffer \<times> request) run" where
  \<comment> \<open>the loop of \<open>parseRequest\<close>: its turns and the fuel of the parsers it calls\<close>
  "parse_loop 0 fuel ev b r = None"
| "parse_loop (Suc n) fuel ev b r =
     (case rq_ret_code r of
        NO_REQUEST \<Rightarrow> run_bind (Some (parseRequestLine b r)) (\<lambda>(b, r). parse_loop n fuel ev b r)
      | REQUEST_LINE_DONE \<Rightarrow> run_bind (Some (parseRequestHeader b r)) (\<lambda>(b, r).
          if rq_ret_code r = AGAIN_HEADER then Some (Inr (AGAIN_HEADER, b, r)) else parse_loop n fuel ev b r)
      | AGAIN_HEADER \<Rightarrow> run_bind (Some (parseRequestHeader b r)) (\<lambda>(b, r).
          if rq_ret_code r = AGAIN_HEADER then Some (Inr (AGAIN_HEADER, b, r)) else parse_loop n fuel ev b r)
      | REQUEST_HEADER_DONE \<Rightarrow>
          run_bind (Some (parseUrlQuery r)) (\<lambda>r.
          if hd_empty (rq_header r) \<and> rq_version r \<noteq> Some HTTP_1_0
          then Some (Inr (REQUEST_CONTENT_DONE, b, r\<lparr>rq_keepalive := True\<rparr>))
          else run_bind (Some (parseCookie (headerOptions ev r))) (\<lambda>r.
               run_bind (Some (parseMultiPartData r)) (\<lambda>r.
               run_bind (parseAuthorization fuel ev r) (\<lambda>r.
               run_bind (parseRequestContent fuel b r) (\<lambda>(b, r).
                 if rq_ret_code r = AGAIN_CONTENT then Some (Inr (AGAIN_CONTENT, b, r)) else parse_loop n fuel ev b r)))))
      | AGAIN_CONTENT \<Rightarrow> run_bind (parseRequestContent fuel b r) (\<lambda>(b, r).
          if rq_ret_code r = AGAIN_CONTENT then Some (Inr (AGAIN_CONTENT, b, r)) else parse_loop n fuel ev b r)
      | BAD_REQUEST \<Rightarrow> Some (Inr (BAD_REQUEST, b, r))
      | REQUEST_CONTENT_DONE \<Rightarrow> Some (Inr (REQUEST_CONTENT_DONE, b, r)))"

definition parseRequest :: "nat \<Rightarrow> env \<Rightarrow> buffer \<Rightarrow> request \<Rightarrow> (ret_code \<times> buffer \<times> request) run" where
  "parseRequest fuel ev b r = parse_loop 4 fuel ev b r"

section \<open>Parsing keys and values\<close>

fun pairs_text :: "char \<Rightarrow> char \<Rightarrow> string \<Rightarrow> (string \<times> string) list \<Rightarrow> string" where
  "pairs_text s1 s2 gap [] = []"
| "pairs_text s1 s2 gap [(k, v)] = k @ s1 # v"
| "pairs_text s1 s2 gap ((k, v) # kv # kvs) = k @ s1 # v @ s2 # gap @ pairs_text s1 s2 gap (kv # kvs)"

definition pair_ok :: "char \<Rightarrow> char \<Rightarrow> string \<times> string \<Rightarrow> bool" where
  "pair_ok s1 s2 = (\<lambda>(k, v). s1 \<notin> set k \<and> s2 \<notin> set k \<and> s2 \<notin> set v \<and> (k = [] \<or> hd k \<noteq> CHR '' ''))"

lemma skip_blanks_gap:
  "c \<noteq> CHR '' '' \<Longrightarrow> set gap \<subseteq> {CHR '' ''} \<Longrightarrow>
     skip_blanks (p @ x # gap @ c # t) (length p) = Inr (length p + length gap)"
proof (induction gap arbitrary: p x)
  case Nil
  have "at (p @ [x, c] @ t) (length p + 1) = Inr c" by (simp add: at_def nth_append)
  with Nil show ?case by (subst skip_blanks.simps) simp
next
  case (Cons g gap)
  then have g: "g = CHR '' ''" by simp
  have "at (p @ x # (g # gap) @ c # t) (length p + 1) = Inr g" by (simp add: at_def nth_append)
  moreover have "skip_blanks (p @ x # (g # gap) @ c # t) (length p + 1) = Inr (length p + length (g # gap))"
    using Cons.IH [of "p @ [x]" g] Cons.prems by simp
  ultimately show ?case using g by (subst skip_blanks.simps) simp
qed

lemma find_first_hit: "c \<notin> set s \<Longrightarrow> sv_find_first_of (s @ c # t) c = length s"
proof -
  assume "c \<notin> set s"
  then have "\<forall>x \<in> set s. \<not> x = c" by auto
  then have "search_if (\<lambda>x. x = c) (s @ c # t) = Some (length s)" by (rule search_if_append_hit) simp
  then show ?thesis by (simp add: sv_find_first_of_def or_npos_def)
qed

lemma find_first_miss: "c \<notin> set s \<Longrightarrow> sv_find_first_of s c = npos"
proof -
  assume "c \<notin> set s"
  then have "search_if (\<lambda>x. x = c) s = None" by (auto simp: search_if_None)
  then show ?thesis by (simp add: sv_find_first_of_def or_npos_def)
qed

lemma npos_eq: "npos = 18446744073709551615"
  by (simp add: npos_def)

lemma value_read:
  assumes "length (k @ s1 # v) < npos" and "s1 \<notin> set k"
    and "pos = length (k @ s1 # v) \<or> pos = npos"
  shows "sv_substr (k @ s1 # v) 0 (sv_find_first_of (k @ s1 # v) s1) = Inr k"
    and "sv_substr (k @ s1 # v) (size_add (sv_find_first_of (k @ s1 # v) s1) 1)
      (size_sub (size_sub pos (sv_find_first_of (k @ s1 # v) s1)) 1) = Inr v"
proof -
  have f: "sv_find_first_of (k @ s1 # v) s1 = length k" using assms(2) by (rule find_first_hit)
  have a: "size_add (length k) 1 = length k + 1" using assms(1) by (simp add: size_add_small npos_eq)
  have "length v \<le> size_sub (size_sub pos (length k)) 1"
  proof -
    have "length k \<le> pos" "pos < size_mod" using assms by (auto simp: npos_eq)
    then have "size_sub pos (length k) = pos - length k" by (rule size_sub_small)
    moreover have "length v + 1 \<le> pos - length k" using assms(1,3) by (auto simp: npos_eq)
    moreover have "pos - length k < size_mod" using \<open>pos < size_mod\<close> by simp
    ultimately show ?thesis by (simp add: size_sub_small)
  qed
  then show "sv_substr (k @ s1 # v) 0 (sv_find_first_of (k @ s1 # v) s1) = Inr k"
    and "sv_substr (k @ s1 # v) (size_add (sv_find_first_of (k @ s1 # v) s1) 1)
      (size_sub (size_sub pos (sv_find_first_of (k @ s1 # v) s1)) 1) = Inr v"
    unfolding f a by (simp_all add: sv_substr_def)
qed

lemma parseKeyValue_last:
  assumes "pair_ok s1 s2 (k, v)" and "length (k @ s1 # v) < npos" and "s1 \<noteq> s2"
  shows "parseKeyValue (k @ s1 # v) tail s1 s2 c = Inr (hm_add c (urlDecode k) (urlDecode v))"
proof -
  have "s2 \<notin> set (k @ s1 # v)" using assms(1,3) by (auto simp: pair_ok_def)
  then have f: "sv_find_first_of (k @ s1 # v) s2 = npos" by (rule find_first_miss)
  have kv: "sv_substr (k @ s1 # v) 0 npos = Inr (k @ s1 # v)"
    using assms(2) by (simp add: sv_substr_def)
  have "s1 \<notin> set k" using assms(1) by (simp add: pair_ok_def)
  from value_read [OF assms(2) this, of npos]
  have v: "sv_substr (k @ s1 # v) 0 (sv_find_first_of (k @ s1 # v) s1) = Inr k"
    "sv_substr (k @ s1 # v) (size_add (sv_find_first_of (k @ s1 # v) s1) 1)
      (size_sub (size_sub npos (sv_find_first_of (k @ s1 # v) s1)) 1) = Inr v" by simp_all
  have r: "sv_remove_prefix (k @ s1 # v) (length (k @ s1 # v)) = Inr []" by (simp add: sv_remove_prefix_def)
  have ne: "k @ s1 # v \<noteq> []" by simp
  have e: "parseKeyValue [] tail s1 s2 c' = Inr c'" for c' by (subst parseKeyValue.simps) simp
  show ?thesis
    by (subst parseKeyValue.simps) (simp only: ne if_False Let_def f kv v r e res_bind_Inr if_True simp_thms)
qed

lemma parseKeyValue_step:
  assumes ok: "pair_ok s1 s2 (k, v)" and len: "length (k @ s1 # v) < npos" and "s1 \<noteq> s2"
    and gap: "set gap \<subseteq> {CHR '' ''}" and c: "ch \<noteq> CHR '' ''"
  shows "parseKeyValue (k @ s1 # v @ s2 # gap @ ch # t) tail s1 s2 c =
     parseKeyValue (ch # t) tail s1 s2 (hm_add c (urlDecode k) (urlDecode v))"
proof -
  let ?kv = "k @ s1 # v" let ?s = "?kv @ s2 # gap @ ch # t"
  have n2: "s2 \<notin> set ?kv" and n1: "s1 \<notin> set k" using ok \<open>s1 \<noteq> s2\<close> by (auto simp: pair_ok_def)
  have f: "sv_find_first_of ?s s2 = length ?kv" using n2 by (rule find_first_hit)
  have kv: "sv_substr ?s 0 (length ?kv) = Inr ?kv" by (simp add: sv_substr_def)
  from value_read [OF len n1, of "length ?kv"]
  have v: "sv_substr ?kv 0 (sv_find_first_of ?kv s1) = Inr k"
    "sv_substr ?kv (size_add (sv_find_first_of ?kv s1) 1)
      (size_sub (size_sub (length ?kv) (sv_find_first_of ?kv s1)) 1) = Inr v" by simp_all
  have p: "length ?kv \<noteq> npos" using len by simp
  have sk: "skip_blanks (?s @ tail) (length ?kv) = Inr (length ?kv + length gap)"
    using skip_blanks_gap [OF c gap, of ?kv s2 "t @ tail"] by simp
  have r: "sv_remove_prefix ?s (Suc (length ?kv + length gap)) = Inr (ch # t)"
    by (simp add: sv_remove_prefix_def)
  have ne: "?s \<noteq> []" by simp
  have "parseKeyValue ?s tail s1 s2 c = parseKeyValue (ch # t) tail s1 s2 (hm_add c (urlDecode k) (urlDecode v))"
    by (subst parseKeyValue.simps) (simp only: ne if_False Let_def f kv v r sk p res_bind_Inr res_map_Inr simp_thms)
  then show ?thesis by simp
qed

lemma parseKeyValue_pairs:
  assumes "\<forall>kv \<in> set kvs. pair_ok s1 s2 kv" and "length (pairs_text s1 s2 gap kvs) < npos"
    and "s1 \<noteq> s2" "s1 \<noteq> CHR '' ''" and "set gap \<subseteq> {CHR '' ''}"
  shows "parseKeyValue (pairs_text s1 s2 gap kvs) tail s1 s2 c =
     Inr (foldl (\<lambda>c (k, v). hm_add c (urlDecode k) (urlDecode v)) c kvs)"
  using assms(1,2)
proof (induction kvs arbitrary: c)
  case Nil
  show ?case by (subst parseKeyValue.simps) simp
next
  case (Cons kv kvs)
  obtain k v where kv: "kv = (k, v)" by fastforce
  then have ok: "pair_ok s1 s2 (k, v)" using Cons.prems(1) by simp
  show ?case
  proof (cases kvs)
    case Nil
    then show ?thesis using kv ok Cons.prems(2) parseKeyValue_last [OF ok _ assms(3)] by simp
  next
    case (Cons kv' kvs')
    have t: "pairs_text s1 s2 gap (kv # kvs) = k @ s1 # v @ s2 # gap @ pairs_text s1 s2 gap kvs"
      by (simp add: Cons kv)
    obtain k' v' where kv': "kv' = (k', v')" by fastforce
    have "pair_ok s1 s2 (k', v')" using Cons.prems(1) Cons kv' by simp
    moreover obtain rest where "pairs_text s1 s2 gap kvs = k' @ s1 # rest"
      using Cons kv' by (cases kvs') auto
    ultimately obtain ch r where ch: "pairs_text s1 s2 gap kvs = ch # r" "ch \<noteq> CHR '' ''"
      using assms(4) by (cases k') (auto simp: pair_ok_def)
    have "length (k @ s1 # v) < npos" using Cons.prems(2) t by simp
    from parseKeyValue_step [OF ok this assms(3,5) ch(2)]
    have "parseKeyValue (pairs_text s1 s2 gap (kv # kvs)) tail s1 s2 c =
        parseKeyValue (pairs_text s1 s2 gap kvs) tail s1 s2 (hm_add c (urlDecode k) (urlDecode v))"
      unfolding t ch(1) by simp
    also have "\<dots> = Inr (foldl (\<lambda>c (k, v). hm_add c (urlDecode k) (urlDecode v)) (hm_add c (urlDecode k) (urlDecode v)) kvs)"
      using Cons.prems t by (intro Cons.IH) auto
    finally show ?thesis by (simp add: kv)
  qed
qed

text \<open>Percent-encoded keys and values, and plain cookies, are such pairs.\<close>

lemma pair_ok_urlEncode: "pair_ok (CHR ''='') (CHR ''&'') (urlEncode k, urlEncode v)"
proof -
  have *: "x \<notin> set (urlEncode s)" if "x \<in> {CHR ''='', CHR ''&'', CHR '' ''}" for x s
    using urlEncode_alphabet [of x s] that
    by (auto simp: url_safe_def isalnum_def isupper_def islower_def isdigit_def isxdigit_def)
  then have "urlEncode k = [] \<or> hd (urlEncode k) \<noteq> CHR '' ''" by (metis hd_in_set insertCI)
  then show ?thesis using * by (simp add: pair_ok_def)
qed

definition query_text :: "(string \<times> string) list \<Rightarrow> string" where
  "query_text kvs = pairs_text (CHR ''='') (CHR ''&'') [] (map (\<lambda>(k, v). (urlEncode k, urlEncode v)) kvs)"

lemma parse_query_pairs:
  "length (query_text kvs) < npos \<Longrightarrow>
     parseKeyValue (query_text kvs) tail (CHR ''='') (CHR ''&'') c = Inr (foldl (\<lambda>c (k, v). hm_add c k v) c kvs)"
proof -
  let ?kvs = "map (\<lambda>(k, v). (urlEncode k, urlEncode v)) kvs"
  assume "length (query_text kvs) < npos"
  then have "parseKeyValue (query_text kvs) tail (CHR ''='') (CHR ''&'') c =
      Inr (foldl (\<lambda>c (k, v). hm_add c (urlDecode k) (urlDecode v)) c ?kvs)"
    unfolding query_text_def by (intro parseKeyValue_pairs) (auto simp: pair_ok_urlEncode query_text_def)
  also have "foldl (\<lambda>c (k, v). hm_add c (urlDecode k) (urlDecode v)) c ?kvs = foldl (\<lambda>c (k, v). hm_add c k v) c kvs"
    by (induction kvs arbitrary: c) (auto simp: url_roundtrip)
  finally show ?thesis .
qed

text \<open>
  C24. A form or query in \<open>application/x-www-form-urlencoded\<close> format is parsed to exactly its
  pairs, whatever the keys and values contain and whatever memory follows the text.
\<close>

theorem parse_query_text:
  assumes "length (query_text kvs) < npos"
  shows "parseKeyValue (query_text kvs) tail (CHR ''='') (CHR ''&'') c = Inr (foldl (\<lambda>c (k, v). hm_add c k v) c kvs)"
  using assms by (rule parse_query_pairs)

theorem parse_query_text_witness:
  "parseKeyValue (query_text [(''a&b'', ''1=2''), ('' '', ''%'')]) [] (CHR ''='') (CHR ''&'') hm_new =
     Inr [''a&b'' \<mapsto> ''1=2'', '' '' \<mapsto> ''%'']"
proof -
  have "length (query_text [(''a&b'', ''1=2''), ('' '', ''%'')]) < npos"
    by (simp add: query_text_def npos_eq url_safe_def escape_def isalnum_def isupper_def islower_def isdigit_def)
  from parse_query_text [OF this, of "[]" hm_new] show ?thesis by (simp add: hm_add_def hm_new_def)
qed

lemma urlDecode_plain: "CHR ''%'' \<notin> set s \<Longrightarrow> urlDecode s = s"
  by (induction s) (auto simp: urlDecode_other)

lemma ck_pairs_text: "i + length es = n \<Longrightarrow> ck_pairs i n es = pairs_text (CHR ''='') (CHR '';'') '' '' es"
proof (induction es arbitrary: i)
  case (Cons e es)
  then show ?case by (cases es; cases e) auto
qed simp

lemma foldl_enumerates:
  assumes "distinct (map fst es)"
  shows "foldl (\<lambda>c (k, v). hm_add c k v) m es = m ++ map_of es"
  using assms
proof (induction es arbitrary: m)
  case (Cons e es)
  then have "map_of es (fst e) = None" by (auto simp: map_of_eq_None_iff)
  with Cons show ?case by (auto simp: hm_add_def map_add_def fun_eq_iff split: prod.splits option.splits)
qed simp

definition cookie_pair_ok :: "string \<times> string \<Rightarrow> bool" where
  "cookie_pair_ok kv \<longleftrightarrow> pair_ok (CHR ''='') (CHR '';'') kv \<and> CHR ''%'' \<notin> set (fst kv) \<and> CHR ''%'' \<notin> set (snd kv)"

text \<open>A pair without separators and percent signs is parsed as it stands.\<close>

lemma parse_cookie_pairs:
  assumes "\<forall>kv \<in> set es. cookie_pair_ok kv" and "length (pairs_text (CHR ''='') (CHR '';'') '' '' es) < npos"
  shows "parseKeyValue (pairs_text (CHR ''='') (CHR '';'') '' '' es) tail (CHR ''='') (CHR '';'') c =
     Inr (foldl (\<lambda>c (k, v). hm_add c k v) c es)"
proof -
  have "parseKeyValue (pairs_text (CHR ''='') (CHR '';'') '' '' es) tail (CHR ''='') (CHR '';'') c =
      Inr (foldl (\<lambda>c (k, v). hm_add c (urlDecode k) (urlDecode v)) c es)"
    using assms by (intro parseKeyValue_pairs) (auto simp: cookie_pair_ok_def)
  also have "foldl (\<lambda>c (k, v). hm_add c (urlDecode k) (urlDecode v)) c es = foldl (\<lambda>c (k, v). hm_add c k v) c es"
    using assms(1) by (intro foldl_cong) (auto simp: cookie_pair_ok_def urlDecode_plain)
  finally show ?thesis .
qed

text \<open>
  Cookies survive the trip to the client and back: whatever order the map is iterated in,
  parsing the printed pairs as a \<open>Cookie\<close> header gives the map back. Keys and values have no
  separators and no percent sign (values are not escaped when printed, but are unescaped when read).
\<close>

theorem cookie_roundtrip:
  assumes "enumerates es m" and "\<forall>kv \<in> set es. cookie_pair_ok kv"
    and "length (ck_toString es (ck_new\<lparr>ck_map := m\<rparr>)) < npos"
  shows "parseKeyValue (ck_toString es (ck_new\<lparr>ck_map := m\<rparr>)) tail (CHR ''='') (CHR '';'') hm_new = Inr m"
proof -
  have t: "ck_toString es (ck_new\<lparr>ck_map := m\<rparr>) = pairs_text (CHR ''='') (CHR '';'') '' '' es"
    by (simp add: ck_toString_def ck_new_def ck_pairs_text)
  have "foldl (\<lambda>c (k, v). hm_add c k v) hm_new es = m"
    using assms(1) by (simp add: foldl_enumerates enumerates_def hm_new_def)
  then show ?thesis unfolding t using parse_cookie_pairs [OF assms(2) assms(3) [unfolded t]] by simp
qed

theorem cookie_roundtrip_witness:
  "parseKeyValue (ck_toString [(''b'', ''2''), (''a'', ''1'')] (ck_new\<lparr>ck_map := [''a'' \<mapsto> ''1'', ''b'' \<mapsto> ''2'']\<rparr>)) [] (CHR ''='') (CHR '';'') hm_new =
     Inr [''a'' \<mapsto> ''1'', ''b'' \<mapsto> ''2'']"
  by (rule cookie_roundtrip) (simp_all add: enumerates_def cookie_pair_ok_def pair_ok_def npos_eq ck_toString_def ck_new_def fun_upd_twist)

section \<open>The header lines\<close>

text \<open>
  The lines that \<open>parseRequestHeader\<close> accepts: as it skips exactly one character after the
  colon, a line that ends with the colon makes \<open>substr\<close> throw.
\<close>

lemma search_append: "search p s = Some i \<Longrightarrow> search p (s @ t) = Some i"
proof (induction s arbitrary: i)
  case Nil
  then show ?case by (cases t) (auto simp: starts_with_def split: if_splits)
next
  case (Cons x xs)
  show ?case
  proof (cases "starts_with (x # xs) p")
    case True
    then have "starts_with ((x # xs) @ t) p" using starts_with_extend starts_with_length by blast
    with True Cons.prems show ?thesis by simp
  next
    case False
    with Cons.prems obtain j where j: "search p xs = Some j" "i = Suc j" by auto
    then have "length p \<le> length (x # xs)" using search_bound by fastforce
    then have "\<not> starts_with ((x # xs) @ t) p" using False starts_with_extend by blast
    with j Cons.IH show ?thesis by simp
  qed
qed

definition at_crlf :: "sview \<Rightarrow> bool" where
  "at_crlf s \<longleftrightarrow> 2 \<le> length s \<and> s ! 0 = CHR 0x0D \<and> s ! 1 = CHR 0x0A"

text \<open>One line of the header: its key, its value and its length with the line break.\<close>

definition header_line :: "sview \<Rightarrow> nat \<Rightarrow> (string \<times> string) res option" where
  "header_line s pos =
     (case search_if (\<lambda>c. c = CHR '':'') (take pos s) of
        None \<Rightarrow> None
      | Some pos2 \<Rightarrow>
          Some (res_bind (sv_substr (take pos s) 0 pos2) (\<lambda>key.
            res_map (Pair key) (sv_substr (take pos s) (pos2 + 2) (size_sub (size_sub pos pos2) 2)))))"

lemma header_loop_unfold:
  "header_loop s b h =
     (if at_crlf s then Inr (REQUEST_HEADER_DONE, retired b 2, h)
      else case search CRLF s of
        None \<Rightarrow> Inr (AGAIN_HEADER, b, h)
      | Some pos \<Rightarrow> (case header_line s pos of
          None \<Rightarrow> Inr (BAD_REQUEST, b, h)
        | Some kv \<Rightarrow> res_bind kv (\<lambda>(key, value).
            header_loop (drop (pos + 2) s) (retired b (pos + 2)) (hd_add h key value))))"
  by (subst header_loop.simps)
    (simp add: at_crlf_def header_line_def res_bind_assoc res_map_def split: option.splits)

definition seen :: "ret_code \<times> buffer \<times> header \<Rightarrow> ret_code \<times> string \<times> header" where
  "seen = (\<lambda>(c, b, h). (c, buf_view b, h))"

lemma header_loop_inv:
  assumes "header_loop s b h = Inr (c, b', h')" and "buf_inv b" and "buf_room b n"
  shows "buf_inv b' \<and> buf_room b' n"
  using assms
proof (induction s b h rule: header_loop.induct)
  case (1 s b h)
  show ?case
  proof (cases "at_crlf s")
    case True
    with 1 show ?thesis by (auto simp: header_loop_unfold [of s] bq.room_retire)
  next
    case False
    show ?thesis
    proof (cases "search CRLF s")
      case None
      with False 1 show ?thesis by (simp add: header_loop_unfold [of s])
    next
      case (Some pos)
      show ?thesis
      proof (cases "header_line s pos")
        case None
        with False Some 1 show ?thesis by (simp add: header_loop_unfold [of s])
      next
        case kv: (Some kv)
        with False Some "1.prems" obtain key val where r: "kv = Inr (key, val)"
            "header_loop (drop (pos + 2) s) (retired b (pos + 2)) (hd_add h key val) = Inr (c, b', h')"
          by (auto simp: header_loop_unfold [of s] res_simps)
        obtain pos2 where p: "search_if (\<lambda>c. c = CHR '':'') (take pos s) = Some pos2"
            "sv_substr (take pos s) 0 pos2 = Inr key"
            "sv_substr (take pos s) (pos2 + 2) (size_sub (size_sub pos pos2) 2) = Inr val"
          using kv r(1) by (auto simp: header_line_def res_simps split: option.splits)
        have "\<not> (2 \<le> length s \<and> s ! 0 = CHR 0x0D \<and> s ! 1 = CHR 0x0A)" using False by (simp add: at_crlf_def)
        from "1.IH" [OF this Some p r(2)] "1.prems" show ?thesis by (simp add: bq.room_retire)
      qed
    qed
  qed
qed

lemma res_map_bind: "res_map f (res_bind m g) = res_bind m (\<lambda>x. res_map f (g x))"
  by (cases m) auto

text \<open>The result depends on the buffer only through its readable bytes.\<close>

lemma header_loop_view:
  assumes "buf_inv b" "buf_inv b'" "buf_view b = buf_view b'"
  shows "res_map seen (header_loop s b h) = res_map seen (header_loop s b' h)"
  using assms
proof (induction "length s" arbitrary: s b b' h rule: less_induct)
  case less
  show ?case
  proof (cases "search CRLF s")
    case None
    with less.prems show ?thesis by (simp add: header_loop_unfold [of s] seen_def)
  next
    case (Some pos)
    then have "length (drop (pos + 2) s) < length s" using search_CRLF_Cons by fastforce
    with less.prems have "res_map seen (header_loop (drop (pos + 2) s) (retired b (pos + 2)) h') =
        res_map seen (header_loop (drop (pos + 2) s) (retired b' (pos + 2)) h')" for h'
      by (intro less.hyps) simp_all
    with Some less.prems show ?thesis
      by (simp add: header_loop_unfold [of s] res_map_bind case_prod_beta split: option.splits) (simp add: seen_def)
  qed
qed

lemma at_crlf_append: "2 \<le> length s \<Longrightarrow> at_crlf (s @ t) \<longleftrightarrow> at_crlf s"
  by (auto simp: at_crlf_def nth_append)

text \<open>A header that stops in the middle is continued when the rest arrives.\<close>

lemma header_loop_resume:
  assumes "header_loop s b h = Inr (AGAIN_HEADER, b1, h1)" and "buf_inv b" "buf_view b = s"
    and "buf_inv bt" "buf_view bt = s @ t" and "buf_inv b1t" "buf_view b1t = buf_view b1 @ t"
  shows "res_map seen (header_loop (s @ t) bt h) = res_map seen (header_loop (buf_view b1 @ t) b1t h1)"
  using assms
proof (induction "length s" arbitrary: s b h bt rule: less_induct)
  case less
  have nc: "\<not> at_crlf s" using less.prems(1) by (auto simp: header_loop_unfold [of s])
  show ?case
  proof (cases "search CRLF s")
    case None
    with nc less.prems(1) have "b1 = b" "h1 = h" by (auto simp: header_loop_unfold [of s])
    with less.prems show ?thesis by (auto intro: header_loop_view)
  next
    case (Some pos)
    then have pos: "pos + 2 \<le> length s" by (rule search_CRLF_Cons)
    obtain key val where kv: "header_line s pos = Some (Inr (key, val))"
        and rec: "header_loop (drop (pos + 2) s) (retired b (pos + 2)) (hd_add h key val) = Inr (AGAIN_HEADER, b1, h1)"
      using less.prems(1) nc Some by (auto simp: header_loop_unfold [of s] res_simps split: option.splits)
    have tk: "take pos (s @ t) = take pos s" using pos by simp
    have hl: "header_line (s @ t) pos = header_line s pos" unfolding header_line_def tk ..
    have st: "search CRLF (s @ t) = Some pos" "\<not> at_crlf (s @ t)" "header_line (s @ t) pos = Some (Inr (key, val))"
      using search_append [OF Some] nc pos kv by (simp_all add: at_crlf_append hl)
    have "res_map seen (header_loop (s @ t) bt h) =
        res_map seen (header_loop (drop (pos + 2) s @ t) (retired bt (pos + 2)) (hd_add h key val))"
      using st pos by (simp add: header_loop_unfold [of "s @ t"])
    also have "\<dots> = res_map seen (header_loop (buf_view b1 @ t) b1t h1)"
      using less.prems pos rec by (intro less.hyps [of "drop (pos + 2) s" "retired b (pos + 2)"]) auto
    finally show ?thesis .
  qed
qed

text \<open>
  C22. The header may arrive in pieces: when \<open>parseRequestHeader\<close> has asked for more, appending the
  rest and calling it again gives the same code, the same header and the same unread bytes as one
  call on the whole text.
\<close>

theorem header_arrives_in_pieces:
  assumes "buf_inv b" and "buf_room b (length t)"
    and "parseRequestHeader b r = Inr (b1, r1)" and "rq_ret_code r1 = AGAIN_HEADER"
    and "append_buf b t = Inr bt" and "append_buf b1 t = Inr b1t"
  shows "res_map (\<lambda>(b, r). (buf_view b, r)) (parseRequestHeader bt r) =
     res_map (\<lambda>(b, r). (buf_view b, r)) (parseRequestHeader b1t r1)"
proof -
  from assms(3,4) obtain h1 where l: "header_loop (buf_view b) b (rq_header r) = Inr (AGAIN_HEADER, b1, h1)"
      and r1: "r1 = r\<lparr>rq_ret_code := AGAIN_HEADER, rq_header := h1\<rparr>"
    by (auto simp: parseRequestHeader_def res_simps)
  from header_loop_inv [OF l assms(1,2)] have b1: "buf_inv b1" "buf_room b1 (length t)" by simp_all
  have bt: "buf_inv bt" "buf_view bt = buf_view b @ t"
    using append_buf_ok [OF assms(1), of t 0] assms(2,5) by auto
  have b1t: "buf_inv b1t" "buf_view b1t = buf_view b1 @ t"
    using append_buf_ok [OF b1(1), of t 0] b1(2) assms(6) by auto
  from header_loop_resume [OF l assms(1) refl bt b1t]
  have eq: "res_map seen (header_loop (buf_view bt) bt (rq_header r)) = res_map seen (header_loop (buf_view b1t) b1t h1)"
    by (simp only: bt b1t)
  have code: "res_map (\<lambda>(b, r). (buf_view b, r)) (res_map (\<lambda>(code, b', h). (b', r\<lparr>rq_ret_code := code, rq_header := h\<rparr>)) x) =
      res_map (\<lambda>(code, v, h). (v, r\<lparr>rq_ret_code := code, rq_header := h\<rparr>)) (res_map seen x)" for x
    by (cases x) (auto simp: seen_def)
  show ?thesis
    unfolding parseRequestHeader_def r1 by (simp add: code eq)
qed

theorem header_arrives_in_pieces_witness:
  "\<exists>b b1 bt b1t r1. buf_inv b \<and> parseRequestHeader b rq_new = Inr (b1, r1) \<and> rq_ret_code r1 = AGAIN_HEADER \<and>
     append_buf b (CRLF @ CRLF) = Inr bt \<and> append_buf b1 (CRLF @ CRLF) = Inr b1t \<and>
     res_map (\<lambda>(b, r). (buf_view b, r)) (parseRequestHeader bt rq_new) =
     res_map (\<lambda>(b, r). (buf_view b, r)) (parseRequestHeader b1t r1)"
proof -
  let ?t = "CRLF @ CRLF"
  let ?b0 = "Buffer_new 4"
  have b0: "buf_inv ?b0" "buf_room ?b0 (length ''Host: a'' + length ?t)" "buf_view ?b0 = []"
    by (simp_all add: buf_inv_new max_size_def buf_room_def CRLF_def) (simp add: Buffer_new_def)
  from append_buf_ok [OF b0(1,2)] b0(3) obtain b where b: "buf_inv b" "buf_room b (length ?t)" "buf_view b = ''Host: a''"
    by auto
  from append_buf_ok [OF b(1), of ?t 0] b(2) obtain bt where bt: "append_buf b ?t = Inr bt" by auto
  have h: "parseRequestHeader b rq_new = Inr (b, rq_new\<lparr>rq_ret_code := AGAIN_HEADER, rq_header := []\<rparr>)"
    unfolding parseRequestHeader_def b(3)
    by (subst header_loop_unfold) (simp add: at_crlf_def CRLF_def starts_with_def rq_new_def)
  have again: "rq_ret_code (rq_new\<lparr>rq_ret_code := AGAIN_HEADER, rq_header := []\<rparr>) = AGAIN_HEADER" by simp
  from header_arrives_in_pieces [OF b(1,2) h again bt bt] b(1) h bt show ?thesis by fastforce
qed

section \<open>Whole requests\<close>

text \<open>The number of turns of the loop does not limit \<open>parseRequest\<close>.\<close>

fun turns_left :: "ret_code \<Rightarrow> nat" where
  "turns_left NO_REQUEST = 4"
| "turns_left REQUEST_LINE_DONE = 3"
| "turns_left AGAIN_HEADER = 3"
| "turns_left REQUEST_HEADER_DONE = 2"
| "turns_left AGAIN_CONTENT = 2"
| "turns_left BAD_REQUEST = 1"
| "turns_left REQUEST_CONTENT_DONE = 1"

lemma parseRequestLine_code:
  "parseRequestLine b r = Inr (b', r') \<Longrightarrow> rq_ret_code r' \<in> {BAD_REQUEST, REQUEST_LINE_DONE}"
  by (auto simp: parseRequestLine_def Let_def res_simps split: option.splits prod.splits)

lemma header_loop_code:
  "header_loop s b h = Inr (c, b', h') \<Longrightarrow> c \<in> {BAD_REQUEST, REQUEST_HEADER_DONE, AGAIN_HEADER}"
proof (induction "length s" arbitrary: s b h rule: less_induct)
  case less
  show ?case
  proof (cases "search CRLF s")
    case None
    with less.prems show ?thesis by (auto simp: header_loop_unfold [of s] split: if_splits)
  next
    case (Some pos)
    then have l: "length (drop (pos + 2) s) < length s" using search_CRLF_Cons by fastforce
    show ?thesis
      using less.prems Some less.hyps [OF l]
      by (fastforce simp: header_loop_unfold [of s] res_simps split: if_splits option.splits)
  qed
qed

lemma parseRequestContent_code:
  "parseRequestContent fuel b r = Some (Inr (b', r')) \<Longrightarrow> rq_ret_code r' \<in> {AGAIN_CONTENT, REQUEST_CONTENT_DONE}"
  by (auto simp: parseRequestContent_def Let_def res_simps split: if_splits)

text \<open>Fuel-independence, one level of codes after the other.\<close>

lemma run_bind_cong: "(\<And>x. m = Some (Inr x) \<Longrightarrow> f x = g x) \<Longrightarrow> run_bind m f = run_bind m g"
  by (cases m) (auto simp: run_bind_def split: sum.splits)

lemma parse_loop_done:
  "rq_ret_code r \<in> {BAD_REQUEST, REQUEST_CONTENT_DONE} \<Longrightarrow> parse_loop (Suc n) fuel ev b r = Some (Inr (rq_ret_code r, b, r))"
  by auto

lemma parse_loop_content:
  assumes "rq_ret_code r \<in> {REQUEST_HEADER_DONE, AGAIN_CONTENT}"
  shows "parse_loop (Suc (Suc n)) fuel ev b r = parse_loop 2 fuel ev b r"
proof -
  have c: "run_bind (parseRequestContent fuel b r) (\<lambda>(b, r). if rq_ret_code r = AGAIN_CONTENT
        then Some (Inr (AGAIN_CONTENT, b, r)) else parse_loop (Suc n) fuel ev b r) =
      run_bind (parseRequestContent fuel b r) (\<lambda>(b, r). if rq_ret_code r = AGAIN_CONTENT
        then Some (Inr (AGAIN_CONTENT, b, r)) else parse_loop (Suc 0) fuel ev b r)" for b r n
    by (rule run_bind_cong) (auto dest!: parseRequestContent_code)
  have "parse_loop (Suc (Suc n)) fuel ev b r = parse_loop (Suc (Suc 0)) fuel ev b r"
    using assms by (subst (1 2) parse_loop.simps(2)) (auto simp: c [of _ _ n] simp del: parse_loop.simps cong: if_cong)
  then show ?thesis by (simp only: numeral_2_eq_2)
qed

lemma parse_loop_header:
  assumes "rq_ret_code r \<in> {REQUEST_LINE_DONE, AGAIN_HEADER}"
  shows "parse_loop (Suc (Suc (Suc n))) fuel ev b r = parse_loop 3 fuel ev b r"
proof -
  have e: "parse_loop (Suc (Suc n)) fuel ev b' r' = parse_loop (Suc (Suc 0)) fuel ev b' r'"
    if "parseRequestHeader b r = Inr (b', r')" "rq_ret_code r' \<noteq> AGAIN_HEADER" for b' r'
  proof -
    from that have "rq_ret_code r' \<in> {BAD_REQUEST, REQUEST_HEADER_DONE}"
      by (auto simp: parseRequestHeader_def res_simps dest!: header_loop_code)
    then show ?thesis
      using parse_loop_content [of r' n] parse_loop_content [of r' 0] parse_loop_done [of r' "Suc n"] parse_loop_done [of r' "Suc 0"]
      by fastforce
  qed
  have "run_bind (Some (parseRequestHeader b r)) (\<lambda>(b, r). if rq_ret_code r = AGAIN_HEADER
        then Some (Inr (AGAIN_HEADER, b, r)) else parse_loop (Suc (Suc n)) fuel ev b r) =
      run_bind (Some (parseRequestHeader b r)) (\<lambda>(b, r). if rq_ret_code r = AGAIN_HEADER
        then Some (Inr (AGAIN_HEADER, b, r)) else parse_loop (Suc (Suc 0)) fuel ev b r)"
    by (rule run_bind_cong) (auto simp: e simp del: parse_loop.simps)
  then have "parse_loop (Suc (Suc (Suc n))) fuel ev b r = parse_loop (Suc (Suc (Suc 0))) fuel ev b r"
    using assms by (subst (1 2) parse_loop.simps(2)) (auto simp del: parse_loop.simps)
  then show ?thesis by (simp only: numeral_3_eq_3)
qed

lemma parse_loop_line:
  assumes "rq_ret_code r = NO_REQUEST"
  shows "parse_loop (Suc (Suc (Suc (Suc n)))) fuel ev b r = parse_loop (Suc (Suc (Suc (Suc 0)))) fuel ev b r"
proof -
  have e: "parse_loop (Suc (Suc (Suc n))) fuel ev b' r' = parse_loop (Suc (Suc (Suc 0))) fuel ev b' r'"
    if "parseRequestLine b r = Inr (b', r')" for b' r'
    using parseRequestLine_code [OF that] parse_loop_header [of r' n] parse_loop_header [of r' 0]
      parse_loop_done [of r' "Suc (Suc n)"] parse_loop_done [of r' "Suc (Suc 0)"] by fastforce
  have "run_bind (Some (parseRequestLine b r)) (\<lambda>(b, r). parse_loop (Suc (Suc (Suc n))) fuel ev b r) =
      run_bind (Some (parseRequestLine b r)) (\<lambda>(b, r). parse_loop (Suc (Suc (Suc 0))) fuel ev b r)"
    by (rule run_bind_cong) (auto simp: e simp del: parse_loop.simps)
  then show ?thesis
    using assms by (subst (1 2) parse_loop.simps(2)) (auto simp del: parse_loop.simps)
qed

lemma numeral_4: "(4 :: nat) = Suc (Suc (Suc (Suc 0)))"
  by simp


subsection \<open>A well-formed request\<close>

fun version_name :: "http_version \<Rightarrow> string" where
  "version_name HTTP_1_0 = ''HTTP/1.0''"
| "version_name HTTP_1_1 = ''HTTP/1.1''"
| "version_name HTTP_2_0 = ''HTTP/2.0''"

definition line_text :: "http_method \<Rightarrow> string \<Rightarrow> http_version \<Rightarrow> string" where
  "line_text m url v = method_name (Some m) @ '' '' @ url @ '' '' @ version_name v @ CRLF"

lemma method_of_text: "method_of (method_name (Some m) @ '' '' @ s) = Some (m, length (method_name (Some m)) + 1)"
  by (cases m) (simp_all add: starts_with_def)

lemma version_of_text: "version_of (version_name v @ s) = Some v"
  by (cases v) (simp_all add: starts_with_def)

lemma parseRequestLine_text:
  assumes "buf_inv b" and "buf_view b = line_text m url v @ s" and "CHR '' '' \<notin> set url"
  shows "\<exists>b'. parseRequestLine b r = Inr (b', r\<lparr>rq_method := Some m, rq_req_url := url, rq_version := Some v, rq_ret_code := REQUEST_LINE_DONE\<rparr>) \<and>
     buf_inv b' \<and> buf_view b' = s"
proof -
  let ?n = "length (method_name (Some m))"
  let ?l1 = "url @ '' '' @ version_name v @ CRLF @ s" and ?l2 = "version_name v @ CRLF @ s"
  have v: "buf_view b = method_name (Some m) @ '' '' @ ?l1" using assms(2) by (simp add: line_text_def)
  have 1: "sv_remove_prefix (buf_view b) (?n + 1) = Inr ?l1" by (simp add: v sv_remove_prefix_def)
  have 2: "search_if (\<lambda>c. c = CHR '' '') ?l1 = Some (length url)"
    using assms(3) by (auto intro: search_if_append_hit)
  have 3: "sv_remove_prefix ?l1 (length url + 1) = Inr ?l2" "take (length url) ?l1 = url" by (simp_all add: sv_remove_prefix_def)
  have lv: "length (version_name v) = 8" by (cases v) simp_all
  have 4: "sv_remove_prefix ?l2 10 = Inr s" using lv by (simp add: sv_remove_prefix_def CRLF_def)
  have 5: "drop (?n + 1 + (length url + 1) + 10) (buf_view b) = s"
    using drop_len [of "line_text m url v" "?n + 1 + (length url + 1) + 10" s] lv
    by (simp add: assms(2) line_text_def CRLF_def)
  have "parseRequestLine b r = Inr (retired b (?n + 1 + (length url + 1) + 10),
      r\<lparr>rq_method := Some m, rq_req_url := url, rq_version := Some v, rq_ret_code := REQUEST_LINE_DONE\<rparr>)"
    using method_of_text [of m ?l1] version_of_text [of v "CRLF @ s"]
    by (simp only: parseRequestLine_def v [symmetric] option.case prod.case Let_def 1 2 3 4 res_bind_Inr)
  with 5 assms(1) show ?thesis by simp
qed

definition field_ok :: "string \<times> string \<Rightarrow> bool" where
  "field_ok = (\<lambda>(k, v). CHR '':'' \<notin> set k \<and> CHR 0x0D \<notin> set k \<and> CHR 0x0D \<notin> set v)"

lemma header_loop_line:
  assumes ok: "field_ok (k, v)" and len: "length (hd_line (k, v)) < size_mod"
  shows "header_loop (hd_line (k, v) @ t) b h = header_loop t (retired b (length (hd_line (k, v)))) (hd_add h k v)"
proof -
  let ?l = "k @ '': '' @ v" and ?s = "k @ '': '' @ v @ CRLF @ t"
  from ok have cr: "CHR 0x0D \<notin> set ?l" and colon: "CHR '':'' \<notin> set k" by (auto simp: field_ok_def)
  have 1: "search CRLF ?s = Some (length ?l)" using search_CRLF_line [OF cr, of t] by simp
  have 2: "search_if (\<lambda>c. c = CHR '':'') ?l = Some (length k)" using colon by (auto intro: search_if_append_hit)
  have t: "take (length ?l) ?s = ?l" by simp
  have "size_sub (length ?l) (length k) = length v + 2"
    using len by (subst size_sub_small) (auto simp: hd_line_def)
  then have 3: "size_sub (size_sub (length ?l) (length k)) 2 = length v"
    using len by (simp only:) (subst size_sub_small, auto simp: hd_line_def)
  have 4: "header_line ?s (length ?l) = Some (Inr (k, v))"
    unfolding header_line_def t 2 option.case 3 by (simp add: sv_substr_def)
  have 5: "\<not> at_crlf ?s" using cr by (cases k) (auto simp: at_crlf_def)
  have 6: "drop (length ?l + 2) ?s = t" using drop_len [of "?l @ CRLF" "length ?l + 2" t] by (simp add: CRLF_def)
  have 7: "hd_line (k, v) @ t = ?s" "length (hd_line (k, v)) = length ?l + 2" by (simp_all add: hd_line_def CRLF_def)
  show ?thesis unfolding 7
    by (subst header_loop_unfold) (simp only: 1 4 5 6 option.case res_bind_Inr if_False prod.case)
qed

lemma buf_view_short: "buf_inv b \<Longrightarrow> length (buf_view b) < npos"
  by (auto simp: buf_inv_def max_size_def npos_eq)

lemma header_loop_lines:
  assumes "\<forall>e \<in> set es. field_ok e" and "buf_inv b" and "buf_view b = concat (map hd_line es) @ CRLF @ body"
  shows "\<exists>b'. header_loop (buf_view b) b h = Inr (REQUEST_HEADER_DONE, b', hd_add_all h es) \<and>
     buf_inv b' \<and> buf_view b' = body"
  using assms
proof (induction es arbitrary: b h)
  case Nil
  then show ?case
    by (subst header_loop_unfold) (simp add: at_crlf_def CRLF_def hd_add_all_def)
next
  case (Cons e es)
  obtain k v where e: "e = (k, v)" by fastforce
  let ?n = "length (hd_line (k, v))" and ?t = "concat (map hd_line es) @ CRLF @ body"
  have ok: "field_ok (k, v)" using Cons.prems(1) e by simp
  have len: "?n < size_mod" using buf_view_short [OF Cons.prems(2)] Cons.prems(3) e by (simp add: npos_eq)
  have v: "buf_view b = hd_line (k, v) @ ?t" using Cons.prems(3) e by simp
  have rv: "buf_view (retired b ?n) = ?t" using Cons.prems(2) v by simp
  from Cons.IH [OF _ _ rv, of "hd_add h k v"] Cons.prems obtain b' where
    "header_loop ?t (retired b ?n) (hd_add h k v) = Inr (REQUEST_HEADER_DONE, b', hd_add_all (hd_add h k v) es)"
    "buf_inv b'" "buf_view b' = body" unfolding rv by auto
  then show ?case using header_loop_line [OF ok len, of ?t b h] v by (simp add: hd_add_all_def hd_add_def e)
qed

lemma set_pairs_text: "set (pairs_text s1 s2 gap kvs) \<subseteq> {s1, s2} \<union> set gap \<union> (\<Union>(k, v) \<in> set kvs. set k \<union> set v)"
  by (induction s1 s2 gap kvs rule: pairs_text.induct) auto

lemma urlEncode_no_blank: "CHR '' '' \<notin> set (urlEncode s)" "CHR ''?'' \<notin> set (urlEncode s)"
  using urlEncode_alphabet [of "CHR '' ''" s] urlEncode_alphabet [of "CHR ''?''" s]
  by (auto simp: url_safe_def isalnum_def isupper_def islower_def isdigit_def isxdigit_def)

lemma query_text_no_blank: "CHR '' '' \<notin> set (query_text q)"
  using set_pairs_text [of "CHR ''=''" "CHR ''&''" "[]" "map (\<lambda>(k, v). (urlEncode k, urlEncode v)) q"] urlEncode_no_blank
  by (fastforce simp: query_text_def)

definition url_text :: "string \<Rightarrow> (string \<times> string) list \<Rightarrow> string" where
  "url_text path q = (if q = [] then path else path @ ''?'' @ query_text q)"

lemma parseUrlQuery_text:
  assumes "rq_req_url r = url_text path q" and "CHR ''?'' \<notin> set path" and "length (url_text path q) < npos"
  shows "parseUrlQuery r = Inr (r\<lparr>rq_query_s := (if q = [] then rq_query_s r else query_text q),
     rq_query := foldl (\<lambda>c (k, v). hm_add c k v) (rq_query r) q, rq_url := urlDecode path\<rparr>)"
proof (cases "q = []")
  case True
  have "search_if (\<lambda>c. c = CHR ''?'') path = None" using assms(2) by (auto simp: search_if_None)
  then show ?thesis using True assms by (simp add: parseUrlQuery_def url_text_def or_npos_def)
next
  case False
  then have u: "rq_req_url r = path @ CHR ''?'' # query_text q" using assms(1) by (simp add: url_text_def)
  have "search_if (\<lambda>c. c = CHR ''?'') (path @ CHR ''?'' # query_text q) = Some (length path)"
    using assms(2) by (auto intro: search_if_append_hit)
  moreover have "parseKeyValue (query_text q) [NUL] (CHR ''='') (CHR ''&'') (rq_query r) =
      Inr (foldl (\<lambda>c (k, v). hm_add c k v) (rq_query r) q)"
    using assms(3) False by (intro parse_query_pairs) (simp add: url_text_def)
  ultimately show ?thesis using False by (simp add: parseUrlQuery_def u or_npos_def)
qed

lemma headerOptions_keeps:
  "rq_header (headerOptions ev r) = rq_header r" "rq_version (headerOptions ev r) = rq_version r"
  "rq_has_multipart (headerOptions ev r) = rq_has_multipart r" "rq_form (headerOptions ev r) = rq_form r"
  "rq_post_data (headerOptions ev r) = rq_post_data r" "rq_method (headerOptions ev r) = rq_method r"
  "rq_url (headerOptions ev r) = rq_url r" "rq_query (headerOptions ev r) = rq_query r"
  by (simp_all add: headerOptions_def Let_def split: option.splits)

definition request_text :: "http_method \<Rightarrow> string \<Rightarrow> (string \<times> string) list \<Rightarrow> http_version \<Rightarrow> header \<Rightarrow> (string \<times> string) list \<Rightarrow> string" where
  "request_text m path q v es form =
     line_text m (url_text path q) v @ concat (map hd_line es) @ CRLF @ query_text form"

lemma parse_request_text:
  assumes inv: "buf_inv b" and view: "buf_view b = request_text m path q v es form"
    and path: "CHR '' '' \<notin> set path" "CHR ''?'' \<notin> set path"
    and es: "\<forall>e \<in> set es. field_ok e" "hd_add_all [] es \<noteq> []"
    and plain: "hd_get (hd_add_all [] es) ''Cookie'' = None" "hd_get (hd_add_all [] es) ''Content-Type'' = None"
      "hd_get (hd_add_all [] es) ''Authorization'' = None"
  shows "\<exists>b' r. parseRequest fuel ev b rq_new = Some (Inr (REQUEST_CONTENT_DONE, b', r)) \<and>
     buf_inv b' \<and> buf_view b' = [] \<and>
     rq_method r = Some m \<and> rq_version r = Some v \<and> rq_url r = urlDecode path \<and>
     rq_query r = foldl (\<lambda>c (k, v). hm_add c k v) hm_new q \<and> rq_header r = hd_add_all [] es \<and>
     rq_form r = foldl (\<lambda>c (k, v). hm_add c k v) hm_new form \<and> rq_post_data r = query_text form"
proof -
  let ?H = "hd_add_all [] es" and ?body = "query_text form"
  have short: "length (url_text path q) < npos" "length ?body < npos"
    using buf_view_short [OF inv] view by (auto simp: request_text_def line_text_def)
  have blank: "CHR '' '' \<notin> set (url_text path q)" using path query_text_no_blank by (simp add: url_text_def)
  define r1 where "r1 = rq_new\<lparr>rq_method := Some m, rq_req_url := url_text path q, rq_version := Some v, rq_ret_code := REQUEST_LINE_DONE\<rparr>"
  from parseRequestLine_text [OF inv _ blank, of m v "concat (map hd_line es) @ CRLF @ ?body" rq_new] view
  obtain b1 where b1: "parseRequestLine b rq_new = Inr (b1, r1)" "buf_inv b1" "buf_view b1 = concat (map hd_line es) @ CRLF @ ?body"
    by (auto simp: request_text_def r1_def)
  define r2 where "r2 = r1\<lparr>rq_ret_code := REQUEST_HEADER_DONE, rq_header := ?H\<rparr>"
  from header_loop_lines [OF es(1) b1(2,3), of "[]"] obtain b2 where b2: "parseRequestHeader b1 r1 = Inr (b2, r2)" "buf_inv b2" "buf_view b2 = ?body"
    by (auto simp: parseRequestHeader_def r1_def r2_def rq_new_def)
  define r3 where "r3 = r2\<lparr>rq_query_s := (if q = [] then [] else query_text q),
     rq_query := foldl (\<lambda>c (k, v). hm_add c k v) hm_new q, rq_url := urlDecode path\<rparr>"
  have r3: "parseUrlQuery r2 = Inr r3"
    using parseUrlQuery_text [of r2 path q] path short by (simp add: r1_def r2_def r3_def rq_new_def)
  have h3: "rq_header r3 = ?H" "rq_version r3 = Some v" "rq_ret_code r3 = REQUEST_HEADER_DONE" "rq_has_multipart r3 = False"
      "rq_form r3 = hm_new" "rq_post_data r3 = []"
    by (simp_all add: r1_def r2_def r3_def rq_new_def)
  define r4 where "r4 = headerOptions ev r3"
  note h4 = headerOptions_keeps [of ev r3, folded r4_def, unfolded h3]
  have c4: "parseCookie r4 = Inr r4" "parseMultiPartData r4 = Inr r4" "parseAuthorization fuel ev r4 = Some (Inr r4)"
    using plain by (simp_all add: parseCookie_def parseMultiPartData_def parseAuthorization_def h4)
  define r5 where "r5 = r4\<lparr>rq_post_data := ?body, rq_form := foldl (\<lambda>c (k, v). hm_add c k v) hm_new form, rq_ret_code := REQUEST_CONTENT_DONE\<rparr>"
  have r5: "parseRequestContent fuel b2 r4 = Some (Inr (retiredAll b2, r5))"
    using b2(3) short(2) by (simp add: parseRequestContent_def h4 r5_def parse_query_pairs)
  have codes: "rq_ret_code rq_new = NO_REQUEST" "rq_ret_code r1 = REQUEST_LINE_DONE" "rq_ret_code r2 = REQUEST_HEADER_DONE"
      "rq_ret_code r5 = REQUEST_CONTENT_DONE"
    by (simp_all add: rq_new_def r1_def r2_def r5_def)
  have ne: "\<not> (hd_empty (rq_header r3) \<and> rq_version r3 \<noteq> Some HTTP_1_0)" using es(2) h3(1) by (simp add: hd_empty_def)
  have "parseRequest fuel ev b rq_new = Some (Inr (REQUEST_CONTENT_DONE, retiredAll b2, r5))"
    unfolding parseRequest_def numeral_4
    by (simp only: parse_loop.simps codes ret_code.case b1(1) b2(1) r3 c4 r5 ne r4_def [symmetric] run_bind_simps prod.case
        if_False ret_code.distinct)
  moreover have "buf_inv (retiredAll b2)" "buf_view (retiredAll b2) = []" using b2(2) by simp_all
  moreover have "rq_method r3 = Some m" "rq_url r3 = urlDecode path" "rq_query r3 = foldl (\<lambda>c (k, v). hm_add c k v) hm_new q"
    by (simp_all add: r1_def r2_def r3_def)
  ultimately show ?thesis using h4 by (simp add: r5_def)
qed

text \<open>
  C21. A well-formed request is parsed to exactly what was sent, in one call and with everything
  consumed: the method, the decoded path, the query, the header, the form and the raw body. The
  header has at least one line and none that selects another parser (cookies, a multipart body or
  credentials).
\<close>

theorem parse_whole_request:
  assumes inv: "buf_inv b" and view: "buf_view b = request_text m path q v es form"
    and path: "CHR '' '' \<notin> set path" "CHR ''?'' \<notin> set path"
    and es: "\<forall>e \<in> set es. field_ok e" "hd_add_all [] es \<noteq> []"
    and plain: "hd_get (hd_add_all [] es) ''Cookie'' = None" "hd_get (hd_add_all [] es) ''Content-Type'' = None"
      "hd_get (hd_add_all [] es) ''Authorization'' = None"
  shows "\<exists>b' r. parseRequest fuel ev b rq_new = Some (Inr (REQUEST_CONTENT_DONE, b', r)) \<and>
     buf_inv b' \<and> buf_view b' = [] \<and>
     rq_method r = Some m \<and> rq_version r = Some v \<and> rq_url r = urlDecode path \<and>
     rq_query r = foldl (\<lambda>c (k, v). hm_add c k v) hm_new q \<and> rq_header r = hd_add_all [] es \<and>
     rq_form r = foldl (\<lambda>c (k, v). hm_add c k v) hm_new form \<and> rq_post_data r = query_text form"
  using assms by (rule parse_request_text)

definition demo_env :: env where
  "demo_env = \<lparr>ev_md5 = take 16, ev_store = \<lparr>ps_user_pass = hm_new, ps_realm = ''r''\<rparr>, ev_c4 = [0, 0, 0, 0], ev_dangling = id\<rparr>"

lemma filled_buffer:
  assumes "length s < 1000"
  shows "\<exists>b. buf_inv b \<and> buf_room b 1000 \<and> buf_view b = s"
proof -
  have "buf_inv (Buffer_new 4)" "buf_room (Buffer_new 4) (length s + 1000)" "buf_view (Buffer_new 4) = []"
    using assms by (simp_all add: buf_inv_new max_size_def buf_room_def) (simp add: Buffer_new_def)
  from append_buf_ok [OF this(1,2)] this(3) show ?thesis by auto
qed

theorem parse_whole_request_witness:
  "\<exists>b b' r. buf_view b = request_text POST ''/a%20b'' [(''k'', ''v w'')] HTTP_1_1 [(''Host'', ''h'')] [(''x'', ''1'')] \<and>
     parseRequest 0 demo_env b rq_new = Some (Inr (REQUEST_CONTENT_DONE, b', r)) \<and>
     rq_method r = Some POST \<and> rq_url r = urlDecode ''/a%20b'' \<and> rq_query r = [''k'' \<mapsto> ''v w''] \<and> rq_form r = [''x'' \<mapsto> ''1'']"
proof -
  let ?t = "request_text POST ''/a%20b'' [(''k'', ''v w'')] HTTP_1_1 [(''Host'', ''h'')] [(''x'', ''1'')]"
  have "length ?t < 1000"
    by (simp add: request_text_def line_text_def url_text_def query_text_def hd_line_def CRLF_def url_safe_def escape_def
        isalnum_def isupper_def islower_def isdigit_def)
  from filled_buffer [OF this] obtain b where b: "buf_inv b" "buf_view b = ?t" by blast
  have h: "hd_add_all [] [(''Host'', ''h'')] = [(''host'', ''h'')]"
    by (simp add: hd_add_all_def add0_def isupper_def tolower_def starts_with_def char_of_def bit_0)
  have "\<exists>b' r. parseRequest 0 demo_env b rq_new = Some (Inr (REQUEST_CONTENT_DONE, b', r)) \<and> buf_inv b' \<and> buf_view b' = [] \<and>
     rq_method r = Some POST \<and> rq_version r = Some HTTP_1_1 \<and> rq_url r = urlDecode ''/a%20b'' \<and>
     rq_query r = foldl (\<lambda>c (k, v). hm_add c k v) hm_new [(''k'', ''v w'')] \<and> rq_header r = hd_add_all [] [(''Host'', ''h'')] \<and>
     rq_form r = foldl (\<lambda>c (k, v). hm_add c k v) hm_new [(''x'', ''1'')] \<and> rq_post_data r = query_text [(''x'', ''1'')]"
    by (rule parse_whole_request [OF b]) (simp_all add: h field_ok_def hd_get_def isupper_def tolower_def char_of_def bit_0)
  with b(2) show ?thesis by (auto simp: hm_add_def hm_new_def)
qed

section \<open>Inputs the parser does not handle\<close>

text \<open>
  A header line whose value is empty (\<open>Name:\<close> directly followed by the line break) makes
  \<open>substr\<close> throw \<open>std::out_of_range\<close>, which nothing on the thread's stack catches.
\<close>

theorem header_empty_value_throws:
  assumes "CHR '':'' \<notin> set k" "CHR 0x0D \<notin> set k"
  shows "header_loop (k @ '':'' @ CRLF @ t) b h = Inl OutOfRange"
proof -
  let ?l = "k @ '':''" let ?s = "?l @ CRLF @ t"
  have "CHR 0x0D \<notin> set ?l" using assms by simp
  from search_CRLF_line [OF this, of t] have 1: "search CRLF ?s = Some (length ?l)" .
  have 2: "search_if (\<lambda>c. c = CHR '':'') ?l = Some (length k)" using assms by (auto intro: search_if_append_hit)
  have t: "take (length ?l) ?s = ?l" by simp
  have 3: "header_line ?s (length ?l) = Some (Inl OutOfRange)"
    unfolding header_line_def t 2 option.case by (simp add: sv_substr_def)
  have 4: "\<not> at_crlf ?s" using assms by (cases k) (auto simp: at_crlf_def)
  have "header_loop ?s b h = Inl OutOfRange"
    by (subst header_loop_unfold) (simp only: 1 3 4 option.case res_bind_Inl if_False)
  then show ?thesis by simp
qed

theorem header_empty_value_throws_witness:
  "header_loop (''X-Empty'' @ '':'' @ CRLF @ CRLF) (Buffer_new 4) [] = Inl OutOfRange"
  by (rule header_empty_value_throws) simp_all

text \<open>
  A multipart body that arrives in two pieces is recorded twice: the first call copies the bytes
  into \<open>post_data_\<close> but leaves them in the buffer, and the second copies them again, so the data
  handed on to PHP is wrong.
\<close>

theorem multipart_body_recorded_twice:
  assumes "buf_inv b" and "buf_room b (length t)"
    and "parseRequestContent fuel b r = Some (Inr (b1, r1))" and "rq_ret_code r1 = AGAIN_CONTENT"
    and "append_buf b1 t = Inr bt" and "parseRequestContent fuel bt r1 = Some (Inr (b2, r2))"
  shows "rq_post_data r2 = rq_post_data r @ buf_view b @ buf_view b @ t"
proof -
  have post: "rq_post_data r' = rq_post_data r @ buf_view b" if "parseRequestContent fuel b r = Some (Inr (b', r'))" for b r b' r'
    using that by (auto simp: parseRequestContent_def Let_def res_simps split: if_splits)
  have "b1 = b" using assms(3,4) by (auto simp: parseRequestContent_def Let_def res_simps split: if_splits)
  then have "buf_view bt = buf_view b @ t" using append_buf_ok [OF assms(1), of t 0] assms(2,5) by auto
  with post [OF assms(3)] post [OF assms(6)] show ?thesis by simp
qed

theorem multipart_body_recorded_twice_witness:
  "\<exists>b r b1 r1 bt b2 r2. parseRequestContent 10 b r = Some (Inr (b1, r1)) \<and> rq_ret_code r1 = AGAIN_CONTENT \<and>
     append_buf b1 (''-'' @ CRLF) = Inr bt \<and> parseRequestContent 10 bt r1 = Some (Inr (b2, r2)) \<and>
     rq_post_data r2 = ''--b-'' @ ''--b-'' @ ''-'' @ CRLF"
proof -
  let ?t = "''-'' @ CRLF"
  let ?r = "rq_new\<lparr>rq_has_multipart := True, rq_multipart := setBoundary mp_new ''b''\<rparr>"
  let ?r1 = "?r\<lparr>rq_post_data := ''--b-'', rq_ret_code := AGAIN_CONTENT\<rparr>"
  from filled_buffer [of "''--b-''"] obtain b where b: "buf_inv b" "buf_room b 1000" "buf_view b = ''--b-''" by auto
  then have room: "buf_room b (length ?t)" by (simp add: buf_room_def CRLF_def)
  from append_buf_ok [OF b(1), of ?t 0] room b(3) obtain bt where bt: "append_buf b ?t = Inr bt" "buf_view bt = ''--b--'' @ CRLF"
    by auto
  have 1: "parseRequestContent 10 b ?r = Some (Inr (b, ?r1))"
    using b(3) by (simp add: parseRequestContent_def setBoundary_def ends_with_def CRLF_def rq_new_def)
  have "mp_parse 10 (buf_tail bt) (setBoundary mp_new ''b'') (''--b--'' @ CRLF) = Some (Inr (setBoundary mp_new ''b''))"
    by (simp add: mp_parse_def mp_loop.simps mp_step_def mp_start_def two_at_def setBoundary_def CRLF_def eval_nat_numeral NUL_def)
  then have 2: "\<exists>r2. parseRequestContent 10 bt ?r1 = Some (Inr (retiredAll bt, r2))"
    using bt(2) by (simp add: parseRequestContent_def setBoundary_def ends_with_def CRLF_def rq_new_def)
  then obtain r2 where r2: "parseRequestContent 10 bt ?r1 = Some (Inr (retiredAll bt, r2))" by blast
  have "rq_post_data r2 = rq_post_data ?r @ buf_view b @ buf_view b @ ?t"
    by (rule multipart_body_recorded_twice [OF b(1) room 1 _ bt(1) r2]) simp
  then have p: "rq_post_data r2 = ''--b-'' @ ''--b-'' @ ?t" by (simp add: b(3) rq_new_def)
  have "rq_ret_code ?r1 = AGAIN_CONTENT" by simp
  with 1 bt(1) r2 p show ?thesis by blast
qed

text \<open>
  A request line that has not arrived completely is rejected: unlike the header, it is not waited
  for. Whatever prefix of it ends before the second blank gives \<open>BAD_REQUEST\<close>.
\<close>

theorem partial_request_line_rejected:
  assumes "buf_view b = method_name (Some m) @ '' '' @ url" and "CHR '' '' \<notin> set url" and "rq_ret_code r = NO_REQUEST"
  shows "\<exists>r'. parseRequest fuel ev b r = Some (Inr (BAD_REQUEST, b, r'))"
proof -
  have 1: "method_of (buf_view b) = Some (m, length (method_name (Some m)) + 1)" using method_of_text assms(1) by simp
  have 2: "sv_remove_prefix (buf_view b) (length (method_name (Some m)) + 1) = Inr url"
    by (simp add: assms(1) sv_remove_prefix_def)
  have 3: "search_if (\<lambda>c. c = CHR '' '') url = None" using assms(2) by (auto simp: search_if_None)
  let ?r = "r\<lparr>rq_method := Some m, rq_ret_code := BAD_REQUEST\<rparr>"
  have "parseRequestLine b r = Inr (b, ?r)"
    by (simp only: parseRequestLine_def 1 2 3 option.case prod.case Let_def res_bind_Inr)
  moreover have "rq_ret_code ?r = BAD_REQUEST" by simp
  ultimately have "parseRequest fuel ev b r = Some (Inr (BAD_REQUEST, b, ?r))"
    by (simp only: parseRequest_def numeral_4 parse_loop.simps assms(3) ret_code.case run_bind_simps prod.case)
  then show ?thesis by blast
qed

theorem partial_request_line_rejected_witness:
  "\<exists>b r'. buf_view b = ''GET /index.h'' \<and> parseRequest 0 demo_env b rq_new = Some (Inr (BAD_REQUEST, b, r'))"
proof -
  from filled_buffer [of "''GET /index.h''"] obtain b where b: "buf_view b = ''GET /index.h''" by auto
  then have "buf_view b = method_name (Some GET) @ '' '' @ ''/index.h''" by simp
  from partial_request_line_rejected [OF this, of rq_new 0 demo_env] b show ?thesis by (auto simp: rq_new_def)
qed

lemma digest_loop_stuck:
  "digest_step s d da = Inr (d, da) \<Longrightarrow> dg_i d < length s \<Longrightarrow> digest_loop fuel s d da = None"
  by (induction fuel) (simp_all add: digest_loop.simps)

lemma digest_loop_hang:
  assumes "dg_i d < length s" and "digest_step s d da = Inr (d', da')" and "\<And>n. digest_loop n s d' da' = None"
  shows "digest_loop fuel s d da = None"
  using assms by (cases fuel) (simp_all add: digest_loop.simps [of _ s d])

text \<open>
  Digest parameters that are separated by a comma without a blank, which the syntax of the
  header allows, keep the parser in its third state for ever.
\<close>

theorem digest_hangs_without_blank: "digest_loop fuel ''a=b,c=d'' digest_start hm_new = None"
proof -
  have wr: "write_at (x # xs) 0 [c] = Inr (c # xs)" "write_at (x # y # xs) (Suc 0) [c] = Inr (x # c # xs)" for x y c :: char and xs
    by (simp_all add: write_at_def)
  have r: "replicate 128 NUL = NUL # NUL # replicate 126 NUL" by (simp add: numeral_eq_Suc)
  let ?b = "CHR ''a'' # CHR ''b'' # replicate 126 NUL"
  let ?d1 = "\<lparr>dg_state = 1, dg_i = 2, dg_k = 1, dg_v = 1, dg_buffer = CHR ''a'' # NUL # replicate 126 NUL\<rparr>"
  let ?d2 = "\<lparr>dg_state = 2, dg_i = 3, dg_k = 0, dg_v = 0, dg_buffer = ?b\<rparr>"
  have 1: "digest_step ''a=b,c=d'' digest_start hm_new = Inr (?d1, hm_new)"
    by (simp add: digest_step_def digest_start_def r digest_key.simps wr)
  have 2: "digest_step ''a=b,c=d'' ?d1 hm_new = Inr (?d2, hm_add hm_new ''a'' ''b'')"
    by (simp add: digest_step_def digest_value.simps wr)
  have "digest_loop n ''a=b,c=d'' ?d2 (hm_add hm_new ''a'' ''b'') = None" for n
    by (rule digest_loop_stuck) (simp_all add: digest_step_def)
  then have "digest_loop n ''a=b,c=d'' ?d1 hm_new = None" for n
    by (intro digest_loop_hang [OF _ 2]) simp
  then show ?thesis by (intro digest_loop_hang [OF _ 1]) (simp add: digest_start_def)
qed

end
