(* ===== verification/Channel.thy ===== *)
theory Channel
  imports Buffer
begin

text \<open>
  \<open>soc/net/include/Channel.h\<close>, \<open>soc/net/src/Channel.cc\<close> and the input and output loops of
  \<open>soc/net/src/TcpConnection.cc\<close>. A channel owns the two buffers of a connection and, for the body
  of a response, a memory mapping or a file to be passed to \<open>sendfile\<close>; \<open>write\<close> is called
  again whenever the socket has room, and keeps its position in \<open>send_bytes_\<close>.

  The kernel (and OpenSSL) is an argument: a call that writes gets the number \<open>room\<close> of bytes the
  peer can take, negative for an error, and writes \<open>min room\<close> of what it was asked to, at most
  \<open>0x7ffff000\<close> bytes as \<open>writev(2)\<close> and \<open>sendfile(2)\<close> document; a call that reads gets
  the bytes it finds, or \<open>None\<close> for an error. The bytes that reach the peer are part of the
  results. A mapping is the list of its bytes, an open file the list of bytes from its offset on.
\<close>

section \<open>State\<close>

record mmap_object =
  mm_addr :: "string option"   \<comment> \<open>\<open>None\<close>: \<open>nullptr\<close>, the mapping failed\<close>
  mm_fd :: int
  mm_size :: size_t

record sendfile_object =
  sf_infd :: int
  sf_outfd :: int
  sf_size :: size_t
  sf_file :: string            \<comment> \<open>what the file holds from its offset on\<close>

datatype channel_type = Raw | Ssl

record channel =
  ch_type :: channel_type
  use_sendfile :: bool
  mmap_obj :: "mmap_object option"
  sfile_obj :: "sendfile_object option"
  sender :: buffer
  recver :: buffer
  send_bytes :: int
  remain_bytes :: int
  wsend_bytes :: int
  ch_fd :: int
  ch_closed :: bool
  ch_ssl :: bool               \<comment> \<open>\<open>ssl_\<close> of an \<open>SslChannel\<close> is not \<open>nullptr\<close>\<close>

definition Channel_new :: "channel_type \<Rightarrow> int \<Rightarrow> bool \<Rightarrow> channel" where
  \<comment> \<open>\<open>RawChannel(fd, sf)\<close>, and \<open>SslChannel(ssl, fd)\<close>, which passes \<open>false\<close>\<close>
  "Channel_new ty fd sf =
     \<lparr>ch_type = ty, use_sendfile = (ty = Raw \<and> sf), mmap_obj = None, sfile_obj = None,
      sender = Buffer_new 4096, recver = Buffer_new 4096, send_bytes = 0, remain_bytes = 0, wsend_bytes = 0,
      ch_fd = fd, ch_closed = False, ch_ssl = (ty = Ssl)\<rparr>"

definition MMap_new :: "string option \<Rightarrow> int \<Rightarrow> size_t \<Rightarrow> mmap_object" where
  \<comment> \<open>the first argument is the result of \<open>mmap\<close>\<close>
  "MMap_new addr infd sz =
     (case addr of None \<Rightarrow> \<lparr>mm_addr = None, mm_fd = infd, mm_size = 0\<rparr>
      | Some m \<Rightarrow> \<lparr>mm_addr = Some m, mm_fd = infd, mm_size = sz\<rparr>)"

definition removeMMapObject :: "channel \<Rightarrow> channel" where
  "removeMMapObject ch = ch\<lparr>mmap_obj := None\<rparr>"

definition removeSendFileObject :: "channel \<Rightarrow> channel" where
  "removeSendFileObject ch = ch\<lparr>sfile_obj := None\<rparr>"

definition reset_chan :: "channel \<Rightarrow> channel" where
  "reset_chan ch =
     removeSendFileObject (removeMMapObject
       (ch\<lparr>send_bytes := 0, wsend_bytes := 0, remain_bytes := 0,
           sender := reset_buf (sender ch), recver := reset_buf (recver ch)\<rparr>))"

definition createMMapObject :: "string option \<Rightarrow> int \<Rightarrow> size_t \<Rightarrow> channel \<Rightarrow> channel" where
  "createMMapObject addr infd sz ch =
     (case mmap_obj ch of Some _ \<Rightarrow> ch | None \<Rightarrow> ch\<lparr>mmap_obj := Some (MMap_new addr infd sz)\<rparr>)"

definition createSendFileObject :: "string \<Rightarrow> int \<Rightarrow> size_t \<Rightarrow> channel \<Rightarrow> channel" where
  "createSendFileObject file infd sz ch =
     (if \<not> use_sendfile ch then ch
      else case sfile_obj ch of Some _ \<Rightarrow> ch
        | None \<Rightarrow> ch\<lparr>sfile_obj := Some \<lparr>sf_infd = infd, sf_outfd = ch_fd ch, sf_size = sz, sf_file = file\<rparr>\<rparr>)"

definition mm_bytes :: "channel \<Rightarrow> string option" where
  \<comment> \<open>\<open>mmap_obj_ && mmap_obj_->getAddress()\<close>\<close>
  "mm_bytes ch = (case mmap_obj ch of None \<Rightarrow> None | Some m \<Rightarrow> mm_addr m)"

definition mm_len :: "channel \<Rightarrow> size_t" where
  "mm_len ch = (case mmap_obj ch of None \<Rightarrow> 0 | Some m \<Rightarrow> mm_size m)"

definition sf_len :: "channel \<Rightarrow> size_t" where
  \<comment> \<open>0 also when there is no \<open>sfile_obj_\<close>: \<open>sfile_obj_ && sfile_obj_->getSize()\<close> is
      \<open>0 < sf_len\<close>\<close>
  "sf_len ch = (case sfile_obj ch of None \<Rightarrow> 0 | Some f \<Rightarrow> sf_size f)"


section \<open>Connections\<close>

record 'c connection =
  connfd :: int
  disconnected :: bool
  keep_alive :: bool
  context_ptr :: "'c option"
  cn_channel :: "channel option"

definition TcpConnection_new :: "int \<Rightarrow> 'c connection" where
  \<comment> \<open>the argument is what the uninitialised \<open>connfd_\<close> holds\<close>
  "TcpConnection_new stale =
     \<lparr>connfd = stale, disconnected = False, keep_alive = False, context_ptr = None, cn_channel = None\<rparr>"

definition conn_initialize :: "int \<Rightarrow> 'c connection \<Rightarrow> 'c connection" where
  "conn_initialize fd c =
     c\<lparr>connfd := fd, disconnected := False, keep_alive := False, context_ptr := None, cn_channel := None\<rparr>"

definition setChannel :: "channel option \<Rightarrow> 'c connection \<Rightarrow> 'c connection" where
  "setChannel ch c = c\<lparr>cn_channel := ch\<rparr>"

definition setDisconnected :: "bool \<Rightarrow> 'c connection \<Rightarrow> 'c connection" where
  "setDisconnected d c = c\<lparr>disconnected := d\<rparr>"

definition setKeepAlive :: "bool \<Rightarrow> 'c connection \<Rightarrow> 'c connection" where
  "setKeepAlive k c = c\<lparr>keep_alive := k\<rparr>"

definition setContext :: "'c option \<Rightarrow> 'c connection \<Rightarrow> 'c connection" where
  "setContext x c = c\<lparr>context_ptr := x\<rparr>"


section \<open>Writing\<close>

definition mem_range :: "string \<Rightarrow> size_t \<Rightarrow> size_t \<Rightarrow> string res" where
  \<comment> \<open>the \<open>len\<close> bytes from offset \<open>off\<close> of a block of memory\<close>
  "mem_range s off len = (if off + len \<le> length s then Inr (take len (drop off s)) else Inl OutOfBounds)"

datatype io_call = Writev "string list" | Sendfile

definition raw_request :: "channel \<Rightarrow> (channel \<times> io_call) res" where
  "raw_request ch =
     (let sent = to_size (send_bytes ch); r = readable (sender ch)
      in if sent < r then
           res_bind (mem_range (buf_view (sender ch)) sent (size_sub r sent)) (\<lambda>iov0.
             let ch = ch\<lparr>remain_bytes := int (size_sub r sent)\<rparr>
             in case mm_bytes ch of
                  Some m \<Rightarrow> res_map (\<lambda>iov1. (ch\<lparr>remain_bytes := remain_bytes ch + int (mm_len ch)\<rparr>, Writev [iov0, iov1]))
                     (mem_range m 0 (mm_len ch))
                | None \<Rightarrow> if 0 < sf_len ch then Inr (ch\<lparr>remain_bytes := remain_bytes ch + int (sf_len ch)\<rparr>, Writev [iov0])
                          else Inr (ch, Writev [iov0]))
         else case mm_bytes ch of
                Some m \<Rightarrow> res_map (\<lambda>iov0. (ch, Writev [iov0]))
                   (mem_range m (size_sub sent r) (size_add (size_sub (mm_len ch) sent) r))
              | None \<Rightarrow> Inr (ch, if 0 < sf_len ch then Sendfile else Writev [[]]))"

definition max_rw :: nat where
  \<comment> \<open>\<open>0x7ffff000\<close>, the most one call transfers\<close>
  "max_rw = 2147479552"

definition accept_bytes :: "int \<Rightarrow> string \<Rightarrow> int \<times> string" where
  \<comment> \<open>the kernel takes what there is room for\<close>
  "accept_bytes room s =
     (if room < 0 then (-1, []) else let t = take (min max_rw (nat room)) s in (int (length t), t))"

definition io_do :: "int \<Rightarrow> io_call \<Rightarrow> channel \<Rightarrow> int \<times> string \<times> channel" where
  "io_do room call ch =
     (case call of
        Writev iov \<Rightarrow> let (n, t) = accept_bytes room (concat iov) in (n, t, ch)
      | Sendfile \<Rightarrow>
          (case sfile_obj ch of None \<Rightarrow> (-1, [], ch)
           | Some f \<Rightarrow> let (n, t) = accept_bytes room (take (sf_size f) (sf_file f))
                      in (n, t, ch\<lparr>sfile_obj := Some (f\<lparr>sf_file := drop (length t) (sf_file f)\<rparr>)\<rparr>)))"

definition count_sent :: "int \<Rightarrow> channel \<Rightarrow> channel" where
  "count_sent n ch =
     (if n \<ge> 0 then ch\<lparr>send_bytes := send_bytes ch + n, remain_bytes := remain_bytes ch - n\<rparr> else ch)"

definition RawChannel_write :: "int \<Rightarrow> channel \<Rightarrow> (int \<times> bool \<times> string \<times> channel) res" where
  "RawChannel_write room ch =
     res_map (\<lambda>(ch, call).
         let (n, out, ch) = io_do room call ch; ch = count_sent n ch
         in (n, remain_bytes ch \<le> 0, out, ch))
       (raw_request ch)"

definition ssl_request :: "channel \<Rightarrow> (channel \<times> string) res" where
  "ssl_request ch =
     (let sent = to_size (send_bytes ch); r = readable (sender ch)
      in if sent < r then
           (let n = int (size_sub r sent);
                ch = ch\<lparr>wsend_bytes := n, remain_bytes := n\<rparr>;
                ch = (if mm_bytes ch \<noteq> None then ch\<lparr>remain_bytes := remain_bytes ch + int (mm_len ch)\<rparr> else ch)
            in Inr (ch, drop sent (buf_view (sender ch))))
         else case mm_bytes ch of
                Some m \<Rightarrow>
                  (let n = int (size_add (size_sub (mm_len ch) sent) r)
                   in res_map (\<lambda>a. (ch\<lparr>wsend_bytes := n, remain_bytes := n\<rparr>, a)) (sv_remove_prefix m (size_sub sent r)))
              | None \<Rightarrow> Inr (ch, []))"

definition SSL_write :: "int \<Rightarrow> string \<Rightarrow> int \<Rightarrow> (int \<times> string) res" where
  \<comment> \<open>\<open>num\<close> is an \<open>int\<close>; a negative one is an error, and \<open>num\<close> bytes must be readable\<close>
  "SSL_write room address num =
     (if to_int num < 0 then Inr (-1, [])
      else res_map (accept_bytes room) (mem_range address 0 (nat (to_int num))))"

definition SslChannel_write :: "int \<Rightarrow> channel \<Rightarrow> (int \<times> bool \<times> string \<times> channel) res" where
  "SslChannel_write room ch =
     res_bind (ssl_request ch) (\<lambda>(ch, address).
     res_map (\<lambda>(n, out). let ch = count_sent n ch in (n, remain_bytes ch \<le> 0, out, ch))
       (SSL_write room address (wsend_bytes ch)))"

definition chan_write :: "int \<Rightarrow> channel \<Rightarrow> (int \<times> bool \<times> string \<times> channel) res" where
  \<comment> \<open>the virtual call \<open>channel_->write\<close>\<close>
  "chan_write room ch = (case ch_type ch of Raw \<Rightarrow> RawChannel_write room ch | Ssl \<Rightarrow> SslChannel_write room ch)"

fun TcpConnection_write :: "(int \<times> int) list \<Rightarrow> channel \<Rightarrow> (int \<times> int \<times> bool \<times> string \<times> channel) run" where
  \<comment> \<open>each call's room and what \<open>getError\<close> gives after it; \<open>None\<close>: still in the loop\<close>
  "TcpConnection_write [] ch = None"
| "TcpConnection_write ((room, err) # os) ch =
     run_bind (Some (chan_write room ch)) (\<lambda>(n, cflag, out, ch).
       if n < 0 then Some (Inr (n, err, cflag, out, ch))
       else if cflag then Some (Inr (0, err, cflag, out, reset_chan ch))
       else run_bind (TcpConnection_write os ch) (\<lambda>(n, err, cflag, out', ch). Some (Inr (n, err, cflag, out @ out', ch))))"


section \<open>Reading\<close>

definition kBufferSize :: nat where
  "kBufferSize = 4096"

definition RawChannel_read :: "string option \<Rightarrow> channel \<Rightarrow> (int \<times> channel) res" where
  "RawChannel_read r ch =
     (case r of None \<Rightarrow> Inr (-1, ch)
      | Some bs \<Rightarrow> let n = int (length (take kBufferSize bs))
          in if n > 0 then res_map (\<lambda>b. (n, ch\<lparr>recver := b\<rparr>)) (append_buf (recver ch) (take kBufferSize bs)) else Inr (n, ch))"

definition SslChannel_read :: "string option \<Rightarrow> channel \<Rightarrow> (int \<times> channel) res" where
  \<comment> \<open>the bytes are what \<open>SSL_read\<close> has deciphered\<close>
  "SslChannel_read r ch =
     (case r of None \<Rightarrow> Inr (-1, ch)
      | Some bs \<Rightarrow> let n = int (length (take kBufferSize bs))
          in if n > 0 then res_map (\<lambda>b. (n, ch\<lparr>recver := b\<rparr>)) (append_buf (recver ch) (take kBufferSize bs)) else Inr (n, ch))"

definition chan_read :: "string option \<Rightarrow> channel \<Rightarrow> (int \<times> channel) res" where
  "chan_read r ch = (case ch_type ch of Raw \<Rightarrow> RawChannel_read r ch | Ssl \<Rightarrow> SslChannel_read r ch)"

fun TcpConnection_read :: "(string option \<times> int) list \<Rightarrow> channel \<Rightarrow> (int \<times> int \<times> channel) run" where
  "TcpConnection_read [] ch = None"
| "TcpConnection_read ((r, err) # os) ch =
     run_bind (Some (chan_read r ch)) (\<lambda>(n, ch).
       if n > 0 then TcpConnection_read os ch else Some (Inr (n, err, ch)))"

definition again_code :: "channel_type \<Rightarrow> int \<Rightarrow> int" where
  \<comment> \<open>\<open>EAGAIN\<close>; \<open>SSL_ERROR_WANT_READ\<close> or \<open>SSL_ERROR_WANT_WRITE\<close>, the second argument\<close>
  "again_code ty want = (case ty of Raw \<Rightarrow> 11 | Ssl \<Rightarrow> want)"

definition readAgain :: "(string option \<times> int) list \<Rightarrow> channel \<Rightarrow> (int \<times> bool \<times> channel) run" where
  "readAgain os ch =
     run_bind (TcpConnection_read os ch) (\<lambda>(n, err, ch). Some (Inr (n, err = again_code (ch_type ch) 2, ch)))"

definition writeAgain :: "(int \<times> int) list \<Rightarrow> channel \<Rightarrow> (int \<times> int \<times> bool \<times> string \<times> channel) run" where
  \<comment> \<open>the local \<open>again\<close> is computed and dropped: the caller gets \<open>err\<close>\<close>
  "writeAgain os ch = TcpConnection_write os ch"

lemma chan_read_both:
  "chan_read r ch =
     (case r of None \<Rightarrow> Inr (-1, ch)
      | Some bs \<Rightarrow> let n = int (length (take 4096 bs))
          in if n > 0 then res_map (\<lambda>b. (n, ch\<lparr>recver := b\<rparr>)) (append_buf (recver ch) (take 4096 bs)) else Inr (n, ch))"
  unfolding chan_read_def RawChannel_read_def SslChannel_read_def kBufferSize_def by (simp split: channel_type.split)

section \<open>What is still to be sent\<close>

definition pending :: "channel \<Rightarrow> string" where
  "pending ch =
     drop (nat (send_bytes ch)) (buf_view (sender ch)) @
     (case mm_bytes ch of Some m \<Rightarrow> drop (nat (send_bytes ch) - length (buf_view (sender ch))) m
      | None \<Rightarrow> (case sfile_obj ch of Some f \<Rightarrow> if 0 < sf_size f then sf_file f else [] | None \<Rightarrow> []))"

definition body_ok :: "channel \<Rightarrow> bool" where
  \<comment> \<open>the mapping covers the whole of \<open>m\<close>; the file has as many bytes as \<open>sf_size\<close> says\<close>
  "body_ok ch \<longleftrightarrow>
     (case mm_bytes ch of Some m \<Rightarrow> mm_len ch = length m
      | None \<Rightarrow> (case sfile_obj ch of
          Some f \<Rightarrow> 0 < sf_size f \<longrightarrow>
            length (sf_file f) = sf_size f - (nat (send_bytes ch) - length (buf_view (sender ch)))
        | None \<Rightarrow> True))"

definition wr_ok :: "channel \<Rightarrow> bool" where
  "wr_ok ch \<longleftrightarrow> buf_inv (sender ch) \<and> 0 \<le> send_bytes ch \<and> body_ok ch \<and>
     (ch_type ch = Ssl \<longrightarrow> sfile_obj ch = None) \<and>
     int (length (pending ch)) + send_bytes ch < 9223372036854775807 \<and>
     (ch_type ch = Ssl \<longrightarrow> length (pending ch) < 2147483648) \<and>
     (int (length (buf_view (sender ch))) \<le> send_bytes ch \<longrightarrow> remain_bytes ch = int (length (pending ch)))"


lemma accept_bytes_spec:
  "accept_bytes room s = (n, t) \<Longrightarrow>
     (room < 0 \<longrightarrow> n = -1 \<and> t = []) \<and> (0 \<le> room \<longrightarrow> n = int (length t)) \<and> (0 < room \<longrightarrow> s \<noteq> [] \<longrightarrow> t \<noteq> []) \<and>
     t = take (length t) s \<and> length t \<le> length s"
  by (cases "room < 0") (auto simp: accept_bytes_def Let_def max_rw_def min_def split: if_splits)

lemma prefix_split: "t = take (length t) s \<Longrightarrow> length t \<le> length s \<Longrightarrow> p = s @ q \<Longrightarrow> p = t @ drop (length t) p"
  by (metis append_take_drop_id diff_is_0_eq take0 append_Nil2 take_append)

definition write_spec :: "int \<Rightarrow> channel \<Rightarrow> int \<times> bool \<times> string \<times> channel \<Rightarrow> bool" where
  \<comment> \<open>what one call of \<open>write\<close> promises\<close>
  "write_spec room ch = (\<lambda>(n, cflag, out, ch').
     pending ch = out @ pending ch' \<and> wr_ok ch' \<and> ch_type ch' = ch_type ch \<and> (cflag \<longleftrightarrow> pending ch' = []) \<and>
     (room < 0 \<longrightarrow> n = -1 \<and> out = []) \<and> (0 \<le> room \<longrightarrow> n = int (length out)) \<and> (0 < room \<longrightarrow> out \<noteq> []))"

lemma mem_range_ok: "off + len \<le> length s \<Longrightarrow> mem_range s off len = Inr (take len (drop off s))"
  by (simp add: mem_range_def)

text \<open>
  The bookkeeping after a call that has sent \<open>t\<close>, the first bytes of what was pending, when they did
  not come from \<open>sendfile\<close>.
\<close>

definition from_memory :: "channel \<Rightarrow> string \<Rightarrow> bool" where
  "from_memory ch t \<longleftrightarrow> sfile_obj ch = None \<or> mm_bytes ch \<noteq> None \<or> sf_len ch = 0 \<or>
     length t \<le> length (buf_view (sender ch)) - nat (send_bytes ch)"

lemma pending_sent:
  assumes "0 \<le> send_bytes ch" and "from_memory ch t"
  shows "pending (ch\<lparr>send_bytes := send_bytes ch + int (length t), remain_bytes := r\<rparr>) = drop (length t) (pending ch)"
proof -
  let ?S = "length (buf_view (sender ch))" and ?k = "nat (send_bytes ch)"
  have k: "nat (send_bytes ch + int (length t)) = length t + ?k" using assms(1) by (simp add: nat_add_distrib)
  have d: "length t + ?k - ?S = length t - (?S - ?k) + (?k - ?S)" by simp
  show ?thesis
    using assms(2) unfolding pending_def
    by (cases "mm_bytes ch"; cases "sfile_obj ch")
      (auto simp: k d from_memory_def mm_bytes_def sf_len_def split: option.splits)
qed

lemma body_ok_sent:
  assumes "0 \<le> send_bytes ch" and "from_memory ch t" and "body_ok ch"
  shows "body_ok (ch\<lparr>send_bytes := send_bytes ch + int (length t), remain_bytes := r\<rparr>)"
proof -
  let ?S = "length (buf_view (sender ch))" and ?k = "nat (send_bytes ch)"
  have k: "nat (send_bytes ch + int (length t)) = length t + ?k" using assms(1) by (simp add: nat_add_distrib)
  have "length t + ?k - ?S = ?k - ?S" if "length t \<le> ?S - ?k" using that by (cases "?S \<le> ?k") auto
  then show ?thesis
    using assms(2,3) by (auto simp: body_ok_def k from_memory_def mm_bytes_def mm_len_def sf_len_def split: option.splits)
qed

lemma wr_ok_sent:
  assumes ok: "wr_ok ch" and t: "from_memory ch t" "length t \<le> length (pending ch)"
    and r: "r = int (length (pending ch)) - int (length t)"
  shows "wr_ok (ch\<lparr>send_bytes := send_bytes ch + int (length t), remain_bytes := r\<rparr>)"
proof -
  have "0 \<le> send_bytes ch" "body_ok ch" using ok by (simp_all add: wr_ok_def)
  with ok t r show ?thesis
    by (auto simp: wr_ok_def pending_sent body_ok_sent)
qed

text \<open>\<open>a - k + s\<close> in \<open>size_t\<close>: the difference may wrap around, the sum wraps back.\<close>

lemma size_sub_add:
  assumes "s \<le> k" and "k - s \<le> a" and "a < size_mod" and "k < size_mod"
  shows "size_add (size_sub a k) s = a - (k - s)"
proof -
  have "size_add (size_sub a k) s = (a + (size_mod - k) + s) mod size_mod"
    using assms(4) by (simp add: size_add_def size_sub_def mod_add_left_eq)
  also have "a + (size_mod - k) + s = (a - (k - s)) + size_mod" using assms by simp
  also have "\<dots> mod size_mod = (a - (k - s)) mod size_mod" by (rule mod_add_self2)
  also have "\<dots> = a - (k - s)" using assms(3) by (intro mod_less) simp
  finally show ?thesis .
qed

lemma wr_ok_size: "wr_ok ch \<Longrightarrow> to_size (send_bytes ch) = nat (send_bytes ch) \<and> nat (send_bytes ch) < 9223372036854775807"
  by (auto simp: wr_ok_def to_size_def)

lemma buf_inv_size: "buf_inv b \<Longrightarrow> readable b = length (buf_view b) \<and> length (buf_view b) \<le> max_size"
  by (auto simp: buf_inv_def)

text \<open>What \<open>RawChannel::write\<close> asks the kernel for: a prefix of the pending bytes, never past the end of a block.\<close>

lemma raw_request_ok:
  assumes ok: "wr_ok ch" and ty: "ch_type ch = Raw" and p: "pending ch \<noteq> []"
  shows "(\<exists>iov q. raw_request ch = Inr (ch\<lparr>remain_bytes := int (length (pending ch))\<rparr>, Writev iov) \<and>
       pending ch = concat iov @ q \<and> concat iov \<noteq> [] \<and> (\<forall>t. length t \<le> length (concat iov) \<longrightarrow> from_memory ch t)) \<or>
     (\<exists>f. raw_request ch = Inr (ch\<lparr>remain_bytes := int (length (pending ch))\<rparr>, Sendfile) \<and> mm_bytes ch = None \<and>
       sfile_obj ch = Some f \<and> 0 < sf_size f \<and> pending ch = sf_file f \<and> length (buf_view (sender ch)) \<le> nat (send_bytes ch))"
proof -
  let ?S = "buf_view (sender ch)" and ?k = "nat (send_bytes ch)"
  have inv: "readable (sender ch) = length ?S" "length ?S \<le> max_size" using ok buf_inv_size by (auto simp: wr_ok_def)
  have k: "to_size (send_bytes ch) = ?k" "?k < 9223372036854775807" using wr_ok_size [OF ok] by simp_all
  have b: "body_ok ch" and nn: "0 \<le> send_bytes ch" using ok by (simp_all add: wr_ok_def)
  show ?thesis
  proof (cases "?k < length ?S")
    case True
    then have s: "size_sub (length ?S) ?k = length ?S - ?k" using inv by (intro size_sub_small) (simp_all add: max_size_def)
    have m: "mem_range ?S ?k (length ?S - ?k) = Inr (drop ?k ?S)" using True by (simp add: mem_range_def)
    show ?thesis
    proof (cases "mm_bytes ch")
      case (Some m')
      then have "mm_len ch = length m'" using b by (simp add: body_ok_def)
      moreover have "pending ch = drop ?k ?S @ m'" using True Some by (simp add: pending_def)
      ultimately show ?thesis using Some True m
        by (intro disjI1 exI [of _ "[drop ?k ?S, m']"] exI [of _ "[]"])
          (simp add: raw_request_def inv k s Let_def mm_bytes_def mm_len_def mem_range_def from_memory_def)
    next
      case None
      then obtain F where F: "pending ch = drop ?k ?S @ F" "length F = sf_len ch"
        using b True by (cases "sfile_obj ch") (auto simp: pending_def body_ok_def sf_len_def)
      show ?thesis using None True m F
        by (intro disjI1 exI [of _ "[drop ?k ?S]"] exI [of _ F])
          (simp add: raw_request_def inv k s Let_def mm_bytes_def sf_len_def from_memory_def)
    qed
  next
    case False
    then have "int (length ?S) \<le> send_bytes ch" using nn by linarith
    then have "remain_bytes ch = int (length (pending ch))" using ok by (simp add: wr_ok_def)
    then have rem: "ch\<lparr>remain_bytes := int (length (pending ch))\<rparr> = ch" by (metis channel.ext_inject channel.surjective channel.update_convs(8))
    show ?thesis
    proof (cases "mm_bytes ch")
      case (Some m)
      then have l: "mm_len ch = length m" using b by (simp add: body_ok_def)
      have pe: "pending ch = drop (?k - length ?S) m" using False Some by (simp add: pending_def)
      then have lt: "?k - length ?S < length m" using p by auto
      have "length m = length (pending ch) + (?k - length ?S)" using lt pe by simp
      moreover have "int (length (pending ch)) + send_bytes ch < 9223372036854775807" using ok by (simp add: wr_ok_def)
      ultimately have "length m < 9223372036854775807" using nn by linarith
      with k(2) have sz: "length m < size_mod" "?k < size_mod" by linarith+
      have "size_sub ?k (length ?S) = ?k - length ?S" using False sz by (intro size_sub_small) simp_all
      moreover have "size_add (size_sub (length m) ?k) (length ?S) = length m - (?k - length ?S)"
        using False lt sz by (intro size_sub_add) simp_all
      moreover have "mem_range m (?k - length ?S) (length m - (?k - length ?S)) = Inr (pending ch)" using lt pe by (simp add: mem_range_def)
      ultimately show ?thesis using Some False l rem p
        by (intro disjI1 exI [of _ "[pending ch]"] exI [of _ "[]"]) (simp add: raw_request_def inv k Let_def from_memory_def)
    next
      case None
      then obtain f where f: "sfile_obj ch = Some f" "0 < sf_size f" "pending ch = sf_file f"
        using p False by (cases "sfile_obj ch") (auto simp: pending_def split: if_splits)
      then show ?thesis using None False rem
        by (intro disjI2 exI [of _ f]) (simp add: raw_request_def inv k Let_def sf_len_def)
    qed
  qed
qed


lemma io_do_writev: "io_do room (Writev iov) ch = (fst (accept_bytes room (concat iov)), snd (accept_bytes room (concat iov)), ch)"
  by (simp add: io_do_def case_prod_beta)

lemma RawChannel_write_ok:
  assumes ok: "wr_ok ch" and ty: "ch_type ch = Raw" and p: "pending ch \<noteq> []"
  shows "\<exists>r. RawChannel_write room ch = Inr r \<and> write_spec room ch r"
proof -
  let ?c = "ch\<lparr>remain_bytes := int (length (pending ch))\<rparr>"
  have nn: "0 \<le> send_bytes ch" using ok by (simp add: wr_ok_def)
  from raw_request_ok [OF assms] show ?thesis
  proof (elim disjE exE conjE)
    fix iov q
    assume r: "raw_request ch = Inr (?c, Writev iov)" and q: "pending ch = concat iov @ q" "concat iov \<noteq> []"
      and fm: "\<forall>t. length t \<le> length (concat iov) \<longrightarrow> from_memory ch t"
    obtain n t where a: "accept_bytes room (concat iov) = (n, t)" by force
    note spec = accept_bytes_spec [OF a]
    have t: "from_memory ch t" "length t \<le> length (pending ch)" using fm spec q by auto
    have tp: "pending ch = t @ drop (length t) (pending ch)" using spec q prefix_split by metis
    have ne: "0 < room \<longrightarrow> t \<noteq> []" using spec q by blast
    let ?d = "ch\<lparr>send_bytes := send_bytes ch + int (length t), remain_bytes := int (length (pending ch)) - int (length t)\<rparr>"
    show ?thesis
    proof (cases "room < 0")
      case True
      then have "RawChannel_write room ch = Inr (-1, False, [], ?c)"
        using spec a p by (simp add: RawChannel_write_def r io_do_writev count_sent_def Let_def)
      then show ?thesis using wr_ok_sent [OF ok, of "[]"] True p pending_sent [OF nn, of "[]"] ty
        by (simp add: write_spec_def from_memory_def)
    next
      case False
      then have "RawChannel_write room ch = Inr (int (length t), length (pending ch) \<le> length t, t, ?d)"
        using spec a by (simp add: RawChannel_write_def r io_do_writev count_sent_def Let_def)
      then show ?thesis using wr_ok_sent [OF ok t refl] pending_sent [OF nn t(1)] tp False ne ty
        by (simp add: write_spec_def)
    qed
  next
    fix f
    assume r: "raw_request ch = Inr (?c, Sendfile)" and f: "mm_bytes ch = None" "sfile_obj ch = Some f" "0 < sf_size f"
      "pending ch = sf_file f" and S: "length (buf_view (sender ch)) \<le> nat (send_bytes ch)"
    have len: "length (sf_file f) = sf_size f - (nat (send_bytes ch) - length (buf_view (sender ch)))"
      using ok f by (simp add: wr_ok_def body_ok_def)
    then have all: "take (sf_size f) (sf_file f) = pending ch" using f by simp
    obtain n t where a: "accept_bytes room (pending ch) = (n, t)" by force
    note spec = accept_bytes_spec [OF a]
    let ?g = "\<lambda>t. ch\<lparr>sfile_obj := Some (f\<lparr>sf_file := drop (length t) (sf_file f)\<rparr>), send_bytes := send_bytes ch + int (length t),
      remain_bytes := int (length (pending ch)) - int (length t)\<rparr>"
    have k: "nat (send_bytes ch + int (length u)) = length u + nat (send_bytes ch)" for u :: string using nn by (simp add: nat_add_distrib)
    have pg: "pending (?g u) = drop (length u) (pending ch)" for u :: string
      using f S by (simp add: pending_def mm_bytes_def k)
    have bg: "body_ok (?g u)" for u :: string using f S len by (simp add: body_ok_def mm_bytes_def k)
    have wg: "wr_ok (?g u)" if "length u \<le> length (pending ch)" for u :: string
    proof -
      have "int (length (pending ch)) + send_bytes ch < 9223372036854775807" "buf_inv (sender ch)" using ok by (simp_all add: wr_ok_def)
      then show ?thesis unfolding wr_ok_def pg using bg [of u] that nn ty by simp
    qed
    show ?thesis
    proof (cases "room < 0")
      case True
      then have "RawChannel_write room ch = Inr (-1, False, [], ?g [])"
        using spec a p f by (simp add: RawChannel_write_def r io_do_def all count_sent_def Let_def)
      then show ?thesis using wg [of "[]"] pg [of "[]"] True p ty by (simp add: write_spec_def)
    next
      case False
      then have "RawChannel_write room ch = Inr (int (length t), length (pending ch) \<le> length t, t, ?g t)"
        using spec a f by (simp add: RawChannel_write_def r io_do_def all count_sent_def Let_def)
      moreover have "pending ch = t @ drop (length t) (pending ch)" using spec by (metis append_take_drop_id)
      ultimately show ?thesis using wg [of t] pg [of t] False spec p ty by (simp add: write_spec_def)
    qed
  qed
qed

lemma ssl_request_ok:
  assumes ok: "wr_ok ch" and ty: "ch_type ch = Ssl" and p: "pending ch \<noteq> []"
  shows "\<exists>w a q. ssl_request ch = Inr (ch\<lparr>wsend_bytes := int w, remain_bytes := int (length (pending ch))\<rparr>, a) \<and>
     w \<le> length a \<and> pending ch = take w a @ q \<and> 0 < w"
proof -
  let ?S = "buf_view (sender ch)" and ?k = "nat (send_bytes ch)"
  have inv: "readable (sender ch) = length ?S" "length ?S \<le> max_size" using ok buf_inv_size by (auto simp: wr_ok_def)
  have k: "to_size (send_bytes ch) = ?k" "?k < 9223372036854775807" using wr_ok_size [OF ok] by simp_all
  have b: "body_ok ch" and nn: "0 \<le> send_bytes ch" and sf: "sfile_obj ch = None"
    and le: "int (length (pending ch)) + send_bytes ch < 9223372036854775807" using ok ty by (simp_all add: wr_ok_def)
  show ?thesis
  proof (cases "?k < length ?S")
    case True
    then have s: "size_sub (length ?S) ?k = length ?S - ?k" using inv by (intro size_sub_small) (simp_all add: max_size_def)
    obtain q where "pending ch = drop ?k ?S @ q" "length q = (if mm_bytes ch = None then 0 else mm_len ch)"
      using b sf True by (cases "mm_bytes ch") (auto simp: pending_def body_ok_def)
    then show ?thesis using True
      by (intro exI [of _ "length ?S - ?k"] exI [of _ "drop ?k ?S"] exI [of _ q])
        (simp add: ssl_request_def inv k s Let_def mm_bytes_def mm_len_def)
  next
    case False
    then obtain m where m: "mm_bytes ch = Some m" "pending ch = drop (?k - length ?S) m"
      using p sf by (cases "mm_bytes ch") (auto simp: pending_def)
    then have l: "mm_len ch = length m" "?k - length ?S < length m" using b p by (auto simp: body_ok_def)
    then have "length m = length (pending ch) + (?k - length ?S)" using m by simp
    then have "length m < 9223372036854775807" using le nn by linarith
    with k(2) have sz: "length m < size_mod" "?k < size_mod" by linarith+
    have "size_sub ?k (length ?S) = ?k - length ?S" using False sz by (intro size_sub_small) simp_all
    moreover have "size_add (size_sub (length m) ?k) (length ?S) = length m - (?k - length ?S)"
      using False l sz by (intro size_sub_add) simp_all
    ultimately have "ssl_request ch = Inr (ch\<lparr>wsend_bytes := int (length (pending ch)), remain_bytes := int (length (pending ch))\<rparr>, pending ch)"
      using False m l by (simp add: ssl_request_def inv k Let_def sv_remove_prefix_def)
    then show ?thesis using p by (intro exI [of _ "length (pending ch)"] exI [of _ "pending ch"] exI [of _ "[]"]) simp
  qed
qed


lemma pending_wsend [simp]: "pending (ch\<lparr>wsend_bytes := w\<rparr>) = pending ch"
  by (simp add: pending_def mm_bytes_def cong: option.case_cong)

lemma body_ok_wsend [simp]: "body_ok (ch\<lparr>wsend_bytes := w\<rparr>) = body_ok ch"
  by (simp add: body_ok_def mm_bytes_def mm_len_def cong: option.case_cong)

lemma wr_ok_wsend [simp]: "wr_ok (ch\<lparr>wsend_bytes := w\<rparr>) = wr_ok ch"
  by (simp add: wr_ok_def)

lemma SslChannel_write_ok:
  assumes ok: "wr_ok ch" and ty: "ch_type ch = Ssl" and p: "pending ch \<noteq> []"
  shows "\<exists>r. SslChannel_write room ch = Inr r \<and> write_spec room ch r"
proof -
  from ssl_request_ok [OF assms] obtain w a q where r: "ssl_request ch = Inr (ch\<lparr>wsend_bytes := int w, remain_bytes := int (length (pending ch))\<rparr>, a)"
    and w: "w \<le> length a" "pending ch = take w a @ q" "0 < w" by blast
  let ?c = "ch\<lparr>wsend_bytes := int w\<rparr>"
  have okc: "wr_ok ?c" "0 \<le> send_bytes ?c" and small: "length (pending ch) < 2147483648" and fm: "from_memory ?c t" for t
    using ok ty by (simp_all add: wr_ok_def from_memory_def)
  have num: "to_int (int w) = int w" using small w by (intro to_int_id) (simp add: int_range_def)
  obtain n t where a: "accept_bytes room (take w a) = (n, t)" by force
  note spec = accept_bytes_spec [OF a]
  have s: "SSL_write room a (int w) = Inr (n, t)" using w a by (simp add: SSL_write_def num mem_range_def)
  have tp: "pending ch = t @ drop (length t) (pending ch)" using spec w(2) prefix_split by metis
  have le: "length t \<le> length (pending ch)" using spec w by auto
  have ne: "0 < room \<longrightarrow> t \<noteq> []" using spec w by auto
  show ?thesis
  proof (cases "room < 0")
    case True
    then have "SslChannel_write room ch = Inr (-1, False, [], ?c\<lparr>remain_bytes := int (length (pending ch))\<rparr>)"
      using spec p by (simp add: SslChannel_write_def r s count_sent_def Let_def)
    then show ?thesis using wr_ok_sent [OF okc(1) fm [of "[]"]] pending_sent [OF okc(2) fm [of "[]"]] True p ty fm
      by (simp add: write_spec_def)
  next
    case False
    then have "SslChannel_write room ch = Inr (int (length t), length (pending ch) \<le> length t, t,
        ?c\<lparr>send_bytes := send_bytes ch + int (length t), remain_bytes := int (length (pending ch)) - int (length t)\<rparr>)"
      using spec by (simp add: SslChannel_write_def r s count_sent_def Let_def)
    then show ?thesis using wr_ok_sent [OF okc(1) fm [of t]] pending_sent [OF okc(2) fm [of t]] tp le False ne ty
      by (simp add: write_spec_def)
  qed
qed

lemma chan_write_ok:
  assumes "wr_ok ch" and "pending ch \<noteq> []"
  shows "\<exists>r. chan_write room ch = Inr r \<and> write_spec room ch r"
  using assms RawChannel_write_ok SslChannel_write_ok by (cases "ch_type ch") (simp_all add: chan_write_def)


section \<open>Sending a response\<close>

definition event_ok :: "(int \<times> int) list \<Rightarrow> nat \<Rightarrow> bool" where
  \<comment> \<open>the kernel does not answer 0, and after at most \<open>n\<close> calls it has taken everything or has failed\<close>
  "event_ok os n \<longleftrightarrow> (\<forall>(room, err)\<in>set os. room \<noteq> 0) \<and> (n \<le> length os \<or> (\<exists>(room, err)\<in>set os. room < 0))"

definition write_result :: "channel \<Rightarrow> int \<times> int \<times> bool \<times> string \<times> channel \<Rightarrow> bool" where
  "write_result ch = (\<lambda>(n, err, cflag, out, ch').
     if cflag then n = 0 \<and> out = pending ch \<and> (\<exists>c. ch' = reset_chan c)
     else n = -1 \<and> pending ch = out @ pending ch' \<and> pending ch' \<noteq> [] \<and> wr_ok ch' \<and> ch_type ch' = ch_type ch)"

lemma TcpConnection_write_ok:
  assumes "wr_ok ch" and "pending ch \<noteq> []" and "event_ok os (length (pending ch))"
  shows "\<exists>r. TcpConnection_write os ch = Some (Inr r) \<and> write_result ch r"
  using assms
proof (induction os arbitrary: ch)
  case Nil
  then show ?case by (simp add: event_ok_def)
next
  case (Cons o1 os)
  obtain room err where o1: "o1 = (room, err)" by force
  from chan_write_ok [OF Cons.prems(1,2)] obtain n cflag out ch' where
    w: "chan_write room ch = Inr (n, cflag, out, ch')" "write_spec room ch (n, cflag, out, ch')" by (metis prod_cases4)
  note spec = w(2) [unfolded write_spec_def prod.case]
  have r0: "room \<noteq> 0" using Cons.prems(3) o1 by (simp add: event_ok_def)
  consider "room < 0" | "0 < room" cflag | "0 < room" "\<not> cflag" using r0 by linarith
  then show ?case
  proof cases
    case 1
    then have "n = -1" "out = []" "pending ch' = pending ch" "\<not> cflag" using spec Cons.prems(2) by auto
    then show ?thesis using w spec Cons.prems(2) o1 by (simp add: write_result_def)
  next
    case 2
    then have "pending ch' = []" "0 \<le> n" using spec by auto
    then show ?thesis using w spec 2 o1 by (auto simp: write_result_def)
  next
    case 3
    then have p: "pending ch' \<noteq> []" "0 \<le> n" "pending ch = out @ pending ch'" "out \<noteq> []" using spec by auto
    then have "length (pending ch') < length (pending ch)" by simp
    then have "event_ok os (length (pending ch'))" using Cons.prems(3) o1 3 by (auto simp: event_ok_def)
    then obtain r where r: "TcpConnection_write os ch' = Some (Inr r)" "write_result ch' r"
      using Cons.IH [of ch'] spec p(1) by blast
    obtain n2 err2 c2 out2 ch2 where r2: "r = (n2, err2, c2, out2, ch2)" by (metis prod_cases5)
    have "TcpConnection_write (o1 # os) ch = Some (Inr (n2, err2, c2, out @ out2, ch2))"
      using w 3 p r r2 o1 by simp
    moreover have "write_result ch (n2, err2, c2, out @ out2, ch2)"
      using r(2) p(3) spec unfolding r2 write_result_def by (auto split: if_splits)
    ultimately show ?thesis by blast
  qed
qed

text \<open>The writable events of one response: \<open>TcpConnection::write\<close> is called at each, until it completes.\<close>

fun write_events :: "(int \<times> int) list list \<Rightarrow> channel \<Rightarrow> (bool \<times> string \<times> channel) run" where
  "write_events [] ch = Some (Inr (False, [], ch))"
| "write_events (os # evs) ch =
     run_bind (TcpConnection_write os ch) (\<lambda>(n, err, cflag, out, ch).
       if cflag then Some (Inr (True, out, ch))
       else run_bind (write_events evs ch) (\<lambda>(cflag, out', ch). Some (Inr (cflag, out @ out', ch))))"

lemma write_events_ok:
  assumes "wr_ok ch" and "pending ch \<noteq> []" and "\<forall>os\<in>set evs. event_ok os (length (pending ch))"
  shows "\<exists>cflag out ch'. write_events evs ch = Some (Inr (cflag, out, ch')) \<and>
     (if cflag then out = pending ch \<and> (\<exists>c. ch' = reset_chan c) else pending ch = out @ pending ch' \<and> pending ch' \<noteq> [] \<and> wr_ok ch')"
  using assms
proof (induction evs arbitrary: ch)
  case (Cons os evs)
  obtain r where r: "TcpConnection_write os ch = Some (Inr r)" "write_result ch r"
    using TcpConnection_write_ok [OF Cons.prems(1,2), of os] Cons.prems(3) by (meson list.set_intros(1))
  obtain n err c out ch1 where r1: "r = (n, err, c, out, ch1)" by (metis prod_cases5)
  show ?case
  proof (cases c)
    case True
    then show ?thesis using r unfolding r1 write_result_def by auto
  next
    case False
    then have s: "pending ch = out @ pending ch1" "pending ch1 \<noteq> []" "wr_ok ch1" using r(2) unfolding r1 write_result_def by simp_all
    have "event_ok os (length (pending ch1))" if "os \<in> set evs" for os
      using Cons.prems(3) that s(1) by (fastforce simp: event_ok_def)
    with Cons.IH [OF s(3,2)] obtain cf o2 ch2 where
      "write_events evs ch1 = Some (Inr (cf, o2, ch2))" "if cf then o2 = pending ch1 \<and> (\<exists>c. ch2 = reset_chan c) else pending ch1 = o2 @ pending ch2 \<and> pending ch2 \<noteq> [] \<and> wr_ok ch2"
      by blast
    then show ?thesis using r(1) s(1) False unfolding r1 by (auto split: if_splits)
  qed
qed auto

text \<open>A channel that has just been given a response: its head in the sender, and one kind of body.\<close>

datatype body = NoBody | Mapped int string | FromFile int string

fun load_body :: "body \<Rightarrow> channel \<Rightarrow> channel" where
  "load_body NoBody ch = ch"
| "load_body (Mapped fd m) ch = createMMapObject (Some m) fd (length m) ch"
| "load_body (FromFile fd file) ch = createSendFileObject file fd (length file) ch"

fun body_bytes :: "body \<Rightarrow> string" where
  "body_bytes NoBody = []"
| "body_bytes (Mapped _ m) = m"
| "body_bytes (FromFile _ file) = file"

definition idle :: "channel \<Rightarrow> bool" where
  "idle ch \<longleftrightarrow> send_bytes ch = 0 \<and> mmap_obj ch = None \<and> sfile_obj ch = None \<and> buf_inv (sender ch)"

definition body_fits :: "body \<Rightarrow> channel \<Rightarrow> bool" where
  \<comment> \<open>\<open>sendfile\<close> only where it is enabled; sizes within the types\<close>
  "body_fits body ch \<longleftrightarrow>
     (case body of FromFile _ _ \<Rightarrow> use_sendfile ch \<and> ch_type ch = Raw | _ \<Rightarrow> True) \<and>
     length (buf_view (sender ch)) + length (body_bytes body) <
       (if ch_type ch = Ssl then 2147483648 else 9223372036854775807)"

lemma load_body_ok:
  assumes "idle ch" and "buf_view (sender ch) \<noteq> []" and "body_fits body ch"
  shows "wr_ok (load_body body ch) \<and> pending (load_body body ch) = buf_view (sender ch) @ body_bytes body"
proof -
  let ?c = "load_body body ch"
  have k: "send_bytes ?c = 0" "sender ?c = sender ch" "ch_type ?c = ch_type ch"
    using assms(1) by (cases body; simp add: idle_def createMMapObject_def createSendFileObject_def)+
  have b: "pending ?c = buf_view (sender ch) @ body_bytes body \<and> body_ok ?c \<and> (ch_type ch = Ssl \<longrightarrow> sfile_obj ?c = None)"
    using assms(1,3)
    by (cases body) (simp_all add: idle_def pending_def body_ok_def mm_bytes_def mm_len_def createMMapObject_def
        createSendFileObject_def MMap_new_def body_fits_def)
  then show ?thesis
    using assms k unfolding wr_ok_def idle_def body_fits_def
    by (auto simp del: length_buf_view split: if_splits)
qed

lemma response_sent:
  assumes "idle ch" and "buf_view (sender ch) \<noteq> []" and "body_fits body ch"
    and "\<forall>os\<in>set evs. event_ok os (length (buf_view (sender ch) @ body_bytes body))"
  shows "\<exists>cflag out ch'. write_events evs (load_body body ch) = Some (Inr (cflag, out, ch')) \<and>
     (if cflag then out = buf_view (sender ch) @ body_bytes body \<and> (\<exists>c. ch' = reset_chan c)
      else \<exists>rest. rest \<noteq> [] \<and> buf_view (sender ch) @ body_bytes body = out @ rest)"
proof -
  note l = load_body_ok [OF assms(1-3)]
  then have "pending (load_body body ch) \<noteq> []" using assms(2) by simp
  with write_events_ok [of "load_body body ch" evs] l assms(4) show ?thesis by (fastforce split: if_splits)
qed

text \<open>
  C3. Whatever the kernel takes at each call and however the writable events split the response, on a
  plain or a TLS connection, the bytes that reach the peer are the head of the response followed by its
  body (empty, mapped or sent by \<open>sendfile\<close>), each byte once and in order; the response is
  reported complete, and the channel reset, exactly when all of them have been sent.
\<close>

theorem response_sent_in_order:
  assumes "idle ch" and "buf_view (sender ch) \<noteq> []" and "body_fits body ch"
    and "\<forall>os\<in>set evs. event_ok os (length (buf_view (sender ch) @ body_bytes body))"
  shows "\<exists>cflag out ch'. write_events evs (load_body body ch) = Some (Inr (cflag, out, ch')) \<and>
     (if cflag then out = buf_view (sender ch) @ body_bytes body \<and> (\<exists>c. ch' = reset_chan c)
      else \<exists>rest. rest \<noteq> [] \<and> buf_view (sender ch) @ body_bytes body = out @ rest)"
  using assms by (rule response_sent)

definition demo_channel :: channel where
  "demo_channel = (Channel_new Raw 7 True)\<lparr>sender := \<lparr>buf_data = ''HEAD'', rindex = 0, windex = 4\<rparr>\<rparr>"

lemma demo_channel_simps [simp]:
  "idle demo_channel" "buf_view (sender demo_channel) = ''HEAD''" "use_sendfile demo_channel" "ch_type demo_channel = Raw"
  by (simp_all add: demo_channel_def idle_def Channel_new_def buf_inv_def max_size_def buf_view_def readable_def size_sub_def)

theorem response_sent_in_order_witness:
  "\<exists>cflag out ch'. write_events [[(3, 0), (-1, 11)], [(9, 0), (-1, 11)]] (load_body (FromFile 9 ''body'') demo_channel) =
       Some (Inr (cflag, out, ch')) \<and>
     (if cflag then out = buf_view (sender demo_channel) @ body_bytes (FromFile 9 ''body'') \<and> (\<exists>c. ch' = reset_chan c)
      else \<exists>rest. rest \<noteq> [] \<and> buf_view (sender demo_channel) @ body_bytes (FromFile 9 ''body'') = out @ rest)"
  by (rule response_sent_in_order) (simp_all add: body_fits_def event_ok_def)

lemma TcpConnection_write_completes:
  assumes "wr_ok ch" and "pending ch \<noteq> []" and "\<forall>(room, err)\<in>set os. 0 < room" and "length (pending ch) \<le> length os"
  shows "\<exists>err ch'. TcpConnection_write os ch = Some (Inr (0, err, True, pending ch, reset_chan ch'))"
  using assms
proof (induction os arbitrary: ch)
  case (Cons o1 os)
  obtain room err where o1: "o1 = (room, err)" by force
  from chan_write_ok [OF Cons.prems(1,2)] obtain n cflag out ch' where
    w: "chan_write room ch = Inr (n, cflag, out, ch')" "write_spec room ch (n, cflag, out, ch')" by (metis prod_cases4)
  have "0 < room" using Cons.prems(3) o1 by simp
  then have s: "pending ch = out @ pending ch'" "wr_ok ch'" "0 \<le> n" "out \<noteq> []" "cflag \<longleftrightarrow> pending ch' = []"
    using w(2) unfolding write_spec_def by auto
  show ?case
  proof (cases cflag)
    case True
    then show ?thesis using w s o1 by auto
  next
    case False
    then have "length (pending ch') \<le> length os" using Cons.prems(4) s by (cases out) auto
    with Cons.IH [OF s(2)] False s(5) Cons.prems(3) obtain err' c' where
      "TcpConnection_write os ch' = Some (Inr (0, err', True, pending ch', reset_chan c'))" by auto
    then show ?thesis using w s o1 False by auto
  qed
qed simp

text \<open>
  A response is completed by any writable event at which the kernel takes at least one byte per call
  for as long as there is something to send: the loop ends after at most as many calls as there are
  bytes left.
\<close>

theorem response_completes:
  assumes "idle ch" and "buf_view (sender ch) \<noteq> []" and "body_fits body ch"
    and "\<forall>(room, err)\<in>set os. 0 < room" and "length (buf_view (sender ch) @ body_bytes body) \<le> length os"
  shows "\<exists>err ch'. TcpConnection_write os (load_body body ch) =
     Some (Inr (0, err, True, buf_view (sender ch) @ body_bytes body, reset_chan ch'))"
  using load_body_ok [OF assms(1-3)] TcpConnection_write_completes [of "load_body body ch" os] assms(2,4,5) by simp

theorem response_completes_witness:
  "\<exists>err ch'. TcpConnection_write (replicate 8 (1, 0)) (load_body (Mapped 9 ''body'') demo_channel) =
     Some (Inr (0, err, True, buf_view (sender demo_channel) @ body_bytes (Mapped 9 ''body''), reset_chan ch'))"
  by (rule response_completes) (simp_all add: body_fits_def)


section \<open>Responses that go wrong\<close>

text \<open>
  A mapped body with an empty sender is reported complete by the first call, however few bytes the
  kernel takes: \<open>remain_bytes_\<close> is only set when there is something in the sender.
\<close>

theorem mapped_body_alone_cut_short:
  assumes "idle ch" and "ch_type ch = Raw" and "remain_bytes ch = 0" and "buf_view (sender ch) = []"
    and "0 \<le> room" and "nat room \<le> length m" and "length m < 2147479552"
  shows "\<exists>ch'. RawChannel_write room (load_body (Mapped fd m) ch) = Inr (room, True, take (nat room) m, ch')"
proof -
  let ?c = "load_body (Mapped fd m) ch"
  have c: "?c = ch\<lparr>mmap_obj := Some \<lparr>mm_addr = Some m, mm_fd = fd, mm_size = length m\<rparr>\<rparr>"
    using assms(1) by (simp add: idle_def createMMapObject_def MMap_new_def)
  have "readable (sender ch) = 0" using assms(1,4) buf_inv_size [of "sender ch"] by (simp add: idle_def)
  moreover have "size_sub (length m) 0 = length m" "size_add (length m) 0 = length m"
    using assms(7) by (simp_all add: size_sub_small size_add_small)
  moreover have "to_size 0 = 0" "size_sub 0 0 = 0" by (simp_all add: to_size_def size_sub_def)
  ultimately have "raw_request ?c = Inr (?c, Writev [m])"
    using assms(1,4) unfolding c by (simp add: raw_request_def idle_def mm_bytes_def mm_len_def mem_range_def)
  moreover have "accept_bytes room m = (room, take (nat room) m)"
    using assms(5-7) by (simp add: accept_bytes_def max_rw_def Let_def)
  ultimately show ?thesis
    using assms(1,3,5) unfolding c RawChannel_write_def
    by (simp add: io_do_writev count_sent_def Let_def idle_def)
qed

theorem mapped_body_alone_cut_short_witness:
  "\<exists>ch'. RawChannel_write 2 (load_body (Mapped 9 ''body'') (Channel_new Raw 7 False)) = Inr (2, True, take (nat 2) ''body'', ch')"
  by (rule mapped_body_alone_cut_short) (simp_all add: idle_def Channel_new_def buf_inv_def Buffer_new_def max_size_def buf_view_def)


text \<open>A \<open>sendfile\<close> body whose file has fewer bytes than the size it was created with.\<close>

definition short_inv :: "channel \<Rightarrow> bool" where
  "short_inv ch \<longleftrightarrow> ch_type ch = Raw \<and> mm_bytes ch = None \<and> buf_inv (sender ch) \<and>
     0 \<le> send_bytes ch \<and> send_bytes ch < 4611686018427387904 \<and>
     (\<exists>f. sfile_obj ch = Some f \<and> 0 < sf_size f \<and> length (sf_file f) < sf_size f \<and> sf_size f < 4611686018427387904 \<and>
        int (length (buf_view (sender ch))) + int (length (sf_file f)) < 4611686018427387904 \<and>
        (if send_bytes ch < int (length (buf_view (sender ch))) then True
         else send_bytes ch + int (length (sf_file f)) < 4611686018427387904 \<and> int (length (sf_file f)) < remain_bytes ch))"

lemma short_inv_step:
  assumes "short_inv ch" and "0 \<le> room"
  shows "\<exists>n out ch'. chan_write room ch = Inr (n, False, out, ch') \<and> 0 \<le> n \<and> short_inv ch'"
proof -
  let ?S = "length (buf_view (sender ch))" and ?k = "nat (send_bytes ch)"
  from assms(1) obtain f where f: "sfile_obj ch = Some f" "0 < sf_size f" "length (sf_file f) < sf_size f" "sf_size f < 4611686018427387904"
      "int ?S + int (length (sf_file f)) < 4611686018427387904"
    and k: "0 \<le> send_bytes ch" "send_bytes ch < 4611686018427387904" and mm: "mm_bytes ch = None" and ty: "ch_type ch = Raw"
    and inv: "buf_inv (sender ch)"
    and late: "\<not> send_bytes ch < int ?S \<Longrightarrow> send_bytes ch + int (length (sf_file f)) < 4611686018427387904 \<and> int (length (sf_file f)) < remain_bytes ch"
    unfolding short_inv_def by (auto simp del: length_buf_view split: if_splits)
  have r: "readable (sender ch) = ?S" "?S \<le> max_size" using inv buf_inv_size by auto
  have ts: "to_size (send_bytes ch) = ?k" using k by (simp add: to_size_def)
  show ?thesis
  proof (cases "send_bytes ch < int ?S")
    case True
    then have lt: "?k < ?S" using k by linarith
    then have sz: "size_sub ?S ?k = ?S - ?k" using r by (intro size_sub_small) (simp_all add: max_size_def)
    let ?iov = "drop ?k (buf_view (sender ch))"
    have req: "raw_request ch = Inr (ch\<lparr>remain_bytes := int (?S - ?k) + int (sf_size f)\<rparr>, Writev [?iov])"
      using lt mm f by (simp add: raw_request_def r ts sz Let_def mem_range_def mm_bytes_def sf_len_def del: length_buf_view)
    obtain n t where a: "accept_bytes room ?iov = (n, t)" by force
    note spec = accept_bytes_spec [OF a]
    have t: "n = int (length t)" "length t \<le> ?S - ?k" using spec assms(2) by (simp_all del: length_buf_view)
    let ?d = "ch\<lparr>send_bytes := send_bytes ch + int (length t), remain_bytes := int (?S - ?k) + int (sf_size f) - int (length t)\<rparr>"
    have "chan_write room ch = Inr (n, False, t, ?d)"
      using t f(2) ty unfolding chan_write_def RawChannel_write_def req
      by (simp add: io_do_writev a count_sent_def Let_def del: length_buf_view)
    moreover have "short_inv ?d" using f k mm ty inv t lt unfolding short_inv_def
      by (auto simp: mm_bytes_def simp del: length_buf_view)
    moreover have "0 \<le> n" using t by simp
    ultimately show ?thesis by blast
  next
    case False
    then have ge: "\<not> ?k < ?S" by linarith
    have req: "raw_request ch = Inr (ch, Sendfile)" using ge mm f by (simp add: raw_request_def r ts Let_def sf_len_def del: length_buf_view)
    have all: "take (sf_size f) (sf_file f) = sf_file f" using f(3) by simp
    obtain n t where a: "accept_bytes room (sf_file f) = (n, t)" by force
    note spec = accept_bytes_spec [OF a]
    have t: "n = int (length t)" "length t \<le> length (sf_file f)" using spec assms(2) by simp_all
    let ?d = "ch\<lparr>sfile_obj := Some (f\<lparr>sf_file := drop (length t) (sf_file f)\<rparr>), send_bytes := send_bytes ch + int (length t),
      remain_bytes := remain_bytes ch - int (length t)\<rparr>"
    have "chan_write room ch = Inr (n, False, t, ?d)"
      using t late [OF False] ty f(1) unfolding chan_write_def RawChannel_write_def req
      by (simp add: io_do_def all a count_sent_def Let_def)
    moreover have "short_inv ?d" using f k mm ty inv t late [OF False] unfolding short_inv_def
      by (auto simp: mm_bytes_def simp del: length_buf_view)
    moreover have "0 \<le> n" using t by simp
    ultimately show ?thesis by blast
  qed
qed

lemma short_inv_hangs: "short_inv ch \<Longrightarrow> \<forall>(room, err)\<in>set os. 0 \<le> room \<Longrightarrow> TcpConnection_write os ch = None"
proof (induction os arbitrary: ch)
  case (Cons o1 os)
  obtain room err where o1: "o1 = (room, err)" by force
  then have "0 \<le> room" using Cons.prems(2) by simp
  from short_inv_step [OF Cons.prems(1) this] obtain n out ch' where
    "chan_write room ch = Inr (n, False, out, ch')" "0 \<le> n" "short_inv ch'" by blast
  with Cons show ?case by (simp add: o1)
qed simp

text \<open>
  C34. When a file is shorter than the size it was announced with (it was truncated after the response was
  built), the loop of \<open>TcpConnection::write\<close> does not end as long as the socket accepts data:
  \<open>sendfile\<close> returns 0 at the end of the file and the loop calls it again.
\<close>

theorem truncated_file_never_returns:
  assumes "idle ch" and "ch_type ch = Raw" and "use_sendfile ch" and "buf_view (sender ch) \<noteq> []"
    and "length file < sz" and "sz < 4611686018427387904" and "length (buf_view (sender ch)) + length file < 4611686018427387904"
    and "\<forall>(room, err)\<in>set os. 0 \<le> room"
  shows "TcpConnection_write os (createSendFileObject file fd sz ch) = None"
proof (rule short_inv_hangs [OF _ assms(8)])
  show "short_inv (createSendFileObject file fd sz ch)"
    using assms(1-7) by (auto simp: short_inv_def idle_def createSendFileObject_def mm_bytes_def simp del: length_buf_view)
qed

theorem truncated_file_never_returns_witness:
  "TcpConnection_write (replicate 1000 (4096, 0)) (createSendFileObject ''bo'' 9 4 demo_channel) = None"
  by (rule truncated_file_never_returns) simp_all


section \<open>Receiving\<close>

text \<open>
  One readable event drains the socket: the bytes of all the pieces the kernel delivers, of at most
  4096 bytes each, are appended to the receive buffer in order, until the socket has no more (or the
  peer has closed); the result is that of the last call.
\<close>

theorem read_drains_socket:
  assumes "buf_inv (recver ch)" and "buf_room (recver ch) (length (concat pieces))"
    and "\<forall>p\<in>set pieces. p \<noteq> [] \<and> length p \<le> 4096" and "fin = None \<or> fin = Some []"
  shows "\<exists>ch'. TcpConnection_read (map (\<lambda>p. (Some p, 0)) pieces @ [(fin, err)]) ch =
       Some (Inr (if fin = None then -1 else 0, err, ch')) \<and>
     buf_inv (recver ch') \<and> buf_view (recver ch') = buf_view (recver ch) @ concat pieces \<and> ch'\<lparr>recver := recver ch\<rparr> = ch"
  using assms(1-3)
proof (induction pieces arbitrary: ch)
  case Nil
  then show ?case using assms(4) by (auto simp: chan_read_both)
next
  case (Cons p ps)
  have "buf_room (recver ch) (length p + length (concat ps))" using Cons.prems(2) by simp
  from append_buf_ok [OF Cons.prems(1) this] obtain b where
    b: "append_buf (recver ch) p = Inr b" "buf_inv b" "buf_room b (length (concat ps))" "buf_view b = buf_view (recver ch) @ p" by blast
  have r: "chan_read (Some p) ch = Inr (int (length p), ch\<lparr>recver := b\<rparr>)" "0 < length p"
    using b(1) Cons.prems(3) by (auto simp: chan_read_both)
  from Cons.IH [of "ch\<lparr>recver := b\<rparr>"] b Cons.prems(3) obtain ch' where
    "TcpConnection_read (map (\<lambda>p. (Some p, 0)) ps @ [(fin, err)]) (ch\<lparr>recver := b\<rparr>) = Some (Inr (if fin = None then -1 else 0, err, ch'))"
    "buf_inv (recver ch')" "buf_view (recver ch') = buf_view b @ concat ps" "ch'\<lparr>recver := b\<rparr> = ch\<lparr>recver := b\<rparr>" by auto
  then show ?case using r b(4) by (intro exI [of _ ch']) (auto, metis channel.surjective channel.update_convs(6))
qed

theorem read_drains_socket_witness:
  "\<exists>ch'. TcpConnection_read (map (\<lambda>p. (Some p, 0)) [''GET '', ''/''] @ [(None, 11)]) (Channel_new Raw 7 False) =
       Some (Inr (if (None :: string option) = None then -1 else 0, 11, ch')) \<and>
     buf_inv (recver ch') \<and> buf_view (recver ch') = buf_view (recver (Channel_new Raw 7 False)) @ concat [''GET '', ''/''] \<and>
     ch'\<lparr>recver := recver (Channel_new Raw 7 False)\<rparr> = Channel_new Raw 7 False"
  by (rule read_drains_socket) (simp_all add: Channel_new_def buf_inv_def buf_room_def Buffer_new_def max_size_def)

end
