(* ===== verification/HttpUtil.thy ===== *)
theory HttpUtil
  imports Cxx_Prelude
begin

text \<open>
  \<open>soc/http/include/HttpUtil.h\<close>: the status codes with their phrases and the content types, a
  table from the 64-bit hash of a file extension to a type. \<open>char\<close> is signed on the platform, so a
  byte from 128 on is added to the hash as a negative number.
\<close>

section \<open>Hash of an extension\<close>

definition schar :: "char \<Rightarrow> int" where
  "schar c = (if of_char c < (128 :: int) then of_char c else of_char c - 256)"

fun hashExt_from :: "64 word \<Rightarrow> sview \<Rightarrow> 64 word" where
  "hashExt_from h [] = h"
| "hashExt_from h (c # s) = hashExt_from (h * 31 + word_of_int (schar c)) s"

definition hashExt :: "sview \<Rightarrow> 64 word" where
  "hashExt s = hashExt_from 0 s"


section \<open>Status codes\<close>

definition Status_Code :: "(int \<times> string) list" where
  "Status_Code =
     [(100, ''Continue''), (200, ''OK''), (206, ''Partial Content''), (301, ''Moved Permanently''), (302, ''Found''),
      (304, ''Not Modified''), (307, ''Temporary Redirect''), (400, ''Bad Request''), (401, ''Unauthorized''),
      (403, ''Forbidden''), (404, ''Not Found''), (405, ''Method Not Allowed''), (416, ''Range Not Satisfiable''),
      (500, ''Internal Server Error''), (503, ''Service Unavailable''), (505, ''HTTP Version Not Suppported'')]"

definition to_short :: "int \<Rightarrow> int" where
  \<comment> \<open>the key type of the table is \<open>short\<close>\<close>
  "to_short x = (x + 32768) mod 65536 - 32768"

definition status_at :: "int \<Rightarrow> string res" where
  \<comment> \<open>\<open>Status_Code.at(code)\<close>\<close>
  "status_at code = (case map_of Status_Code (to_short code) of None \<Rightarrow> Inl OutOfRange | Some s \<Rightarrow> Inr s)"


section \<open>Content types\<close>

definition mime_table :: "(string \<times> string) list" where
  "mime_table =
     [(''html'', ''text/html''), (''htm'', ''text/html''), (''css'', ''text/css''), (''csv'', ''text/csv''), (''txt'', ''text/plain''),
      (''woff'', ''font/woff''), (''woff2'', ''font/woff2''), (''ttf'', ''font/ttf''), (''otf'', ''font/otf''),
      (''bmp'', ''image/x-ms-bmp''), (''svg'', ''image/svg+xml''), (''svgz'', ''image/svg+xml''), (''gif'', ''image/gif''),
      (''jpg'', ''image/jpeg''), (''jpeg'', ''image/jpeg''), (''webp'', ''image/webp''), (''png'', ''image/png''), (''ico'', ''image/x-icon''),
      (''wav'', ''audio/wav''), (''weba'', ''audio/webm''), (''mp3'', ''audio/mpeg''), (''oga'', ''audio/ogg''),
      (''ogv'', ''video/ogg''), (''mpeg'', ''video/mpeg''), (''mp4'', ''video/mp4''), (''avi'', ''video/x-msvideo''),
      (''wmv'', ''video/x-ms-wmv''), (''webm'', ''video/webm''), (''flv'', ''video/x-flv''), (''m4v'', ''video/x-m4v''),
      (''7z'', ''application/x-7z-compressed''), (''rar'', ''application/x-rar-compressed''), (''sh'', ''application/x-sh''),
      (''rss'', ''application/rss+xml''), (''tar'', ''application/x-tar''), (''jar'', ''application/java-archive''),
      (''gz'', ''application/gzip''), (''zip'', ''application/zip''), (''xhtml'', ''application/xhtml+xml''), (''xml'', ''application/xml''),
      (''js'', ''application/javascript''), (''pdf'', ''application/pdf''), (''doc'', ''application/msword''),
      (''xls'', ''application/vnd.ms-excel''), (''ppt'', ''application/vnd.ms-powerpoint''), (''eot'', ''application/vnd.ms-fontobject''),
      (''json'', ''application/json''), (''bin'', ''application/octet-stream''), (''exe'', ''application/octet-stream''),
      (''dll'', ''application/octet-stream''), (''deb'', ''application/octet-stream''), (''iso'', ''application/octet-stream''),
      (''img'', ''application/octet-stream''), (''dmg'', ''application/octet-stream''),
      (''docx'', ''application/vnd.openxmlformats-officedocument.wordprocessingml.document''),
      (''xlsx'', ''application/vnd.openxmlformats-officedocument.spreadsheetml.sheet''),
      (''pptx'', ''application/vnd.openxmlformats-officedocument.presentationml.presentation'')]"

definition Content_Type :: "(64 word \<times> string) list" where
  "Content_Type = map (\<lambda>(ext, type). (hashExt ext, type)) mime_table"

definition mappingMimeType :: "sview \<Rightarrow> string res" where
  \<comment> \<open>\<open>HttpServer::mappingMimeType\<close>\<close>
  "mappingMimeType url =
     (let i = sv_find_last_of url (CHR ''.'')
      in if i = npos then Inr ''application/octet-stream''
         else res_map (\<lambda>ext.
                let type = (case map_of Content_Type (hashExt ext) of Some t \<Rightarrow> t | None \<Rightarrow> ''application/octet-stream'')
                in if starts_with type ''text'' \<or> ends_with type ''xml'' \<or> ends_with type ''javascript'' \<or> ends_with type ''json''
                   then type @ '' ;charset=utf-8'' else type)
              (sv_substr url (size_add i 1) npos))"


section \<open>Properties\<close>

lemma schar_less: "schar c < 128 \<and> - 128 \<le> schar c"
proof -
  have "(of_char c :: int) < 256" using of_char_mod_256 [of c] by (metis pos_mod_bound zero_less_numeral)
  moreover have "0 \<le> (of_char c :: int)" by (metis nat_of_char of_nat_0_le_iff of_nat_of_char)
  ultimately show ?thesis by (auto simp: schar_def)
qed

text \<open>The table is built on hashes; no two of its extensions have the same one.\<close>

lemma distinct_hashes: "distinct (map fst Content_Type)"
  by (simp add: Content_Type_def mime_table_def hashExt_def schar_def)


lemma map_of_Content_Type: "(ext, type) \<in> set mime_table \<Longrightarrow> map_of Content_Type (hashExt ext) = Some type"
  using distinct_hashes by (intro map_of_is_SomeI) (auto simp: Content_Type_def)

lemma mime_extensions_plain: "\<forall>(ext, type)\<in>set mime_table. CHR ''.'' \<notin> set ext"
  by (simp add: mime_table_def)

lemma find_last_of_hit:
  assumes "c \<notin> set t" and "length (s @ c # t) < size_mod"
  shows "sv_find_last_of (s @ c # t) c = length s"
proof -
  have "search_if (\<lambda>x. x = c) (rev t @ c # rev s) = Some (length (rev t))"
    using assms(1) by (intro search_if_append_hit) auto
  then show ?thesis by (simp add: sv_find_last_of_def)
qed

definition with_charset :: "string \<Rightarrow> string" where
  "with_charset type =
     (if starts_with type ''text'' \<or> ends_with type ''xml'' \<or> ends_with type ''javascript'' \<or> ends_with type ''json''
      then type @ '' ;charset=utf-8'' else type)"

lemma mappingMimeType_ext:
  assumes "CHR ''.'' \<notin> set ext" and "length (stem @ CHR ''.'' # ext) < npos"
  shows "mappingMimeType (stem @ CHR ''.'' # ext) =
     Inr (with_charset (case map_of Content_Type (hashExt ext) of Some t \<Rightarrow> t | None \<Rightarrow> ''application/octet-stream''))"
proof -
  let ?u = "stem @ CHR ''.'' # ext"
  have i: "sv_find_last_of ?u (CHR ''.'') = length stem" using assms by (intro find_last_of_hit) (simp_all add: npos_def)
  have n: "length stem \<noteq> npos" "size_add (length stem) 1 = length stem + 1" using assms(2) by (simp_all add: size_add_small npos_def)
  have "sv_substr ?u (length stem + 1) npos = Inr ext" using assms(2) by (simp add: sv_substr_def npos_def)
  with i n show ?thesis by (simp add: mappingMimeType_def Let_def with_charset_def cong: if_cong)
qed

text \<open>
  A file whose extension is in the table is served with the type the table gives for it (with the
  character set appended to the textual types): although the table is keyed by hashes, no entry hides
  another.
\<close>

theorem mime_type_by_extension:
  assumes "(ext, type) \<in> set mime_table" and "length (stem @ CHR ''.'' # ext) < npos"
  shows "mappingMimeType (stem @ CHR ''.'' # ext) = Inr (with_charset type)"
  using mappingMimeType_ext [OF _ assms(2)] map_of_Content_Type [OF assms(1)] mime_extensions_plain assms(1) by auto

theorem mime_type_by_extension_witness:
  "mappingMimeType (''/srv/index'' @ CHR ''.'' # ''html'') = Inr (with_charset ''text/html'')"
  by (rule mime_type_by_extension) (simp_all add: mime_table_def npos_def)

text \<open>The hash is not injective: a file that ends in \<open>.kT\<close> is served as JavaScript.\<close>

lemma mime_hash_collision: "mappingMimeType ''a.kT'' = Inr ''application/javascript ;charset=utf-8''"
proof -
  have "hashExt ''kT'' = hashExt ''js''" by (simp add: hashExt_def schar_def)
  moreover have "map_of Content_Type (hashExt ''js'') = Some ''application/javascript''"
    by (rule map_of_Content_Type) (simp add: mime_table_def)
  ultimately show ?thesis using mappingMimeType_ext [of "''kT''" "''a''"]
    by (simp add: npos_def with_charset_def starts_with_def ends_with_def)
qed

end
