(* ===== verification/HttpResponse.thy ===== *)
theory HttpResponse
  imports HttpRequest Channel HttpUtil
begin

text \<open>
  \<open>soc/http/src/HttpResponse.cc\<close> and \<open>soc/http/include/HttpResponse.h\<close>: the response
  under construction (\<open>HttpResponseBuilder\<close>, which \<open>HttpResponse\<close> only forwards to) and
  \<open>build\<close>, which writes the head of the response to the connection's send buffer and gives the
  body to the buffer or to the channel. The file system, the result of \<open>mmap\<close>, the date and the
  compressor are arguments.
\<close>

section \<open>State\<close>

record builder =
  rb_uri :: string
  rb_file_name :: string
  rb_version :: "http_version option"   \<comment> \<open>\<open>None\<close>: a value that is none of the enumerators\<close>
  rb_header :: header
  rb_method :: "http_method option"
  rb_resp_file :: bool
  rb_keepalive :: bool
  rb_compressed :: bool
  rb_code :: int
  rb_tmp :: buffer

record disk_file =
  fl_fd :: int
  fl_bytes :: string
  fl_mtime :: string      \<comment> \<open>the modification time as \<open>strftime\<close> prints it\<close>

record io_env =
  io_fs :: "string \<Rightarrow> disk_file option"       \<comment> \<open>\<open>None\<close>: the file cannot be opened\<close>
  io_mmap :: bool                        \<comment> \<open>whether \<open>mmap\<close> succeeds\<close>
  io_gzip :: "string \<Rightarrow> string"
  io_date :: string
  io_version :: "http_version option"    \<comment> \<open>what the uninitialised \<open>version_\<close> of a request holds\<close>
  io_method :: "http_method option"

definition rb_new :: "io_env \<Rightarrow> request \<Rightarrow> builder" where
  "rb_new io r =
     \<lparr>rb_uri = rq_url r, rb_file_name = [],
      rb_version = (case rq_version r of None \<Rightarrow> io_version io | v \<Rightarrow> v),
      rb_header = hd_add (hd_add (hd_add [] ''Server'' ''socnet'') ''Content-Type'' ''application/octet-stream'') ''Date'' (io_date io),
      rb_method = (case rq_method r of None \<Rightarrow> io_method io | m \<Rightarrow> m),
      rb_resp_file = False, rb_keepalive = rq_keepalive r, rb_compressed = rq_compressed r, rb_code = 200,
      rb_tmp = retiredAll (Buffer_new 4096)\<rparr>"

definition setVersion :: "http_version \<Rightarrow> builder \<Rightarrow> builder" where
  "setVersion v b = b\<lparr>rb_version := Some v\<rparr>"

definition rb_setKeepAlive :: "bool \<Rightarrow> builder \<Rightarrow> builder" where
  "rb_setKeepAlive on b = b\<lparr>rb_keepalive := on\<rparr>"

definition setCode :: "int \<Rightarrow> builder \<Rightarrow> builder" where
  "setCode code b = b\<lparr>rb_code := code\<rparr>"

definition setHeaders :: "header \<Rightarrow> builder \<Rightarrow> builder" where
  "setHeaders h b = b\<lparr>rb_header := hd_add_all (rb_header b) h\<rparr>"

definition setHeader :: "string \<Rightarrow> string \<Rightarrow> builder \<Rightarrow> builder" where
  "setHeader key value b = b\<lparr>rb_header := hd_add (rb_header b) key value\<rparr>"

definition setCookie :: "string \<Rightarrow> builder \<Rightarrow> builder" where
  "setCookie value b = b\<lparr>rb_header := hd_add (rb_header b) ''Set-Cookie'' value\<rparr>"

definition setContentType :: "string \<Rightarrow> builder \<Rightarrow> builder" where
  "setContentType content_type b = setHeader ''Content-Type'' content_type b"

definition appendBody :: "sview \<Rightarrow> builder \<Rightarrow> builder res" where
  "appendBody body b = res_map (\<lambda>t. b\<lparr>rb_tmp := t, rb_resp_file := False\<rparr>) (append_buf (rb_tmp b) body)"

definition setBody :: "sview \<Rightarrow> builder \<Rightarrow> builder res" where
  "setBody body b = appendBody body (b\<lparr>rb_tmp := reset_buf (rb_tmp b)\<rparr>)"

definition setBodyFile :: "sview \<Rightarrow> builder \<Rightarrow> builder" where
  "setBodyFile filename b = b\<lparr>rb_tmp := reset_buf (rb_tmp b), rb_file_name := filename, rb_resp_file := True\<rparr>"

definition setBodyHtml :: "sview \<Rightarrow> builder \<Rightarrow> builder" where
  "setBodyHtml filename b =
     b\<lparr>rb_tmp := reset_buf (rb_tmp b), rb_file_name := filename, rb_resp_file := True,
       rb_header := hd_add (rb_header b) ''Content-Type'' ''text/html; charset=utf-8''\<rparr>"

datatype http_auth_type = Basic | Digest

definition setAuthType :: "string \<Rightarrow> string \<Rightarrow> string \<Rightarrow> http_auth_type \<Rightarrow> builder \<Rightarrow> builder res" where
  \<comment> \<open>the realm; the Base64 codes of what is read from the arrays \<open>nonce\<close> and \<open>opaque\<close>,
      which \<open>genRandromStr\<close> leaves without a terminating NUL; \<open>buffer\<close> has 1024 bytes\<close>
  "setAuthType realm nonce opaque type b =
     (let text = (case type of
            Basic \<Rightarrow> ''Basic realm='' @ [CHR 0x22] @ realm @ [CHR 0x22]
          | Digest \<Rightarrow> ''Digest realm='' @ [CHR 0x22] @ realm @ [CHR 0x22] @ '', qop='' @ [CHR 0x22] @ ''auth,auth-int'' @ [CHR 0x22] @
              '', nonce='' @ [CHR 0x22] @ nonce @ [CHR 0x22] @ '', opaque='' @ [CHR 0x22] @ opaque @ [CHR 0x22])
      in if length text < 1024
         then Inr (b\<lparr>rb_code := 401,
                rb_header := hd_add (hd_add (rb_header b) ''WWW-Authenticate'' text) ''Content-Type'' ''text/plain; charset=utf-8''\<rparr>)
         else Inl OutOfBounds)"

definition sendAuth :: "string \<Rightarrow> string \<Rightarrow> string \<Rightarrow> http_auth_type \<Rightarrow> builder \<Rightarrow> builder res" where
  "sendAuth realm nonce opaque type b = setAuthType realm nonce opaque type b"

definition sendRedirect :: "string \<Rightarrow> builder \<Rightarrow> builder" where
  "sendRedirect url b = setHeader ''Location'' url (setCode 302 b)"


section \<open>Building the response\<close>

definition append_all :: "string list \<Rightarrow> channel \<Rightarrow> channel res" where
  \<comment> \<open>successive calls of \<open>getSender()->append\<close>\<close>
  "append_all xs ch = res_map (\<lambda>b. ch\<lparr>sender := b\<rparr>) (res_fold append_buf xs (sender ch))"

definition version_text :: "http_version option \<Rightarrow> string" where
  "version_text v =
     (case v of Some HTTP_1_0 \<Rightarrow> ''HTTP/1.0 '' | Some HTTP_1_1 \<Rightarrow> ''HTTP/1.1 '' | Some HTTP_2_0 \<Rightarrow> ''HTTP/2.0 '' | None \<Rightarrow> [])"

definition prepareHeader :: "builder \<Rightarrow> channel \<Rightarrow> channel res" where
  "prepareHeader b ch =
     res_bind (append_all [version_text (rb_version b), int_decimal (rb_code b) @ '' ''] ch) (\<lambda>ch.
     res_bind (status_at (rb_code b)) (\<lambda>message.
     res_bind (append_all [message, CRLF] ch) (\<lambda>ch.
     res_bind (hd_store (rb_header b) (Some (sender ch))) (\<lambda>s.
       append_all [CRLF] (case s of Some s \<Rightarrow> ch\<lparr>sender := s\<rparr> | None \<Rightarrow> ch)))))"

definition makeHeaderPart :: "size_t \<Rightarrow> builder \<Rightarrow> builder" where
  "makeHeaderPart content_length b =
     (let b = (if rb_version b = Some HTTP_1_0 then
                 if rb_keepalive b then setHeader ''Connection'' ''keep-alive'' b else setHeader ''Connection'' ''close'' b
               else if \<not> rb_keepalive b then setHeader ''Connection'' ''close'' b else b)
      in if rb_keepalive b then setHeader ''Content-Length'' (decimal content_length) b else b)"

definition compressible :: "string \<Rightarrow> bool" where
  "compressible type \<longleftrightarrow>
     starts_with type ''text'' \<or> ends_with type ''xml'' \<or> ends_with type ''javascript'' \<or> ends_with type ''json''"

definition chooseCompression :: "builder \<Rightarrow> builder" where
  "chooseCompression b =
     (case hd_get (rb_header b) ''Content-Type'' of
        Some type \<Rightarrow> if compressible type then b else b\<lparr>rb_compressed := False\<rparr>
      | None \<Rightarrow> b\<lparr>rb_compressed := False\<rparr>)"

text \<open>
  The body: \<open>sv\<close> is the pair of an address (\<open>None\<close>: \<open>nullptr\<close>) and a length, the third
  component \<open>putinto_buf\<close>.
\<close>

type_synonym source = "string option \<times> size_t \<times> bool"

definition loadFile :: "io_env \<Rightarrow> builder \<Rightarrow> channel \<Rightarrow> (builder \<times> channel \<times> source) res" where
  "loadFile io b ch =
     (case io_fs io (c_str (rb_file_name b)) of
        None \<Rightarrow> Inl Indeterminate
      | Some f \<Rightarrow>
          let sz = length (fl_bytes f); b = setHeader ''Last-Modified'' (fl_mtime f) b
          in if use_sendfile ch
             then Inr (b\<lparr>rb_compressed := False\<rparr>, createSendFileObject (fl_bytes f) (fl_fd f) sz ch, (None, sz, False))
             else if sz \<le> 4194304
             then res_bind (ensureWritable (rb_tmp b) sz) (\<lambda>t.
                  res_map (\<lambda>t. let t = hasWritten t sz
                               in (b\<lparr>rb_tmp := t\<rparr>, ch, (Some (buf_view t), readable t, True)))
                    (copy_in t (fl_bytes f)))
             else let ch = createMMapObject (if io_mmap io then Some (fl_bytes f) else None) (fl_fd f) sz ch
                  in Inr (b, ch, (mm_bytes ch, sz, False)))"

definition loadBody :: "io_env \<Rightarrow> builder \<Rightarrow> channel \<Rightarrow> (builder \<times> channel \<times> source) res" where
  "loadBody io b ch =
     (if rb_resp_file b then loadFile io b ch
      else Inr (b, ch, (Some (buf_view (rb_tmp b)), readable (rb_tmp b), True)))"

definition source_bytes :: "source \<Rightarrow> string res" where
  \<comment> \<open>\<open>string_view(sv.first, sv.second)\<close>\<close>
  "source_bytes = (\<lambda>(addr, n, _). case addr of None \<Rightarrow> Inl NullPointer | Some s \<Rightarrow> mem_range s 0 n)"

definition compress :: "io_env \<Rightarrow> source \<Rightarrow> builder \<Rightarrow> (builder \<times> string \<times> source) res" where
  "compress io sv b =
     (if rb_compressed b \<and> fst (snd sv) \<noteq> 0
      then res_map (\<lambda>s. let out = io_gzip io s
               in (setHeader ''Content-Encoding'' ''gzip'' b, out, (fst sv, length out, snd (snd sv))))
             (source_bytes sv)
      else Inr (b, [], sv))"

definition appendContent :: "builder \<Rightarrow> string \<Rightarrow> source \<Rightarrow> channel \<Rightarrow> channel res" where
  "appendContent b out sv ch =
     (if rb_compressed b
      then res_map (\<lambda>s. removeMMapObject (ch\<lparr>sender := s\<rparr>)) (append_range (sender ch) out)
      else if snd (snd sv)
      then res_bind (source_bytes sv) (\<lambda>s. res_map (\<lambda>s. ch\<lparr>sender := s\<rparr>) (append_buf (sender ch) s))
      else Inr ch)"

definition build :: "io_env \<Rightarrow> builder \<Rightarrow> channel \<Rightarrow> (builder \<times> channel) res" where
  "build io b ch =
     res_bind (loadBody io (chooseCompression b) ch) (\<lambda>(b, ch, sv).
     res_bind (compress io sv b) (\<lambda>(b, out, sv).
       let b = makeHeaderPart (fst (snd sv)) b
       in res_bind (prepareHeader b ch) (\<lambda>ch.
            if rb_method b = Some HEAD then Inr (b, ch)
            else res_map (\<lambda>ch. (b, ch)) (appendContent b out sv ch))))"

definition send_response :: "io_env \<Rightarrow> builder \<Rightarrow> 'c connection \<Rightarrow> (builder \<times> 'c connection) res" where
  \<comment> \<open>\<open>HttpResponse::send\<close>\<close>
  "send_response io b conn =
     (let conn = setKeepAlive (rb_keepalive b) conn
      in case cn_channel conn of None \<Rightarrow> Inl NullPointer
         | Some ch \<Rightarrow> res_map (\<lambda>(b, ch). (b, setChannel (Some ch) conn)) (build io b ch))"


section \<open>What is built\<close>

definition content :: "io_env \<Rightarrow> builder \<Rightarrow> string" where
  \<comment> \<open>the bytes of the body before compression\<close>
  "content io b =
     (if rb_resp_file b then (case io_fs io (c_str (rb_file_name b)) of Some f \<Rightarrow> fl_bytes f | None \<Rightarrow> [])
      else buf_view (rb_tmp b))"

definition loaded :: "io_env \<Rightarrow> builder \<Rightarrow> channel \<Rightarrow> builder" where
  "loaded io b ch =
     (if rb_resp_file b then
        (case io_fs io (c_str (rb_file_name b)) of None \<Rightarrow> b
         | Some f \<Rightarrow> let b = setHeader ''Last-Modified'' (fl_mtime f) b
             in if use_sendfile ch then b\<lparr>rb_compressed := False\<rparr> else b)
      else b)"

definition final_content :: "io_env \<Rightarrow> builder \<Rightarrow> channel \<Rightarrow> string" where
  "final_content io b ch =
     (let b = loaded io (chooseCompression b) ch; c = content io b
      in if rb_compressed b \<and> c \<noteq> [] then io_gzip io c else c)"

definition built :: "io_env \<Rightarrow> builder \<Rightarrow> channel \<Rightarrow> builder" where
  "built io b ch =
     (let n = length (final_content io b ch);
          b = loaded io (chooseCompression b) ch
      in makeHeaderPart n (if rb_compressed b \<and> content io b \<noteq> [] then setHeader ''Content-Encoding'' ''gzip'' b else b))"

definition response_head :: "string \<Rightarrow> builder \<Rightarrow> string" where
  "response_head message b =
     version_text (rb_version b) @ int_decimal (rb_code b) @ '' '' @ message @ CRLF @ hd_toString (rb_header b) @ CRLF"

definition ready :: "io_env \<Rightarrow> builder \<Rightarrow> bool" where
  \<comment> \<open>the file exists, \<open>mmap\<close> succeeds, and the buffer of the builder is as the setters leave it\<close>
  "ready io b \<longleftrightarrow> buf_inv (rb_tmp b) \<and>
     (rb_resp_file b \<longrightarrow> io_fs io (c_str (rb_file_name b)) \<noteq> None \<and> io_mmap io \<and> buf_view (rb_tmp b) = [] \<and>
        buf_room (rb_tmp b) 4194304)"

lemma append_all_ok:
  assumes "buf_inv (sender ch)" and "buf_room (sender ch) (length (concat xs) + n)"
  shows "\<exists>s. append_all xs ch = Inr (ch\<lparr>sender := s\<rparr>) \<and> buf_inv s \<and> buf_room s n \<and> buf_view s = buf_view (sender ch) @ concat xs"
  using bq.append_chunks [OF assms] by (auto simp: append_all_def)

lemma prepareHeader_ok:
  assumes inv: "buf_inv (sender ch)" and room: "buf_room (sender ch) (length (response_head m b) + n)" and m: "status_at (rb_code b) = Inr m"
  shows "\<exists>s. prepareHeader b ch = Inr (ch\<lparr>sender := s\<rparr>) \<and> buf_inv s \<and> buf_room s n \<and>
     buf_view s = buf_view (sender ch) @ response_head m b"
proof -
  let ?h = "hd_toString (rb_header b)"
  let ?a = "[version_text (rb_version b), int_decimal (rb_code b) @ '' '']" and ?m = "[m, CRLF]" and ?e = "[CRLF]"
  have "length (response_head m b) + n = length (concat ?a) + (length (concat ?m) + (length ?h + (length (concat ?e) + n)))"
    by (simp add: response_head_def)
  then have r: "buf_room (sender ch) (length (concat ?a) + (length (concat ?m) + (length ?h + (length (concat ?e) + n))))"
    using room by (simp only:)
  from append_all_ok [OF inv r] obtain s1 where s1: "append_all ?a ch = Inr (ch\<lparr>sender := s1\<rparr>)" "buf_inv s1"
    "buf_room s1 (length (concat ?m) + (length ?h + (length (concat ?e) + n)))" "buf_view s1 = buf_view (sender ch) @ concat ?a" by blast
  from append_all_ok [of "ch\<lparr>sender := s1\<rparr>" ?m] s1 obtain s2 where s2: "append_all ?m (ch\<lparr>sender := s1\<rparr>) = Inr (ch\<lparr>sender := s2\<rparr>)"
    "buf_inv s2" "buf_room s2 (length ?h + (length (concat ?e) + n))" "buf_view s2 = buf_view s1 @ concat ?m" by auto
  from bq.append_chunks [of s2 "map hd_line (rb_header b)" "length (concat ?e) + n"] s2 obtain s3 where
    s3: "hd_store (rb_header b) (Some s2) = Inr (Some s3)" "buf_inv s3" "buf_room s3 (length (concat ?e) + n)" "buf_view s3 = buf_view s2 @ ?h"
    by (auto simp: hd_store_def hd_toString_def)
  from append_all_ok [of "ch\<lparr>sender := s3\<rparr>" ?e n] s3 obtain s4 where s4: "append_all ?e (ch\<lparr>sender := s3\<rparr>) = Inr (ch\<lparr>sender := s4\<rparr>)"
    "buf_inv s4" "buf_room s4 n" "buf_view s4 = buf_view s3 @ concat ?e" by auto
  have "prepareHeader b ch = Inr (ch\<lparr>sender := s4\<rparr>)" using s1 s2 s3 s4 m by (simp add: prepareHeader_def)
  moreover have "buf_view s4 = buf_view (sender ch) @ response_head m b" using s1 s2 s3 s4 by (simp add: response_head_def)
  ultimately show ?thesis using s4 by blast
qed

lemma loadBody_ok:
  assumes i: "idle ch" and rd: "ready io b"
  shows "\<exists>t bd addr put. loadBody io b ch = Inr ((loaded io b ch)\<lparr>rb_tmp := t\<rparr>, load_body bd ch, (addr, length (content io b), put)) \<and>
     (rb_resp_file b \<and> use_sendfile ch \<longrightarrow> \<not> put) \<and>
     (put \<longrightarrow> bd = NoBody) \<and> (\<not> put \<longrightarrow> body_bytes bd = content io b) \<and>
     (case bd of FromFile _ _ \<Rightarrow> use_sendfile ch \<and> \<not> rb_compressed (loaded io b ch) | _ \<Rightarrow> addr = Some (content io b))"
proof (cases "rb_resp_file b")
  case False
  then show ?thesis using rd by (intro exI [of _ "rb_tmp b"] exI [of _ NoBody]) (auto simp: loadBody_def loaded_def content_def ready_def)
next
  case True
  then obtain f where f: "io_fs io (c_str (rb_file_name b)) = Some f" using rd by (auto simp: ready_def)
  let ?c = "fl_bytes f"
  have c: "content io b = ?c" using True f by (simp add: content_def)
  consider "use_sendfile ch" | "\<not> use_sendfile ch" "length ?c \<le> 4194304" | "\<not> use_sendfile ch" "4194304 < length ?c" by linarith
  then show ?thesis
  proof cases
    case 1
    then show ?thesis using True f c
      by (intro exI [of _ "rb_tmp b"] exI [of _ "FromFile (fl_fd f) ?c"])
        (auto simp: loadBody_def loadFile_def loaded_def Let_def setHeader_def)
  next
    case 2
    have inv: "buf_inv (rb_tmp b)" "buf_view (rb_tmp b) = []" "buf_room (rb_tmp b) (length ?c)"
      using rd True 2 by (auto simp: ready_def buf_room_def)
    from ensureWritable_ok [OF inv(1,3)] obtain t where t: "ensureWritable (rb_tmp b) (length ?c) = Inr t" "buf_inv t"
      "buf_view t = []" "length ?c \<le> writable t" using inv(2) by auto
    from copy_in_ok [OF t(2,4)] obtain t' where t': "copy_in t ?c = Inr t'" "buf_inv (hasWritten t' (length ?c))"
      "buf_view (hasWritten t' (length ?c)) = ?c" using t(3) by auto
    then have "readable (hasWritten t' (length ?c)) = length ?c" using buf_inv_size by metis
    then show ?thesis using True f c 2 t t'
      by (intro exI [of _ "hasWritten t' (length ?c)"] exI [of _ NoBody])
        (auto simp: loadBody_def loadFile_def loaded_def Let_def setHeader_def)
  next
    case 3
    then show ?thesis using True f c i rd
      by (intro exI [of _ "rb_tmp b"] exI [of _ "Mapped (fl_fd f) ?c"])
        (auto simp: loadBody_def loadFile_def loaded_def Let_def setHeader_def ready_def idle_def createMMapObject_def MMap_new_def mm_bytes_def)
  qed
qed


lemma sender_load_body: "idle ch \<Longrightarrow> (load_body bd ch)\<lparr>sender := s\<rparr> = load_body bd (ch\<lparr>sender := s\<rparr>) \<and> sender (load_body bd ch) = sender ch"
  by (cases bd) (auto simp: idle_def createMMapObject_def createSendFileObject_def)

lemma remove_load_body:
  "idle ch \<Longrightarrow> (\<forall>fd f. bd \<noteq> FromFile fd f) \<Longrightarrow> removeMMapObject (load_body bd ch) = ch"
  by (cases bd) (auto simp: idle_def createMMapObject_def removeMMapObject_def)

lemma idle_sender: "idle ch \<Longrightarrow> buf_inv s \<Longrightarrow> idle (ch\<lparr>sender := s\<rparr>)"
  by (simp add: idle_def)

lemma rb_tmp_frame:
  "rb_compressed (b\<lparr>rb_tmp := t\<rparr>) = rb_compressed b"
  "setHeader k v (b\<lparr>rb_tmp := t\<rparr>) = (setHeader k v b)\<lparr>rb_tmp := t\<rparr>"
  "makeHeaderPart n (b\<lparr>rb_tmp := t\<rparr>) = (makeHeaderPart n b)\<lparr>rb_tmp := t\<rparr>"
  "response_head m (b\<lparr>rb_tmp := t\<rparr>) = response_head m b"
  by (simp_all add: setHeader_def makeHeaderPart_def response_head_def Let_def)

lemma makeHeaderPart_keeps [simp]:
  "rb_code (makeHeaderPart n b) = rb_code b" "rb_compressed (makeHeaderPart n b) = rb_compressed b"
  "rb_method (makeHeaderPart n b) = rb_method b" "rb_keepalive (makeHeaderPart n b) = rb_keepalive b"
  by (simp_all add: makeHeaderPart_def setHeader_def Let_def)

lemma setHeader_keeps [simp]:
  "rb_code (setHeader k v b) = rb_code b" "rb_compressed (setHeader k v b) = rb_compressed b"
  "rb_method (setHeader k v b) = rb_method b" "rb_keepalive (setHeader k v b) = rb_keepalive b"
  by (simp_all add: setHeader_def)

lemma setHeader_header: "rb_header (setHeader k v b) = hd_add (rb_header b) k v"
  by (simp add: setHeader_def)

lemma loaded_keeps [simp]:
  "rb_code (loaded io b ch) = rb_code b" "rb_method (loaded io b ch) = rb_method b" "content io (loaded io b ch) = content io b"
  "rb_keepalive (loaded io b ch) = rb_keepalive b"
  by (simp_all add: loaded_def setHeader_def content_def Let_def split: option.split)

lemma chooseCompression_keeps [simp]:
  "rb_code (chooseCompression b) = rb_code b" "rb_method (chooseCompression b) = rb_method b"
  "content io (chooseCompression b) = content io b" "ready io (chooseCompression b) = ready io b"
  "rb_keepalive (chooseCompression b) = rb_keepalive b" "rb_resp_file (chooseCompression b) = rb_resp_file b"
  by (simp_all add: chooseCompression_def content_def ready_def split: option.split)

lemma built_compressed: "rb_compressed (built io b ch) = rb_compressed (loaded io (chooseCompression b) ch)"
  by (simp add: built_def Let_def)

lemma build_head:
  assumes i: "idle ch" and rd: "ready io b" and m: "status_at (rb_code b) = Inr m"
    and room: "buf_room (sender ch) (length (response_head m (built io b ch)) + n)"
  shows "\<exists>s t bd addr put. buf_inv s \<and> buf_room s n \<and> buf_view s = buf_view (sender ch) @ response_head m (built io b ch) \<and>
     (rb_resp_file b \<and> use_sendfile ch \<longrightarrow> \<not> put) \<and>
     (put \<longrightarrow> bd = NoBody) \<and> (\<not> put \<longrightarrow> body_bytes bd = content io b) \<and>
     (case bd of FromFile _ _ \<Rightarrow> use_sendfile ch \<and> \<not> rb_compressed (built io b ch) | _ \<Rightarrow> addr = Some (content io b)) \<and>
     build io b ch =
       (if rb_method b = Some HEAD then Inr ((built io b ch)\<lparr>rb_tmp := t\<rparr>, load_body bd (ch\<lparr>sender := s\<rparr>))
        else res_map (\<lambda>c. ((built io b ch)\<lparr>rb_tmp := t\<rparr>, c))
          (appendContent (built io b ch) (if rb_compressed (built io b ch) \<and> content io b \<noteq> [] then io_gzip io (content io b) else [])
             (addr, length (final_content io b ch), put) (load_body bd (ch\<lparr>sender := s\<rparr>))))"
proof -
  let ?b = "chooseCompression b"
  let ?l = "loaded io ?b ch" and ?c = "content io b" and ?f = "built io b ch"
  have "ready io ?b" using rd by simp
  from loadBody_ok [OF i this] obtain t bd addr put where
    l: "loadBody io ?b ch = Inr (?l\<lparr>rb_tmp := t\<rparr>, load_body bd ch, (addr, length ?c, put))"
      "rb_resp_file b \<and> use_sendfile ch \<longrightarrow> \<not> put" "put \<longrightarrow> bd = NoBody" "\<not> put \<longrightarrow> body_bytes bd = ?c"
      "case bd of FromFile _ _ \<Rightarrow> use_sendfile ch \<and> \<not> rb_compressed ?l | _ \<Rightarrow> addr = Some ?c" unfolding chooseCompression_keeps by blast
  let ?z = "rb_compressed ?l \<and> ?c \<noteq> []"
  let ?out = "if ?z then io_gzip io ?c else []"
  have a: "rb_compressed ?l \<Longrightarrow> addr = Some ?c" using l(5) by (cases bd) auto
  have cp: "compress io (addr, length ?c, put) (?l\<lparr>rb_tmp := t\<rparr>) =
      Inr ((if ?z then setHeader ''Content-Encoding'' ''gzip'' ?l else ?l)\<lparr>rb_tmp := t\<rparr>, ?out, (addr, length (final_content io b ch), put))"
    using a by (auto simp: compress_def rb_tmp_frame source_bytes_def mem_range_def final_content_def Let_def)
  have mk: "makeHeaderPart (length (final_content io b ch)) ((if ?z then setHeader ''Content-Encoding'' ''gzip'' ?l else ?l)\<lparr>rb_tmp := t\<rparr>) =
      ?f\<lparr>rb_tmp := t\<rparr>" by (simp add: built_def rb_tmp_frame Let_def)
  have inv: "buf_inv (sender ch)" using i by (simp add: idle_def)
  have code: "status_at (rb_code (?f\<lparr>rb_tmp := t\<rparr>)) = Inr m" using m by (simp add: built_def setHeader_def Let_def)
  have "buf_room (sender (load_body bd ch)) (length (response_head m (?f\<lparr>rb_tmp := t\<rparr>)) + n)"
    using room by (simp add: rb_tmp_frame sender_load_body [OF i])
  from prepareHeader_ok [OF _ this code] obtain s where
    s: "prepareHeader (?f\<lparr>rb_tmp := t\<rparr>) (load_body bd ch) = Inr (load_body bd (ch\<lparr>sender := s\<rparr>))" "buf_inv s" "buf_room s n"
      "buf_view s = buf_view (sender ch) @ response_head m ?f"
    using inv by (auto simp: sender_load_body [OF i] rb_tmp_frame)
  have ap: "appendContent (?f\<lparr>rb_tmp := t\<rparr>) x sv c = appendContent ?f x sv c" for x sv c by (simp add: appendContent_def)
  have meth: "rb_method ?f = rb_method b" by (simp add: built_def setHeader_def Let_def)
  have "build io b ch =
       (if rb_method b = Some HEAD then Inr (?f\<lparr>rb_tmp := t\<rparr>, load_body bd (ch\<lparr>sender := s\<rparr>))
        else res_map (\<lambda>c. (?f\<lparr>rb_tmp := t\<rparr>, c)) (appendContent ?f ?out (addr, length (final_content io b ch), put) (load_body bd (ch\<lparr>sender := s\<rparr>))))"
    unfolding build_def l(1) res_bind_Inr prod.case cp Let_def fst_conv snd_conv mk s(1) ap using meth by simp
  with s(2-4) l(2-5) show ?thesis unfolding built_compressed by blast
qed


lemma response_head_nonempty [simp]: "response_head m b \<noteq> []"
  by (simp add: response_head_def)

lemma content_length_header:
  assumes "header_inv (rb_header b)" and "rb_keepalive b"
  shows "hd_get (rb_header (makeHeaderPart n b)) ''Content-Length'' = Some (decimal n)"
proof -
  have "\<not> starts_with (toLowers ''Content-Length'') ''set-cookie''"
    by (simp add: toLowers_map starts_with_def tolower_def isupper_def)
  moreover have "header_inv (hd_add (rb_header b) k v)" for k v using assms(1) by (rule hd.invar_add)
  ultimately show ?thesis using assms hd.add_law by (simp add: makeHeaderPart_def setHeader_def Let_def)
qed

lemma build_ok:
  assumes "idle ch" and "ready io b" and "status_at (rb_code b) = Inr m" and "rb_method b \<noteq> Some HEAD"
    and "buf_view (sender ch) = []" and "header_inv (rb_header b)"
    and "buf_room (sender ch) (length (response_head m (built io b ch)) + length (final_content io b ch))"
    and "length (final_content io b ch) < 2147483648"
  shows "\<exists>t bd ch'. build io b ch = Inr ((built io b ch)\<lparr>rb_tmp := t\<rparr>, load_body bd ch') \<and> idle ch' \<and>
     ch' = ch\<lparr>sender := sender ch'\<rparr> \<and>
     buf_view (sender ch') @ body_bytes bd = response_head m (built io b ch) @ final_content io b ch \<and>
     (\<exists>s. buf_view (sender ch') = response_head m (built io b ch) @ s) \<and>
     (case bd of FromFile _ _ \<Rightarrow> use_sendfile ch | _ \<Rightarrow> True) \<and>
     (rb_keepalive b \<longrightarrow> hd_get (rb_header (built io b ch)) ''Content-Length'' = Some (decimal (length (final_content io b ch))))"
proof -
  let ?f = "built io b ch" and ?c = "content io b" and ?o = "final_content io b ch"
  let ?h = "response_head m ?f"
  from build_head [OF assms(1-3,7)] obtain s t bd addr put where
    s: "buf_inv s" "buf_room s (length ?o)" "buf_view s = ?h" and put: "put \<longrightarrow> bd = NoBody" "\<not> put \<longrightarrow> body_bytes bd = ?c"
    and bd: "case bd of FromFile _ _ \<Rightarrow> use_sendfile ch \<and> \<not> rb_compressed ?f | _ \<Rightarrow> addr = Some ?c"
    and eq: "build io b ch = res_map (\<lambda>c. (?f\<lparr>rb_tmp := t\<rparr>, c))
          (appendContent ?f (if rb_compressed ?f \<and> ?c \<noteq> [] then io_gzip io ?c else []) (addr, length ?o, put) (load_body bd (ch\<lparr>sender := s\<rparr>)))"
    unfolding if_not_P [OF assms(4)] assms(5) append_Nil by blast
  have o: "?o = (if rb_compressed ?f \<and> ?c \<noteq> [] then io_gzip io ?c else ?c)"
    unfolding final_content_def Let_def built_compressed loaded_keeps chooseCompression_keeps ..
  have id: "idle (ch\<lparr>sender := x\<rparr>)" if "buf_inv x" for x using assms(1) that by (rule idle_sender)
  from append_buf_ok [OF s(1), of ?o 0] s(2) obtain s' where s': "append_buf s ?o = Inr s'" "buf_inv s'" "buf_view s' = ?h @ ?o"
    using s(3) by auto
  have "header_inv (rb_header (loaded io (chooseCompression b) ch))"
    using assms(6) hd.invar_add by (simp add: loaded_def chooseCompression_def setHeader_header Let_def split: option.split)
  then have cl: "rb_keepalive b \<longrightarrow> hd_get (rb_header ?f) ''Content-Length'' = Some (decimal (length ?o))"
    using content_length_header hd.invar_add by (simp add: built_def Let_def setHeader_header)
  consider (gz) "rb_compressed ?f" | (buf) "\<not> rb_compressed ?f" put | (chan) "\<not> rb_compressed ?f" "\<not> put" by blast
  then show ?thesis
  proof cases
    case gz
    then have nf: "\<forall>fd f. bd \<noteq> FromFile fd f" using bd by (cases bd) auto
    have out: "(if rb_compressed ?f \<and> ?c \<noteq> [] then io_gzip io ?c else []) = ?o" using o gz by auto
    have "appendContent ?f ?o (addr, length ?o, put) (load_body bd (ch\<lparr>sender := s\<rparr>)) = Inr (ch\<lparr>sender := s'\<rparr>)"
      using gz s' append_range_eq [OF assms(8)] sender_load_body [OF id [OF s(1)]] remove_load_body [OF id [OF s'(2)] nf]
      by (simp add: appendContent_def)
    then show ?thesis unfolding eq out using s' id cl
      by (intro exI [of _ t] exI [of _ NoBody] exI [of _ "ch\<lparr>sender := s'\<rparr>"]) simp
  next
    case buf
    then have "bd = NoBody" "addr = Some ?c" "?o = ?c" using put bd o by auto
    then have "appendContent ?f [] (addr, length ?o, put) (load_body bd (ch\<lparr>sender := s\<rparr>)) = Inr (ch\<lparr>sender := s'\<rparr>)"
      using buf s' by (simp add: appendContent_def source_bytes_def mem_range_def)
    then show ?thesis unfolding eq using s' id cl buf
      by (intro exI [of _ t] exI [of _ NoBody] exI [of _ "ch\<lparr>sender := s'\<rparr>"]) simp
  next
    case chan
    then have "?o = ?c" "body_bytes bd = ?c" using put o by auto
    moreover have "case bd of FromFile _ _ \<Rightarrow> use_sendfile ch | _ \<Rightarrow> True" using bd by (cases bd) auto
    ultimately show ?thesis unfolding eq using s id cl chan
      by (intro exI [of _ t] exI [of _ bd] exI [of _ "ch\<lparr>sender := s\<rparr>"]) (simp add: appendContent_def)
  qed
qed


text \<open>The head is at most a constant longer than the header the application set.\<close>

lemma length_setHeader:
  "length (hd_toString (rb_header (setHeader k v b))) \<le> length (hd_toString (rb_header b)) + length k + length v + 4"
  by (simp add: setHeader_header length_hd_add)

lemma length_makeHeaderPart:
  "length (hd_toString (rb_header (makeHeaderPart n b))) \<le> length (hd_toString (rb_header b)) + n + 50"
proof -
  have cl: "length (hd_toString (rb_header (setHeader ''Connection'' ''close'' b))) \<le> length (hd_toString (rb_header b)) + 19"
    "length (hd_toString (rb_header (setHeader ''Connection'' ''keep-alive'' b))) \<le> length (hd_toString (rb_header b)) + 24"
    using length_setHeader [of "''Connection''" "''close''" b] length_setHeader [of "''Connection''" "''keep-alive''" b] by simp_all
  have len: "length (hd_toString (rb_header (setHeader ''Content-Length'' (decimal n) b'))) \<le> length (hd_toString (rb_header b')) + n + 19" for b'
    using length_setHeader [of "''Content-Length''" "decimal n" b'] length_decimal [of n] by simp
  show ?thesis
    using cl len [of b] len [of "setHeader ''Connection'' ''keep-alive'' b"]
    by (cases "rb_keepalive b"; cases "rb_version b = Some HTTP_1_0") (simp_all add: makeHeaderPart_def Let_def)
qed

lemma length_built:
  assumes "rb_resp_file b" and "io_fs io (c_str (rb_file_name b)) = Some f"
  shows "length (hd_toString (rb_header (built io b ch))) \<le>
     length (hd_toString (rb_header b)) + length (fl_mtime f) + length (final_content io b ch) + 100"
proof -
  let ?c = "chooseCompression b"
  let ?l = "loaded io ?c ch"
  have c: "rb_header ?c = rb_header b" "rb_file_name ?c = rb_file_name b" by (simp_all add: chooseCompression_def split: option.split)
  have "rb_header ?l = rb_header (setHeader ''Last-Modified'' (fl_mtime f) ?c)"
    using assms c by (simp add: loaded_def Let_def)
  then have "length (hd_toString (rb_header ?l)) \<le> length (hd_toString (rb_header b)) + length (fl_mtime f) + 17"
    using length_setHeader [of "''Last-Modified''" "fl_mtime f" ?c] c by simp
  moreover have "length (hd_toString (rb_header (setHeader ''Content-Encoding'' ''gzip'' ?l))) \<le> length (hd_toString (rb_header ?l)) + 24"
    using length_setHeader [of "''Content-Encoding''" "''gzip''" ?l] by simp
  ultimately show ?thesis
    using length_makeHeaderPart [of "length (final_content io b ch)" ?l]
      length_makeHeaderPart [of "length (final_content io b ch)" "setHeader ''Content-Encoding'' ''gzip'' ?l"]
    by (simp add: built_def Let_def)
qed

lemma setHeader_other:
  assumes "header_inv (rb_header b)" and "toLowers k' \<noteq> toLowers k"
  shows "hd_get (rb_header (setHeader k v b)) k' = hd_get (rb_header b) k'"
  using hd.add_other [OF assms] by (simp add: setHeader_header)

lemma built_content_type:
  assumes "header_inv (rb_header b)"
  shows "hd_get (rb_header (built io b ch)) ''Content-Type'' = hd_get (rb_header b) ''Content-Type''"
proof -
  have inv: "header_inv (rb_header b') \<Longrightarrow> header_inv (rb_header (setHeader k v b'))" for b' k v
    by (simp add: setHeader_header hd.invar_add)
  have ne: "toLowers ''Content-Type'' \<noteq> toLowers ''Last-Modified''" "toLowers ''Content-Type'' \<noteq> toLowers ''Content-Encoding''"
    "toLowers ''Content-Type'' \<noteq> toLowers ''Content-Length''" "toLowers ''Content-Type'' \<noteq> toLowers ''Connection''"
    by (simp_all add: toLowers_map tolower_def isupper_def)
  have c: "rb_header (chooseCompression b) = rb_header b" by (simp add: chooseCompression_def split: option.split)
  have l: "header_inv (rb_header (loaded io b' ch)) \<and> hd_get (rb_header (loaded io b' ch)) ''Content-Type'' = hd_get (rb_header b') ''Content-Type''"
    if "header_inv (rb_header b')" for b'
    using that inv setHeader_other [OF that ne(1)] by (auto simp: loaded_def Let_def split: option.split)
  have m: "hd_get (rb_header (makeHeaderPart n b')) ''Content-Type'' = hd_get (rb_header b') ''Content-Type''"
    if "header_inv (rb_header b')" for n b'
    using that inv setHeader_other [OF that ne(4)] setHeader_other [OF _ ne(3)]
    by (auto simp: makeHeaderPart_def Let_def)
  show ?thesis
    using assms c l [of "chooseCompression b"] m inv setHeader_other [OF _ ne(2)] by (simp add: built_def Let_def)
qed

lemma rb_new_header:
  "header_inv (rb_header (rb_new io r))" "length (hd_toString (rb_header (rb_new io r))) \<le> length (io_date io) + 100"
proof -
  let ?a = "hd_add [] ''Server'' ''socnet''"
  let ?b = "hd_add ?a ''Content-Type'' ''application/octet-stream''"
  have "header_inv []" by (simp add: header_inv_def)
  then show "header_inv (rb_header (rb_new io r))" by (simp add: rb_new_def hd.invar_add)
  show "length (hd_toString (rb_header (rb_new io r))) \<le> length (io_date io) + 100"
    using length_hd_add [of "[]" "''Server''" "''socnet''"] length_hd_add [of ?a "''Content-Type''" "''application/octet-stream''"]
      length_hd_add [of ?b "''Date''" "io_date io"] by (simp add: rb_new_def hd_toString_def)
qed

lemma built_frame [simp]: "rb_code (built io b ch) = rb_code b" "rb_version (built io b ch) = rb_version b"
  by (simp_all add: built_def Let_def setHeader_def makeHeaderPart_def loaded_def chooseCompression_def split: option.split)

lemma body_in_order:
  assumes "idle ch" and "ready io b" and "status_at (rb_code b) = Inr m" and "rb_method b \<noteq> Some HEAD"
    and "buf_view (sender ch) = []" and "header_inv (rb_header b)" and "use_sendfile ch \<longrightarrow> ch_type ch = Raw"
    and "buf_room (sender ch) (length (response_head m (built io b ch)) + length (final_content io b ch))"
    and "length (response_head m (built io b ch)) + length (final_content io b ch) < 2147483648"
  shows "\<exists>t ch'. build io b ch = Inr ((built io b ch)\<lparr>rb_tmp := t\<rparr>, ch') \<and>
     (\<forall>evs. (\<forall>os\<in>set evs. event_ok os (length (response_head m (built io b ch) @ final_content io b ch))) \<longrightarrow>
        (\<exists>cflag out ch''. write_events evs ch' = Some (Inr (cflag, out, ch'')) \<and>
           (if cflag then out = response_head m (built io b ch) @ final_content io b ch \<and> (\<exists>c. ch'' = reset_chan c)
            else \<exists>rest. rest \<noteq> [] \<and> response_head m (built io b ch) @ final_content io b ch = out @ rest))) \<and>
     (rb_keepalive b \<longrightarrow> hd_get (rb_header (built io b ch)) ''Content-Length'' = Some (decimal (length (final_content io b ch))))"
proof -
  let ?h = "response_head m (built io b ch)" and ?o = "final_content io b ch"
  have "length ?o < 2147483648" using assms(9) by simp
  from build_ok [OF assms(1-6,8) this] obtain t bd ch' where
    b: "build io b ch = Inr ((built io b ch)\<lparr>rb_tmp := t\<rparr>, load_body bd ch')" "idle ch'" "ch' = ch\<lparr>sender := sender ch'\<rparr>"
      "buf_view (sender ch') @ body_bytes bd = ?h @ ?o" "\<exists>s. buf_view (sender ch') = ?h @ s"
      "case bd of FromFile _ _ \<Rightarrow> use_sendfile ch | _ \<Rightarrow> True"
      "rb_keepalive b \<longrightarrow> hd_get (rb_header (built io b ch)) ''Content-Length'' = Some (decimal (length ?o))" by blast
  from b(3) have ch': "ch_type ch' = ch_type ch" "use_sendfile ch' = use_sendfile ch"
    by (metis channel.select_convs(1,2) channel.surjective channel.update_convs(5))+
  have "length (buf_view (sender ch')) + length (body_bytes bd) = length (?h @ ?o)"
    unfolding b(4) [symmetric] by (simp del: length_buf_view)
  then have "body_fits bd ch'"
    using assms(7,9) b(6) ch' by (cases bd) (simp_all add: body_fits_def del: length_buf_view)
  moreover have "buf_view (sender ch') \<noteq> []" using b(5) by auto
  ultimately have "\<forall>evs. (\<forall>os\<in>set evs. event_ok os (length (?h @ ?o))) \<longrightarrow>
      (\<exists>cflag out ch''. write_events evs (load_body bd ch') = Some (Inr (cflag, out, ch'')) \<and>
         (if cflag then out = ?h @ ?o \<and> (\<exists>c. ch'' = reset_chan c) else \<exists>rest. rest \<noteq> [] \<and> ?h @ ?o = out @ rest))"
    using response_sent [OF b(2)] unfolding b(4) [symmetric] by blast
  with b(1,7) show ?thesis by blast
qed

text \<open>
  C4. Building a response: for every kind of body (set by the application, a small file that is read, a
  large one that is mapped, one left to \<open>sendfile\<close>, any of them compressed or not) the channel
  is left with the status line and the headers in the send buffer, followed by exactly the bytes of the
  body, and on a persistent connection the header announces their number. \<open>final_content\<close> is the
  contents of the file or of the buffer, compressed when the client and the content type allow it and
  \<open>sendfile\<close> is not used.
\<close>

theorem build_frames_response:
  assumes "idle ch" and "ready io b" and "status_at (rb_code b) = Inr m" and "rb_method b \<noteq> Some HEAD"
    and "buf_view (sender ch) = []" and "header_inv (rb_header b)"
    and "buf_room (sender ch) (length (response_head m (built io b ch)) + length (final_content io b ch))"
    and "length (final_content io b ch) < 2147483648"
  shows "\<exists>t bd ch'. build io b ch = Inr ((built io b ch)\<lparr>rb_tmp := t\<rparr>, load_body bd ch') \<and> idle ch' \<and>
     ch' = ch\<lparr>sender := sender ch'\<rparr> \<and>
     buf_view (sender ch') @ body_bytes bd = response_head m (built io b ch) @ final_content io b ch \<and>
     (\<exists>s. buf_view (sender ch') = response_head m (built io b ch) @ s) \<and>
     (case bd of FromFile _ _ \<Rightarrow> use_sendfile ch | _ \<Rightarrow> True) \<and>
     (rb_keepalive b \<longrightarrow> hd_get (rb_header (built io b ch)) ''Content-Length'' = Some (decimal (length (final_content io b ch))))"
  using assms by (rule build_ok)

definition demo_io :: io_env where
  "demo_io = \<lparr>io_fs = (\<lambda>name. if name = ''a'' then Some \<lparr>fl_fd = 9, fl_bytes = ''hello'', fl_mtime = ''now''\<rparr> else None),
     io_mmap = True, io_gzip = id, io_date = ''today'', io_version = None, io_method = None\<rparr>"

definition demo_builder :: "http_method \<Rightarrow> builder" where
  "demo_builder method =
     \<lparr>rb_uri = ''/a'', rb_file_name = ''a'', rb_version = Some HTTP_1_1, rb_header = [], rb_method = Some method,
      rb_resp_file = True, rb_keepalive = True, rb_compressed = False, rb_code = 200, rb_tmp = Buffer_new 16\<rparr>"

definition empty_channel :: channel where
  "empty_channel = Channel_new Raw 7 True"

lemma empty_channel_simps [simp]:
  "idle empty_channel" "buf_view (sender empty_channel) = []" "use_sendfile empty_channel" "ch_type empty_channel = Raw"
  "windex (sender empty_channel) = 0"
  by (simp_all add: empty_channel_def idle_def Channel_new_def buf_inv_new max_size_def) (simp add: Buffer_new_def)

lemma demo_built:
  "built demo_io (demo_builder meth) empty_channel =
     (demo_builder meth)\<lparr>rb_header := hd_add (hd_add [] ''Last-Modified'' ''now'') ''Content-Length'' (decimal 5)\<rparr>"
  "final_content demo_io (demo_builder meth) empty_channel = ''hello''"
proof -
  have c: "chooseCompression (demo_builder meth) = demo_builder meth"
    by (simp add: chooseCompression_def demo_builder_def hd_get_def)
  have l: "loaded demo_io (demo_builder meth) empty_channel = (demo_builder meth)\<lparr>rb_header := hd_add [] ''Last-Modified'' ''now''\<rparr>"
    by (simp add: loaded_def demo_io_def demo_builder_def c_str_def NUL_def setHeader_def)
  show f: "final_content demo_io (demo_builder meth) empty_channel = ''hello''"
    by (simp only: final_content_def c l Let_def) (simp add: demo_builder_def content_def demo_io_def c_str_def NUL_def)
  show "built demo_io (demo_builder meth) empty_channel =
     (demo_builder meth)\<lparr>rb_header := hd_add (hd_add [] ''Last-Modified'' ''now'') ''Content-Length'' (decimal 5)\<rparr>"
    by (simp only: built_def c l f Let_def) (simp add: demo_builder_def makeHeaderPart_def setHeader_def numeral_eq_Suc)
qed

lemma demo_head_short: "length (response_head ''OK'' (built demo_io (demo_builder meth) empty_channel)) < 1000"
proof -
  let ?h1 = "hd_add [] ''Last-Modified'' ''now''"
  have "length (hd_toString (hd_add ?h1 ''Content-Length'' (decimal 5))) \<le> 100"
    using length_hd_add [of ?h1 "''Content-Length''" "decimal 5"] length_hd_add [of "[]" "''Last-Modified''" "''now''"]
    by (simp add: decimal.simps hd_toString_def)
  then show ?thesis unfolding demo_built
    by (simp add: response_head_def demo_builder_def version_text_def int_decimal_def decimal.simps CRLF_def)
qed

lemma demo_ready:
  "ready demo_io (demo_builder meth)" "status_at (rb_code (demo_builder meth)) = Inr ''OK''" "header_inv (rb_header (demo_builder meth))"
  by (simp_all add: ready_def demo_builder_def demo_io_def c_str_def NUL_def buf_inv_new max_size_def status_at_def Status_Code_def
      to_short_def header_inv_def buf_room_def) (simp add: Buffer_new_def)

theorem build_frames_response_witness:
  "\<exists>t bd ch'. build demo_io (demo_builder GET) empty_channel =
       Inr ((built demo_io (demo_builder GET) empty_channel)\<lparr>rb_tmp := t\<rparr>, load_body bd ch') \<and> idle ch' \<and>
     ch' = empty_channel\<lparr>sender := sender ch'\<rparr> \<and>
     buf_view (sender ch') @ body_bytes bd =
       response_head ''OK'' (built demo_io (demo_builder GET) empty_channel) @ final_content demo_io (demo_builder GET) empty_channel \<and>
     (\<exists>s. buf_view (sender ch') = response_head ''OK'' (built demo_io (demo_builder GET) empty_channel) @ s) \<and>
     (case bd of FromFile _ _ \<Rightarrow> use_sendfile empty_channel | _ \<Rightarrow> True) \<and>
     (rb_keepalive (demo_builder GET) \<longrightarrow> hd_get (rb_header (built demo_io (demo_builder GET) empty_channel)) ''Content-Length'' =
        Some (decimal (length (final_content demo_io (demo_builder GET) empty_channel))))"
proof (rule build_frames_response)
  show "buf_room (sender empty_channel)
      (length (response_head ''OK'' (built demo_io (demo_builder GET) empty_channel)) + length (final_content demo_io (demo_builder GET) empty_channel))"
    using demo_head_short [of GET] by (simp add: buf_room_def demo_built(2) max_size_def)
qed (simp_all add: demo_ready demo_built(2), simp add: demo_builder_def)

text \<open>
  C35. The response to a HEAD request for a file that is left to \<open>sendfile\<close> carries the file:
  \<open>build\<close> returns before it appends a body to the buffer, but the file has already been handed to
  the channel, which sends it after the head.
\<close>

theorem head_response_sends_file:
  assumes "idle ch" and "ready io b" and "status_at (rb_code b) = Inr m" and "rb_method b = Some HEAD"
    and "buf_view (sender ch) = []" and "rb_resp_file b" and "use_sendfile ch" and "ch_type ch = Raw"
    and "buf_room (sender ch) (length (response_head m (built io b ch)))"
    and "length (response_head m (built io b ch)) + length (content io b) < 9223372036854775807"
  shows "\<exists>b' ch'. build io b ch = Inr (b', ch') \<and> pending ch' = response_head m (built io b ch) @ content io b"
proof -
  have room: "buf_room (sender ch) (length (response_head m (built io b ch)) + 0)" using assms(9) by simp
  from build_head [OF assms(1-3) room] obtain s t bd addr put where
    s: "buf_inv s" "buf_view s = response_head m (built io b ch)" and put: "put \<longrightarrow> bd = NoBody" "\<not> put \<longrightarrow> body_bytes bd = content io b"
    and np: "rb_resp_file b \<and> use_sendfile ch \<longrightarrow> \<not> put"
    and bd: "case bd of FromFile _ _ \<Rightarrow> use_sendfile ch \<and> \<not> rb_compressed (built io b ch) | _ \<Rightarrow> addr = Some (content io b)"
    and eq: "build io b ch = Inr ((built io b ch)\<lparr>rb_tmp := t\<rparr>, load_body bd (ch\<lparr>sender := s\<rparr>))"
    unfolding if_P [OF assms(4)] assms(5) append_Nil by blast
  have b: "body_bytes bd = content io b" using np put assms(6,7) by blast
  have "body_fits bd (ch\<lparr>sender := s\<rparr>)" using assms(7,8,10) b s by (cases bd) (simp_all add: body_fits_def del: length_buf_view)
  with load_body_ok [OF idle_sender [OF assms(1) s(1)]] s b have "pending (load_body bd (ch\<lparr>sender := s\<rparr>)) = response_head m (built io b ch) @ content io b"
    by simp
  with eq show ?thesis by blast
qed

theorem head_response_sends_file_witness:
  "\<exists>b' ch'. build demo_io (demo_builder HEAD) empty_channel = Inr (b', ch') \<and>
     pending ch' = response_head ''OK'' (built demo_io (demo_builder HEAD) empty_channel) @ content demo_io (demo_builder HEAD)"
proof (rule head_response_sends_file)
  have "content demo_io (demo_builder HEAD) = ''hello''"
    by (simp add: demo_builder_def content_def demo_io_def c_str_def NUL_def)
  then show "length (response_head ''OK'' (built demo_io (demo_builder HEAD) empty_channel)) + length (content demo_io (demo_builder HEAD)) < 9223372036854775807"
    "buf_room (sender empty_channel) (length (response_head ''OK'' (built demo_io (demo_builder HEAD) empty_channel)))"
    using demo_head_short [of HEAD] by (simp_all add: buf_room_def max_size_def)
qed (simp_all add: demo_ready, simp_all add: demo_builder_def)

end
