(* ===== verification/TimeStamp.thy ===== *)
theory TimeStamp
  imports Cxx_Prelude
begin

text \<open>
  \<open>soc/net/include/TimeStamp.h\<close>: a point in time or a duration, in microseconds, as an
  unsigned 64-bit value. The factors are \<open>int\<close> constants, so a conversion from an \<open>int\<close>
  number of seconds or milliseconds multiplies in signed 32-bit arithmetic, whose overflow is
  undefined. The clock (\<open>gettimeofday\<close>) is an argument.
\<close>

datatype timestamp = TimeStamp (microsecond: "64 word")

definition ts_less :: "timestamp \<Rightarrow> timestamp \<Rightarrow> bool" where
  "ts_less a b \<longleftrightarrow> microsecond a < microsecond b"

definition ts_less_eq :: "timestamp \<Rightarrow> timestamp \<Rightarrow> bool" where
  "ts_less_eq a b \<longleftrightarrow> microsecond a \<le> microsecond b"

definition ts_greater :: "timestamp \<Rightarrow> timestamp \<Rightarrow> bool" where
  "ts_greater a b \<longleftrightarrow> microsecond b < microsecond a"

definition ts_eq :: "timestamp \<Rightarrow> timestamp \<Rightarrow> bool" where
  "ts_eq a b \<longleftrightarrow> microsecond a = microsecond b"

instantiation timestamp :: linorder
begin

definition less_eq_timestamp :: "timestamp \<Rightarrow> timestamp \<Rightarrow> bool" where
  "less_eq_timestamp = ts_less_eq"

definition less_timestamp :: "timestamp \<Rightarrow> timestamp \<Rightarrow> bool" where
  "less_timestamp = ts_less"

instance
  by standard
    (auto simp: less_eq_timestamp_def less_timestamp_def ts_less_eq_def ts_less_def
      intro: timestamp.expand)

end

lemmas ts_le_def = less_eq_timestamp_def ts_less_eq_def

text \<open>The four comparison operators agree with the one order of the instance.\<close>

lemma ts_comparisons:
  "ts_less a b \<longleftrightarrow> a < b" "ts_less_eq a b \<longleftrightarrow> a \<le> b" "ts_greater a b \<longleftrightarrow> \<not> ts_less_eq a b"
  "ts_eq a b \<longleftrightarrow> a = b"
  by (auto simp: less_timestamp_def less_eq_timestamp_def ts_greater_def ts_less_eq_def ts_eq_def
      intro: timestamp.expand)

definition ts_second :: "timestamp \<Rightarrow> 64 word" where
  "ts_second t = microsecond t div 1000000"

definition ts_millsecond :: "timestamp \<Rightarrow> 64 word" where
  "ts_millsecond t = microsecond t div 1000"

definition ts_nanosecond :: "timestamp \<Rightarrow> 64 word" where
  "ts_nanosecond t = microsecond t * 1000"

definition ts_plus :: "timestamp \<Rightarrow> timestamp \<Rightarrow> timestamp" where
  "ts_plus a b = TimeStamp (microsecond a + microsecond b)"

definition ts_minus :: "timestamp \<Rightarrow> timestamp \<Rightarrow> timestamp" where
  "ts_minus a b = TimeStamp (microsecond a - microsecond b)"

definition ts_plus_int :: "timestamp \<Rightarrow> int \<Rightarrow> timestamp res" where
  "ts_plus_int t second =
     res_map (\<lambda>us. TimeStamp (microsecond t + word_of_int us)) (chk_int (second * 1000000))"

definition ts_minus_int :: "timestamp \<Rightarrow> int \<Rightarrow> timestamp res" where
  "ts_minus_int t second =
     res_map (\<lambda>us. TimeStamp (microsecond t - word_of_int us)) (chk_int (second * 1000000))"

definition of_second :: "int \<Rightarrow> timestamp res" where
  "of_second sec = res_map (\<lambda>us. TimeStamp (word_of_int us)) (chk_int (sec * 1000000))"

definition of_millsecond :: "int \<Rightarrow> timestamp res" where
  "of_millsecond msec = res_map (\<lambda>us. TimeStamp (word_of_int us)) (chk_int (msec * 1000))"

definition of_microsecond :: "int \<Rightarrow> timestamp" where
  "of_microsecond microsec = TimeStamp (word_of_int microsec)"

definition int_div :: "int \<Rightarrow> int \<Rightarrow> int" where
  \<comment> \<open>signed division truncates towards zero\<close>
  "int_div a b = sgn a * sgn b * (\<bar>a\<bar> div \<bar>b\<bar>)"

definition of_nanosecond :: "int \<Rightarrow> timestamp" where
  "of_nanosecond nsec = TimeStamp (word_of_int (int_div nsec 1000))"

definition ts_max :: timestamp where
  "ts_max = TimeStamp (- 1)"

text \<open>\<open>now()\<close> from the result of \<open>gettimeofday\<close>.\<close>

definition ts_now :: "int \<Rightarrow> int \<Rightarrow> timestamp" where
  "ts_now tv_sec tv_usec = TimeStamp (word_of_int (tv_sec * 1000000 + tv_usec))"

definition nowSecond :: "timestamp \<Rightarrow> int \<Rightarrow> timestamp res" where
  "nowSecond now sec = res_map (ts_plus now) (of_second sec)"

definition nowMsecond :: "timestamp \<Rightarrow> int \<Rightarrow> timestamp res" where
  "nowMsecond now msec = res_map (ts_plus now) (of_millsecond msec)"

definition nowNanosecond :: "timestamp \<Rightarrow> int \<Rightarrow> timestamp" where
  "nowNanosecond now nsec = ts_plus now (of_nanosecond nsec)"

lemma chk_int_eq_Inr [res_simps]: "chk_int x = Inr y \<longleftrightarrow> int_range x \<and> y = x"
  by (auto simp: chk_int_def)

lemma chk_int_Inl [res_simps]: "chk_int x = Inl e \<longleftrightarrow> \<not> int_range x \<and> e = IntOverflow"
  by (auto simp: chk_int_def)

lemma uint_word_of_int_pos:
  "0 \<le> x \<Longrightarrow> int_range x \<Longrightarrow> uint (word_of_int x :: 64 word) = x"
  by (simp add: uint_word_of_int int_range_def)

lemma of_millsecond_value:
  assumes "of_millsecond ms = Inr t" and "0 \<le> ms"
  shows "uint (microsecond t) = ms * 1000"
  using assms uint_word_of_int_pos [of "ms * 1000"]
  by (auto simp: of_millsecond_def res_simps)

lemma of_second_value:
  assumes "of_second s = Inr t" and "0 \<le> s"
  shows "uint (microsecond t) = s * 1000000"
  using assms uint_word_of_int_pos [of "s * 1000000"]
  by (auto simp: of_second_def res_simps)

lemma of_second_Inr: "0 \<le> s \<Longrightarrow> s \<le> 2147 \<Longrightarrow> of_second s = Inr (TimeStamp (word_of_int (s * 1000000)))"
  by (simp add: of_second_def chk_int_def int_range_def)

lemma ts_plus_mono:
  assumes "uint (microsecond now) + uint (microsecond d) < 18446744073709551616"
  shows "now \<le> ts_plus now d"
proof -
  have "uint (microsecond now + microsecond d) = uint (microsecond now) + uint (microsecond d)"
    using assms by (subst uint_plus_simple_iff [symmetric]) (simp add: word_le_def uint_word_ariths)
  then show ?thesis by (simp add: ts_plus_def ts_le_def word_le_def)
qed

text \<open>
  A conversion from seconds is defined exactly up to 2147 seconds either way: the product
  with \<open>1000000\<close> is computed in \<open>int\<close>. A longer session lifetime (a configuration value in
  seconds, passed to \<open>second\<close> and \<open>nowSecond\<close>) is undefined behaviour.
\<close>

theorem of_second_defined_iff:
  "(\<exists>t. of_second s = Inr t) \<longleftrightarrow> - 2147 \<le> s \<and> s \<le> 2147"
  by (auto simp: of_second_def res_simps int_range_def)

text \<open>
  The deadline \<open>nowMsecond(ms)\<close> lies exactly \<open>ms\<close> milliseconds after the clock, and not
  before it, whenever the sum stays below the largest representable time.
\<close>

theorem nowMsecond_deadline:
  assumes "nowMsecond now ms = Inr t" and "0 \<le> ms"
    and "uint (microsecond now) + ms * 1000 < 18446744073709551616"
  shows "uint (microsecond t) = uint (microsecond now) + ms * 1000 \<and> now \<le> t"
proof -
  from assms(1) obtain d where d: "of_millsecond ms = Inr d" "t = ts_plus now d"
    by (auto simp: nowMsecond_def res_simps)
  from d(1) assms(2) have v: "uint (microsecond d) = ms * 1000" by (rule of_millsecond_value)
  have "uint (microsecond t) = uint (microsecond now) + ms * 1000"
    using assms(2,3) v d(2) by (simp add: ts_plus_def uint_word_ariths)
  moreover have "now \<le> t" using ts_plus_mono [of now d] assms(3) v d(2) by simp
  ultimately show ?thesis ..
qed

theorem nowMsecond_deadline_witness:
  "\<exists>t. nowMsecond (TimeStamp 5000000) 2000 = Inr t \<and>
     uint (microsecond t) = uint (microsecond (TimeStamp 5000000)) + 2000 * 1000 \<and>
     TimeStamp 5000000 \<le> t"
proof -
  have e: "nowMsecond (TimeStamp 5000000) 2000 =
      Inr (ts_plus (TimeStamp 5000000) (TimeStamp (word_of_int 2000000)))"
    by (simp add: nowMsecond_def of_millsecond_def chk_int_def int_range_def)
  show ?thesis using e nowMsecond_deadline [OF e] by simp
qed

end
