(* ===== verification/TimerHeap.thy ===== *)
theory TimerHeap
  imports TimeStamp "HOL-Library.Multiset"
begin

text \<open>
  \<open>soc/net/include/TimerHeap.h\<close>: the binary min-heap of timers, stored in a vector, with the
  index map \<open>fds_\<close> from a timer's descriptor to its position. Positions are stored in the map
  as \<open>int\<close> and read back as \<open>size_t\<close>. Every access to the vector is checked in the model, so
  that a theorem that an operation returns \<open>Inr\<close> includes that it stays inside the vector.
  All public operations hold the mutex from start to end, so they are atomic steps.
  An empty \<open>std::function\<close> is the callback \<open>None\<close>.

  The heap implements the interface \<open>timer_queue\<close>: a finite map from descriptors to a deadline
  and a callback, with access to a timer of least deadline.
\<close>

section \<open>Data and operations\<close>

record 'cb timer =
  tm_fd :: int
  tm_ts :: timestamp
  tm_cb :: "'cb option"

record 'cb theap =
  th_c :: "'cb timer list"
  th_n :: size_t
  th_fds :: "int \<rightharpoonup> int"

definition timer_less :: "'cb timer \<Rightarrow> 'cb timer \<Rightarrow> bool" where
  \<comment> \<open>\<open>operator<\<close> of \<open>Timer\<close>: the later deadline is the smaller timer\<close>
  "timer_less a b \<longleftrightarrow> tm_ts b < tm_ts a"

definition theap_new :: "'cb theap" where
  "theap_new = \<lparr>th_c = [], th_n = 0, th_fds = Map.empty\<rparr>"

definition set_at :: "'cb theap \<Rightarrow> nat \<Rightarrow> 'cb timer \<Rightarrow> 'cb theap res" where
  \<comment> \<open>\<open>c_[i] = t\<close>\<close>
  "set_at h i t =
     (if i < length (th_c h) then Inr (h\<lparr>th_c := (th_c h)[i := t]\<rparr>) else Inl OutOfBounds)"

definition set_idx :: "'cb theap \<Rightarrow> int \<Rightarrow> nat \<Rightarrow> 'cb theap" where
  \<comment> \<open>\<open>fds_[fd] = i\<close>\<close>
  "set_idx h fd i = h\<lparr>th_fds := (th_fds h)(fd \<mapsto> to_int (int i))\<rparr>"

definition parent_of :: "nat \<Rightarrow> nat" where
  "parent_of i = size_sub i 1 div 2"

lemma parent_of_less: "0 < i \<Longrightarrow> parent_of i < i"
  using size_sub_one_less [of i] by (simp add: parent_of_def)

function up_loop :: "'cb timer \<Rightarrow> nat \<Rightarrow> 'cb theap \<Rightarrow> (nat \<times> 'cb theap) res" where
  "up_loop v i h =
     (if i \<le> 0 then Inr (i, h)
      else res_bind (at (th_c h) (parent_of i)) (\<lambda>p.
        if timer_less v p then Inr (i, h)
        else res_bind (set_at (set_idx h (tm_fd p) i) i p) (up_loop v (parent_of i))))"
  by pat_completeness auto
termination
  by (relation "measure (\<lambda>(v, i, h). i)") (auto simp: parent_of_less)

definition upAdjust :: "'cb theap \<Rightarrow> nat \<Rightarrow> 'cb theap res" where
  "upAdjust h i =
     res_bind (at (th_c h) i) (\<lambda>v.
     res_bind (up_loop v i h) (\<lambda>(i', h').
     res_bind (set_at h' i' v) (\<lambda>h''. Inr (set_idx h'' (tm_fd v) i'))))"

definition min_child :: "'cb theap \<Rightarrow> nat \<Rightarrow> nat res" where
  \<comment> \<open>\<open>if (child + 1 < n_ && c_[child] < c_[child + 1]) child++\<close>\<close>
  "min_child h child =
     (if child + 1 < th_n h
      then res_bind (at (th_c h) child) (\<lambda>l. res_bind (at (th_c h) (child + 1)) (\<lambda>r.
             Inr (if timer_less l r then child + 1 else child)))
      else Inr child)"

lemma min_child_ge: "min_child h child = Inr ch \<Longrightarrow> child \<le> ch"
  by (auto simp: min_child_def res_simps split: if_splits)

lemma th_n_set_at: "set_at (set_idx h fd j) i t = Inr h' \<Longrightarrow> th_n h' = th_n h"
  by (auto simp: set_at_def set_idx_def split: if_splits)

text \<open>
  The child index \<open>i * 2 + 1\<close> does not wrap: \<open>i\<close> is a position of the vector, whose
  elements are larger than two bytes.
\<close>

function down_loop :: "'cb timer \<Rightarrow> nat \<Rightarrow> 'cb theap \<Rightarrow> (nat \<times> 'cb theap) res" where
  "down_loop v i h =
     (if th_n h \<le> i * 2 + 1 then Inr (i, h)
      else res_bind (min_child h (i * 2 + 1)) (\<lambda>ch. res_bind (at (th_c h) ch) (\<lambda>x.
        if timer_less x v then Inr (i, h)
        else res_bind (set_at (set_idx h (tm_fd x) i) i x) (down_loop v ch))))"
  by pat_completeness auto
termination
proof (relation "measure (\<lambda>(v, i, h). th_n h - i)", goal_cases)
  case (2 v i h ch x h')
  then have "i < ch" "th_n h' = th_n h" using min_child_ge th_n_set_at by fastforce+
  with 2 show ?case by simp
qed simp

definition downAdjust :: "'cb theap \<Rightarrow> nat \<Rightarrow> (bool \<times> 'cb theap) res" where
  "downAdjust h i =
     res_bind (at (th_c h) i) (\<lambda>v.
     res_bind (down_loop v i h) (\<lambda>(i', h').
     res_bind (set_at h' i' v) (\<lambda>h''. Inr (i > i', set_idx h'' (tm_fd v) i'))))"

definition down_or_up :: "'cb theap \<Rightarrow> nat \<Rightarrow> 'cb theap res" where
  \<comment> \<open>\<open>if (!downAdjust(i)) upAdjust(i)\<close>\<close>
  "down_or_up h i = res_bind (downAdjust h i) (\<lambda>(moved, h'). if \<not> moved then upAdjust h' i else Inr h')"

definition push :: "'cb theap \<Rightarrow> 'cb timer \<Rightarrow> 'cb theap res" where
  "push h timer =
     (case th_fds h (tm_fd timer) of
        None \<Rightarrow>
          let h1 = set_idx (h\<lparr>th_c := th_c h @ [timer]\<rparr>) (tm_fd timer) (th_n h);
              h2 = h1\<lparr>th_n := size_add (th_n h) 1\<rparr>
          in if th_n h2 = 1 then Inr h2 else upAdjust h2 (size_sub (th_n h2) 1)
      | Some ix \<Rightarrow>
          let i = to_size ix in
          res_bind (at (th_c h) i) (\<lambda>t.
          res_bind (set_at h i (t\<lparr>tm_ts := tm_ts timer, tm_cb := tm_cb timer\<rparr>)) (\<lambda>h1.
            down_or_up h1 i)))"

definition del :: "'cb theap \<Rightarrow> nat \<Rightarrow> 'cb theap res" where
  "del h i =
     (if th_n h = 0 then Inr h
      else
        res_bind (at (th_c h) i) (\<lambda>x.
        res_bind (at (th_c h) (th_n h - 1)) (\<lambda>y.
        let h1 = h\<lparr>th_c := (th_c h)[i := y, th_n h - 1 := x], th_n := th_n h - 1\<rparr> in
        res_bind (down_or_up h1 i) (\<lambda>h2.
          Inr (h2\<lparr>th_fds := (th_fds h2)(tm_fd (last (th_c h2)) := None),
                  th_c := butlast (th_c h2)\<rparr>)))))"

definition pop :: "'cb theap \<Rightarrow> 'cb theap res" where
  "pop h = (if th_n h = 0 then Inl StdException else del h 0)"

definition top_heap :: "'cb theap \<Rightarrow> 'cb timer res" where
  "top_heap h = (if th_n h = 0 then Inl StdException else at (th_c h) 0)"

definition empty_heap :: "'cb theap \<Rightarrow> bool" where
  "empty_heap h \<longleftrightarrow> th_n h = 0"

definition th_size :: "'cb theap \<Rightarrow> size_t" where
  "th_size h = th_n h"

definition clear_heap :: "'cb theap \<Rightarrow> 'cb theap" where
  "clear_heap h = h\<lparr>th_c := [], th_fds := Map.empty\<rparr>"

definition adjust :: "'cb theap \<Rightarrow> 'cb timer \<Rightarrow> 'cb theap res" where
  "adjust h timer =
     (case th_fds h (tm_fd timer) of
        None \<Rightarrow> Inr h
      | Some ix \<Rightarrow>
          res_bind (at (th_c h) (to_size ix)) (\<lambda>t.
          res_bind (set_at h (to_size ix) (t\<lparr>tm_ts := tm_ts timer\<rparr>)) (\<lambda>h1.
          res_map snd (downAdjust h1 (to_size ix)))))"


section \<open>Exchanging two positions\<close>

text \<open>
  Both loops carry the moving timer \<open>v\<close> outside the vector. Their state stands for the vector
  with \<open>v\<close> written at the current position and the map that records it there (\<open>vst\<close>); in
  these terms one iteration exchanges two positions, and the loops are sequences of exchanges.
\<close>

definition par :: "nat \<Rightarrow> nat" where
  "par i = (i - 1) div 2"

lemma par_less: "0 < j \<Longrightarrow> par j < j"
  by (simp add: par_def)

lemma parent_of_eq: "0 < i \<Longrightarrow> i < size_mod \<Longrightarrow> parent_of i = par i"
  by (simp add: parent_of_def par_def size_sub_small)

lemma par_child: "0 < j \<Longrightarrow> par j = i \<longleftrightarrow> j = i * 2 + 1 \<or> j = i * 2 + 2"
  by (auto simp: par_def)

definition vst :: "'cb theap \<Rightarrow> nat \<Rightarrow> 'cb timer \<Rightarrow> 'cb timer list \<times> (int \<rightharpoonup> int)" where
  "vst h i v = ((th_c h)[i := v], (th_fds h)(tm_fd v \<mapsto> int i))"

fun swap_v :: "nat \<Rightarrow> nat \<Rightarrow> 'cb timer list \<times> (int \<rightharpoonup> int) \<Rightarrow> 'cb timer list \<times> (int \<rightharpoonup> int)" where
  "swap_v i p (xs, f) =
     (xs[i := xs ! p, p := xs ! i], f(tm_fd (xs ! p) \<mapsto> int i, tm_fd (xs ! i) \<mapsto> int p))"

inductive swaps :: "nat \<Rightarrow> 'cb timer list \<times> (int \<rightharpoonup> int) \<Rightarrow> 'cb timer list \<times> (int \<rightharpoonup> int) \<Rightarrow> bool" where
  swaps_refl: "swaps n s s"
| swaps_step: "i < n \<Longrightarrow> p < n \<Longrightarrow> i \<noteq> p \<Longrightarrow> swaps n (swap_v i p s) s' \<Longrightarrow> swaps n s s'"

definition idx_ok :: "'cb timer list \<Rightarrow> nat \<Rightarrow> (int \<rightharpoonup> int) \<Rightarrow> bool" where
  "idx_ok c n f \<longleftrightarrow> n \<le> length c \<and> (\<forall>i < n. f (tm_fd (c ! i)) = Some (int i))"

lemma idx_ok_inj:
  "idx_ok c n f \<Longrightarrow> i < n \<Longrightarrow> j < n \<Longrightarrow> tm_fd (c ! i) = tm_fd (c ! j) \<Longrightarrow> i = j"
  by (metis idx_ok_def of_nat_eq_iff option.inject)

lemma swap_idx_ok:
  assumes ok: "idx_ok xs n f" and ip: "i < n" "p < n" "i \<noteq> p"
  shows "idx_ok (xs[i := xs ! p, p := xs ! i]) n (f(tm_fd (xs ! p) \<mapsto> int i, tm_fd (xs ! i) \<mapsto> int p))"
  (is "idx_ok ?ys n ?g")
  unfolding idx_ok_def
proof (intro conjI allI impI)
  show "n \<le> length ?ys" using ok by (simp add: idx_ok_def)
  fix k assume k: "k < n"
  have len: "i < length xs" "p < length xs" "k < length xs" using ok ip k by (auto simp: idx_ok_def)
  have inj: "\<And>j. j < n \<Longrightarrow> tm_fd (xs ! k) = tm_fd (xs ! j) \<Longrightarrow> k = j"
    using idx_ok_inj [OF ok k] by blast
  have ne: "tm_fd (xs ! i) \<noteq> tm_fd (xs ! p)" using idx_ok_inj [OF ok ip(1,2)] ip(3) by blast
  show "?g (tm_fd (?ys ! k)) = Some (int k)"
    using len ne inj [OF ip(1)] inj [OF ip(2)] ok k ip
    by (cases "k = i"; cases "k = p") (auto simp: idx_ok_def)
qed

lemma swaps_keep:
  assumes "swaps n (xs, f) (ys, g)" and "idx_ok xs n f"
  shows "idx_ok ys n g \<and> mset ys = mset xs \<and> dom g = dom f \<and> drop n ys = drop n xs"
  using assms
proof (induction n "(xs, f)" "(ys, g)" arbitrary: xs f rule: swaps.induct)
  case (swaps_step i n p xs f)
  then have len: "i < length xs" "p < length xs" by (auto simp: idx_ok_def)
  have d: "tm_fd (xs ! i) \<in> dom f" "tm_fd (xs ! p) \<in> dom f"
    using swaps_step.hyps(1,2) swaps_step.prems by (auto simp: idx_ok_def)
  from swaps_step.hyps(5) [of "fst (swap_v i p (xs, f))" "snd (swap_v i p (xs, f))"]
    swap_idx_ok [OF swaps_step.prems swaps_step.hyps(1-3)]
  show ?case using len d swaps_step.hyps(1,2) by (auto simp: mset_swap)
qed simp

lemma swaps_one: "i < n \<Longrightarrow> p < n \<Longrightarrow> i \<noteq> p \<Longrightarrow> swaps n s (swap_v i p s)"
  by (rule swaps_step [OF _ _ _ swaps_refl])

lemma vst_step:
  assumes "i \<noteq> p" "i < length (th_c h)" "p < length (th_c h)" "i < 2147483648"
  shows "\<exists>h'. set_at (set_idx h (tm_fd (th_c h ! p)) i) i (th_c h ! p) = Inr h' \<and>
     vst h' p v = swap_v i p (vst h i v) \<and> length (th_c h') = length (th_c h) \<and> th_n h' = th_n h"
  using assms by (auto simp: set_at_def set_idx_def vst_def int_range_def fun_upd_def list_update_swap)

section \<open>The heap order\<close>

definition heap_ordered :: "'cb timer list \<Rightarrow> nat \<Rightarrow> bool" where
  "heap_ordered xs n \<longleftrightarrow> (\<forall>j. 0 < j \<and> j < n \<longrightarrow> tm_ts (xs ! par j) \<le> tm_ts (xs ! j))"

text \<open>The order holds but for position \<open>i\<close> against its parent; its children are above that parent.\<close>

definition up_inv :: "'cb timer list \<Rightarrow> nat \<Rightarrow> nat \<Rightarrow> bool" where
  "up_inv xs n i \<longleftrightarrow>
     (\<forall>j. 0 < j \<and> j < n \<and> j \<noteq> i \<longrightarrow> tm_ts (xs ! par j) \<le> tm_ts (xs ! j)) \<and>
     (\<forall>j. 0 < i \<and> 0 < j \<and> j < n \<and> par j = i \<longrightarrow> tm_ts (xs ! par i) \<le> tm_ts (xs ! j))"

text \<open>The order holds but for position \<open>i\<close> against its children.\<close>

definition down_inv :: "'cb timer list \<Rightarrow> nat \<Rightarrow> nat \<Rightarrow> bool" where
  "down_inv xs n i \<longleftrightarrow>
     (\<forall>j. 0 < j \<and> j < n \<and> par j \<noteq> i \<longrightarrow> tm_ts (xs ! par j) \<le> tm_ts (xs ! j)) \<and>
     (\<forall>j. 0 < i \<and> 0 < j \<and> j < n \<and> par j = i \<longrightarrow> tm_ts (xs ! par i) \<le> tm_ts (xs ! j))"

text \<open>The order holds but for position \<open>i\<close> against its parent and its children.\<close>

definition but_inv :: "'cb timer list \<Rightarrow> nat \<Rightarrow> nat \<Rightarrow> bool" where
  "but_inv xs n i \<longleftrightarrow>
     (\<forall>j. 0 < j \<and> j < n \<and> j \<noteq> i \<and> par j \<noteq> i \<longrightarrow> tm_ts (xs ! par j) \<le> tm_ts (xs ! j)) \<and>
     (\<forall>j. 0 < i \<and> 0 < j \<and> j < n \<and> par j = i \<longrightarrow> tm_ts (xs ! par i) \<le> tm_ts (xs ! j))"

lemma heap_ordered_up_inv: "heap_ordered xs n \<Longrightarrow> i < n \<Longrightarrow> up_inv xs n i"
  unfolding up_inv_def heap_ordered_def by (metis order_trans)

lemma heap_ordered_root:
  assumes "heap_ordered xs n" and "j < n"
  shows "tm_ts (xs ! 0) \<le> tm_ts (xs ! j)"
  using assms(2)
proof (induction j rule: less_induct)
  case (less j)
  show ?case
  proof (cases "j = 0")
    case False
    then have "par j < j" using par_less by simp
    with less have "tm_ts (xs ! 0) \<le> tm_ts (xs ! par j)" by simp
    also have "\<dots> \<le> tm_ts (xs ! j)" using assms(1) False less.prems by (simp add: heap_ordered_def)
    finally show ?thesis .
  qed simp
qed

lemma up_inv_stop:
  assumes "up_inv xs n i" and "i = 0 \<or> tm_ts (xs ! par i) \<le> tm_ts (xs ! i)"
  shows "heap_ordered xs n"
  using assms unfolding up_inv_def heap_ordered_def by (metis less_numeral_extra(3))

lemma up_inv_move:
  assumes inv: "up_inv xs n i" and i: "0 < i" "i < n" "n \<le> length xs"
    and le: "tm_ts (xs ! i) \<le> tm_ts (xs ! par i)"
  shows "up_inv (xs[i := xs ! par i, par i := xs ! i]) n (par i)"
proof -
  let ?p = "par i" and ?ys = "xs[i := xs ! par i, par i := xs ! i]"
  have p: "?p < i" "?p < length xs" "i < length xs"
    using i par_less [of i] by auto
  have at: "\<And>k. k < n \<Longrightarrow> ?ys ! k = (if k = ?p then xs ! i else if k = i then xs ! ?p else xs ! k)"
    using p i by (auto simp: nth_list_update)
  have ord: "\<And>j. 0 < j \<Longrightarrow> j < n \<Longrightarrow> j \<noteq> i \<Longrightarrow> tm_ts (xs ! par j) \<le> tm_ts (xs ! j)"
    and ch: "\<And>j. 0 < j \<Longrightarrow> j < n \<Longrightarrow> par j = i \<Longrightarrow> tm_ts (xs ! ?p) \<le> tm_ts (xs ! j)"
    using inv i by (auto simp: up_inv_def)
  show ?thesis unfolding up_inv_def
  proof (intro conjI allI impI; elim conjE)
    fix j assume j: "0 < j" "j < n" "j \<noteq> ?p"
    then have pj: "par j < j" "par j < n" using par_less [of j] by auto
    show "tm_ts (?ys ! par j) \<le> tm_ts (?ys ! j)"
    proof (cases "j = i")
      case True
      then show ?thesis using at [of i] at [of ?p] p i le by auto
    next
      case False
      then have "?ys ! j = xs ! j" using at [OF j(2)] j(3) by simp
      moreover consider "par j = ?p" | "par j = i" | "par j \<noteq> ?p" "par j \<noteq> i" by blast
      then have "tm_ts (?ys ! par j) \<le> tm_ts (xs ! j)"
      proof cases
        case 1
        then have "?ys ! par j = xs ! i" using at [OF pj(2)] by simp
        moreover have "tm_ts (xs ! ?p) \<le> tm_ts (xs ! j)" using ord [OF j(1,2) False] 1 by simp
        ultimately show ?thesis using le by simp
      next
        case 2
        then have "?ys ! par j = xs ! ?p" using at [OF pj(2)] p by simp
        then show ?thesis using ch [OF j(1,2) 2] by simp
      next
        case 3
        then have "?ys ! par j = xs ! par j" using at [OF pj(2)] by simp
        then show ?thesis using ord [OF j(1,2) False] by simp
      qed
      ultimately show ?thesis by simp
    qed
  next
    fix j assume j: "0 < ?p" "0 < j" "j < n" "par j = ?p"
    have "tm_ts (xs ! par ?p) \<le> tm_ts (xs ! ?p)" using ord [of ?p] j(1) p i by auto
    moreover have "par ?p < ?p" using j(1) by (rule par_less)
    ultimately have g: "?ys ! par ?p = xs ! par ?p" "tm_ts (xs ! par ?p) \<le> tm_ts (xs ! ?p)"
      using at [of "par ?p"] p i by auto
    show "tm_ts (?ys ! par ?p) \<le> tm_ts (?ys ! j)"
    proof (cases "j = i")
      case True
      then show ?thesis using g at [of i] p i by auto
    next
      case False
      then have "tm_ts (xs ! ?p) \<le> tm_ts (xs ! j)" using ord [OF j(2,3)] j(4) by simp
      moreover have "?ys ! j = xs ! j" using at [OF j(3)] False j(4) par_less [OF j(2)] by auto
      ultimately show ?thesis using g by (metis order_trans)
    qed
  qed
qed

lemma down_stop:
  assumes "but_inv xs n i"
    and "\<And>j. 0 < j \<Longrightarrow> j < n \<Longrightarrow> par j = i \<Longrightarrow> tm_ts (xs ! i) \<le> tm_ts (xs ! j)"
  shows "up_inv xs n i"
  using assms unfolding but_inv_def up_inv_def by blast

lemma down_inv_stop:
  assumes "down_inv xs n i"
    and "\<And>j. 0 < j \<Longrightarrow> j < n \<Longrightarrow> par j = i \<Longrightarrow> tm_ts (xs ! i) \<le> tm_ts (xs ! j)"
  shows "heap_ordered xs n"
  using assms unfolding down_inv_def heap_ordered_def by blast

lemma down_inv_but: "down_inv xs n i \<Longrightarrow> but_inv xs n i"
  unfolding down_inv_def but_inv_def by blast

lemma but_inv_move:
  assumes inv: "but_inv xs n i" and ch: "par ch = i" "0 < ch" "ch < n" "n \<le> length xs"
    and least: "\<And>j. 0 < j \<Longrightarrow> j < n \<Longrightarrow> par j = i \<Longrightarrow> tm_ts (xs ! ch) \<le> tm_ts (xs ! j)"
    and le: "tm_ts (xs ! ch) \<le> tm_ts (xs ! i)"
  shows "down_inv (xs[i := xs ! ch, ch := xs ! i]) n ch"
proof -
  let ?ys = "xs[i := xs ! ch, ch := xs ! i]"
  have i: "i < ch" "i < length xs" "ch < length xs" using ch par_less [of ch] by auto
  have at: "\<And>k. k < n \<Longrightarrow> ?ys ! k = (if k = ch then xs ! i else if k = i then xs ! ch else xs ! k)"
    using i ch(4) by (auto simp: nth_list_update)
  have ord: "\<And>j. 0 < j \<Longrightarrow> j < n \<Longrightarrow> j \<noteq> i \<Longrightarrow> par j \<noteq> i \<Longrightarrow> tm_ts (xs ! par j) \<le> tm_ts (xs ! j)"
    and up: "\<And>j. 0 < i \<Longrightarrow> 0 < j \<Longrightarrow> j < n \<Longrightarrow> par j = i \<Longrightarrow> tm_ts (xs ! par i) \<le> tm_ts (xs ! j)"
    using inv by (auto simp: but_inv_def)
  show ?thesis unfolding down_inv_def
  proof (intro conjI allI impI; elim conjE)
    fix j assume j: "0 < j" "j < n" "par j \<noteq> ch"
    then have pj: "par j < j" "par j < n" using par_less [of j] by auto
    consider "j = ch" | "j = i" | "j \<noteq> ch" "j \<noteq> i" "par j = i" | "j \<noteq> ch" "j \<noteq> i" "par j \<noteq> i" by blast
    then show "tm_ts (?ys ! par j) \<le> tm_ts (?ys ! j)"
    proof cases
      case 1
      then show ?thesis using at [OF j(2)] at [OF pj(2)] ch(1) i(1) le by simp
    next
      case 2
      then have "?ys ! par j = xs ! par i" "?ys ! j = xs ! ch"
        using at [OF j(2)] at [OF pj(2)] i(1) pj(1) by auto
      then show ?thesis using up [of ch] 2 j(1) ch by simp
    next
      case 3
      then show ?thesis using at [OF j(2)] at [OF pj(2)] i(1) least [OF j(1,2)] by simp
    next
      case 4
      then show ?thesis using at [OF j(2)] at [OF pj(2)] j(3) ord [OF j(1,2)] by simp
    qed
  next
    fix j assume j: "0 < ch" "0 < j" "j < n" "par j = ch"
    then have "ch < j" using par_less [of j] by simp
    then have "?ys ! par ch = xs ! ch" "?ys ! j = xs ! j"
      using at [OF j(3)] at [of i] i(1) ch(1,3) by auto
    then show "tm_ts (?ys ! par ch) \<le> tm_ts (?ys ! j)"
      using ord [OF j(2,3)] j(4) i(1) \<open>ch < j\<close> by simp
  qed
qed

section \<open>The two loops\<close>

definition th_wf :: "'cb theap \<Rightarrow> nat \<Rightarrow> bool" where
  \<comment> \<open>the first \<open>n\<close> positions exist and fit into the index map's \<open>int\<close>\<close>
  "th_wf h n \<longleftrightarrow> n \<le> length (th_c h) \<and> n \<le> 2147483648"

definition same_shape :: "'cb theap \<Rightarrow> 'cb theap \<Rightarrow> bool" where
  "same_shape h h' \<longleftrightarrow> length (th_c h') = length (th_c h) \<and> th_n h' = th_n h"

lemma same_shape_refl [simp]: "same_shape h h"
  by (simp add: same_shape_def)

lemma same_shape_trans: "same_shape h h' \<Longrightarrow> same_shape h' h'' \<Longrightarrow> same_shape h h''"
  by (simp add: same_shape_def)

lemma same_shape_wf: "same_shape h h' \<Longrightarrow> th_wf h n \<Longrightarrow> th_wf h' n"
  by (simp add: same_shape_def th_wf_def)

lemma vst_move:
  assumes "i \<noteq> p" "i < n" "p < n" "th_wf h n"
  shows "\<exists>h'. set_at (set_idx h (tm_fd (th_c h ! p)) i) i (th_c h ! p) = Inr h' \<and>
     vst h' p v = swap_v i p (vst h i v) \<and> same_shape h h'"
  using vst_step [of i p h v] assms by (auto simp: th_wf_def same_shape_def)

lemma fst_vst_nth:
  "i \<noteq> j \<Longrightarrow> fst (vst h i v) ! j = th_c h ! j" "i < length (th_c h) \<Longrightarrow> fst (vst h i v) ! i = v"
  by (simp_all add: vst_def)

lemma fst_swap_v: "fst (swap_v i p s) = (fst s)[i := fst s ! p, p := fst s ! i]"
  by (cases s) simp

lemma length_fst_vst [simp]: "length (fst (vst h i v)) = length (th_c h)"
  by (simp add: vst_def)

declare up_loop.simps [simp del] down_loop.simps [simp del]

lemma up_loop_ok:
  assumes "i < n" and "th_wf h n"
  shows "\<exists>j h'. up_loop v i h = Inr (j, h') \<and> j \<le> i \<and> swaps n (vst h i v) (vst h' j v) \<and>
     same_shape h h' \<and> (up_inv (fst (vst h i v)) n i \<longrightarrow> heap_ordered (fst (vst h' j v)) n)"
  using assms
proof (induction i arbitrary: h rule: less_induct)
  case (less i)
  let ?xs = "fst (vst h i v)"
  show ?case
  proof (cases "i = 0")
    case True
    then have "up_loop v i h = Inr (i, h)" by (simp add: up_loop.simps [of v 0 h])
    with True show ?thesis by (auto intro: swaps_refl up_inv_stop)
  next
    case False
    then have p: "par i < i" "par i < n" "par i < length (th_c h)" "parent_of i = par i"
      using par_less [of i] less.prems parent_of_eq [of i] by (auto simp: th_wf_def)
    have ii: "i < length (th_c h)" using less.prems by (simp add: th_wf_def)
    have xs: "?xs ! par i = th_c h ! par i" "?xs ! i = v"
      using fst_vst_nth(1) [of i "par i" h v] fst_vst_nth(2) [OF ii] p(1) by auto
    show ?thesis
    proof (cases "timer_less v (th_c h ! par i)")
      case True
      then have "up_loop v i h = Inr (i, h)"
        using False p by (simp add: up_loop.simps [of v i])
      moreover have "up_inv ?xs n i \<longrightarrow> heap_ordered ?xs n"
        using True xs by (auto simp: timer_less_def intro: up_inv_stop)
      ultimately show ?thesis by (auto intro: swaps_refl)
    next
      case go: False
      obtain h1 where h1: "set_at (set_idx h (tm_fd (th_c h ! par i)) i) i (th_c h ! par i) = Inr h1"
          "vst h1 (par i) v = swap_v i (par i) (vst h i v)" "same_shape h h1"
        using vst_move [of i "par i" n h v] p less.prems by auto
      have run: "up_loop v i h = up_loop v (par i) h1"
        using False go p h1(1) by (simp add: up_loop.simps [of v i])
      from less.IH [OF p(1) p(2) same_shape_wf [OF h1(3) less.prems(2)]] obtain j h' where
        j: "up_loop v (par i) h1 = Inr (j, h')" "j \<le> par i"
          "swaps n (vst h1 (par i) v) (vst h' j v)" "same_shape h1 h'"
          "up_inv (fst (vst h1 (par i) v)) n (par i) \<longrightarrow> heap_ordered (fst (vst h' j v)) n"
        by blast
      have "up_inv ?xs n i \<longrightarrow> up_inv (fst (vst h1 (par i) v)) n (par i)"
        using up_inv_move [of ?xs n i] False less.prems go xs h1(2)
        by (auto simp: fst_swap_v timer_less_def th_wf_def)
      then show ?thesis
        using run j p h1 less.prems by (auto intro!: swaps_step [of i n "par i"] intro: same_shape_trans)
    qed
  qed
qed

lemma min_child_ok:
  assumes "i * 2 + 1 < th_n h" and "th_n h \<le> length (th_c h)"
  shows "\<exists>ch. min_child h (i * 2 + 1) = Inr ch \<and> par ch = i \<and> 0 < ch \<and> ch < th_n h \<and>
     (\<forall>j. 0 < j \<and> j < th_n h \<and> par j = i \<longrightarrow> tm_ts (th_c h ! ch) \<le> tm_ts (th_c h ! j))"
proof -
  let ?l = "i * 2 + 1" and ?r = "i * 2 + 2" and ?t = "\<lambda>k. tm_ts (th_c h ! k)"
  have kids: "\<And>P. P ?l \<Longrightarrow> (?r < th_n h \<Longrightarrow> P ?r) \<Longrightarrow> (\<forall>j. 0 < j \<and> j < th_n h \<and> par j = i \<longrightarrow> P j)"
    using par_child by metis
  have pars: "par ?l = i" "par ?r = i" by (simp_all add: par_def)
  show ?thesis
  proof (cases "?r < th_n h \<and> ?t ?r < ?t ?l")
    case True
    then have "min_child h ?l = Inr ?r"
      using assms by (simp add: min_child_def timer_less_def)
    moreover have "\<forall>j. 0 < j \<and> j < th_n h \<and> par j = i \<longrightarrow> ?t ?r \<le> ?t j"
      using True by (intro kids) auto
    ultimately show ?thesis using True pars(2) by (intro exI [of _ ?r]) auto
  next
    case False
    then have "min_child h ?l = Inr ?l"
      using assms by (auto simp: min_child_def timer_less_def)
    moreover have "\<forall>j. 0 < j \<and> j < th_n h \<and> par j = i \<longrightarrow> ?t ?l \<le> ?t j"
      using False by (intro kids) auto
    ultimately show ?thesis using assms pars(1) by (intro exI [of _ ?l]) auto
  qed
qed

lemma down_loop_ok:
  assumes "i < th_n h" and "th_wf h (th_n h)"
  shows "\<exists>j h'. down_loop v i h = Inr (j, h') \<and> i \<le> j \<and> j < th_n h \<and>
     swaps (th_n h) (vst h i v) (vst h' j v) \<and> same_shape h h' \<and>
     (down_inv (fst (vst h i v)) (th_n h) i \<longrightarrow> heap_ordered (fst (vst h' j v)) (th_n h)) \<and>
     (but_inv (fst (vst h i v)) (th_n h) i \<longrightarrow> up_inv (fst (vst h' j v)) (th_n h) i)"
  using assms
proof (induction "th_n h - i" arbitrary: i h rule: less_induct)
  case less
  let ?xs = "fst (vst h i v)" and ?n = "th_n h"
  have ii: "i < length (th_c h)" "?xs ! i = v"
    using less.prems by (auto simp: th_wf_def intro: fst_vst_nth(2))
  have stay: ?case if run: "down_loop v i h = Inr (i, h)"
    and kids: "\<And>j. 0 < j \<Longrightarrow> j < ?n \<Longrightarrow> par j = i \<Longrightarrow> tm_ts (?xs ! i) \<le> tm_ts (?xs ! j)"
  proof (intro exI conjI impI)
    show "down_loop v i h = Inr (i, h)" by (rule run)
    show "heap_ordered ?xs ?n" if "down_inv ?xs ?n i" using down_inv_stop [OF that kids] .
    show "up_inv ?xs ?n i" if "but_inv ?xs ?n i" using down_stop [OF that kids] .
  qed (use less.prems in \<open>simp_all add: swaps_refl\<close>)
  show ?case
  proof (cases "?n \<le> i * 2 + 1")
    case True
    then have "down_loop v i h = Inr (i, h)" by (simp add: down_loop.simps [of v i])
    moreover have False if "0 < j" "j < ?n" "par j = i" for j
      using that True par_child [of j i] by linarith
    ultimately show ?thesis by (intro stay) blast+
  next
    case False
    then obtain ch where ch: "min_child h (i * 2 + 1) = Inr ch" "par ch = i" "0 < ch" "ch < ?n"
        "\<And>j. 0 < j \<Longrightarrow> j < ?n \<Longrightarrow> par j = i \<Longrightarrow> tm_ts (th_c h ! ch) \<le> tm_ts (th_c h ! j)"
      using min_child_ok [of i h] less.prems by (auto simp: th_wf_def not_le)
    have ic: "i < ch" "ch < length (th_c h)"
      using ch par_less [of ch] less.prems by (auto simp: th_wf_def)
    have xs: "\<And>j. 0 < j \<Longrightarrow> par j = i \<Longrightarrow> ?xs ! j = th_c h ! j"
      by (metis fst_vst_nth(1) less_irrefl par_less)
    show ?thesis
    proof (cases "timer_less (th_c h ! ch) v")
      case True
      then have "down_loop v i h = Inr (i, h)"
        using False ch(1) ic by (simp add: down_loop.simps [of v i])
      moreover have "tm_ts (?xs ! i) \<le> tm_ts (?xs ! j)" if "0 < j" "j < ?n" "par j = i" for j
        using True ch(5) [OF that] ii xs [OF that(1,3)] by (simp add: timer_less_def)
      ultimately show ?thesis by (rule stay)
    next
      case go: False
      obtain h1 where h1: "set_at (set_idx h (tm_fd (th_c h ! ch)) i) i (th_c h ! ch) = Inr h1"
          "vst h1 ch v = swap_v i ch (vst h i v)" "same_shape h h1"
        using vst_move [of i ch ?n h v] ic ch less.prems by auto
      have n1: "th_n h1 = ?n" using h1(3) by (simp add: same_shape_def)
      have run: "down_loop v i h = down_loop v ch h1"
        using False go ch(1) ic h1(1) by (simp add: down_loop.simps [of v i])
      have wf1: "th_wf h1 (th_n h1)" using same_shape_wf [OF h1(3) less.prems(2)] n1 by simp
      have "th_n h1 - ch < ?n - i" using n1 ic(1) ch(4) by linarith
      from less.hyps [OF this _ wf1] obtain j h' where
        j: "down_loop v ch h1 = Inr (j, h')" "ch \<le> j" "j < ?n"
          "swaps ?n (vst h1 ch v) (vst h' j v)" "same_shape h1 h'"
          "down_inv (fst (vst h1 ch v)) ?n ch \<longrightarrow> heap_ordered (fst (vst h' j v)) ?n"
        using ch(4) by (auto simp: n1)
      have "but_inv ?xs ?n i \<longrightarrow> down_inv (fst (vst h1 ch v)) ?n ch"
        using but_inv_move [of ?xs ?n i ch] ch(2-5) ii xs go less.prems(2) h1(2)
        by (auto simp: fst_swap_v timer_less_def th_wf_def)
      then have "but_inv ?xs ?n i \<longrightarrow> heap_ordered (fst (vst h' j v)) ?n" using j(6) by blast
      then have ord: "heap_ordered (fst (vst h' j v)) ?n" if "but_inv ?xs ?n i" using that by blast
      show ?thesis
      proof (intro exI conjI impI)
        show "down_loop v i h = Inr (j, h')" using run j(1) by simp
        show "i \<le> j" "j < ?n" using ic j(2,3) by auto
        show "swaps ?n (vst h i v) (vst h' j v)"
          using swaps_step [OF less.prems(1) ch(4)] ic(1) j(4) h1(2) by simp
        show "same_shape h h'" using h1(3) j(5) by (rule same_shape_trans)
        show "heap_ordered (fst (vst h' j v)) ?n" if "down_inv ?xs ?n i"
          using ord [OF down_inv_but [OF that]] .
        show "up_inv (fst (vst h' j v)) ?n i" if "but_inv ?xs ?n i"
          using heap_ordered_up_inv [OF ord [OF that] less.prems(1)] .
      qed
    qed
  qed
qed

section \<open>upAdjust and downAdjust\<close>

lemma set_vst:
  assumes "j < n" "th_wf h n"
  shows "\<exists>h'. set_at h j v = Inr h' \<and> (th_c (set_idx h' (tm_fd v) j), th_fds (set_idx h' (tm_fd v) j)) = vst h j v
     \<and> same_shape h (set_idx h' (tm_fd v) j)"
  using assms by (auto simp: set_at_def set_idx_def vst_def same_shape_def th_wf_def int_range_def)

lemma upAdjust_ok:
  assumes "i < n" and "th_wf h n" and v: "v = th_c h ! i"
  shows "\<exists>h'. upAdjust h i = Inr h' \<and> swaps n (vst h i v) (th_c h', th_fds h') \<and> same_shape h h' \<and>
     (up_inv (th_c h) n i \<longrightarrow> heap_ordered (th_c h') n)"
proof -
  from up_loop_ok [OF assms(1,2)] obtain j h1 where j: "up_loop v i h = Inr (j, h1)" "j \<le> i"
      "swaps n (vst h i v) (vst h1 j v)" "same_shape h h1"
      "up_inv (fst (vst h i v)) n i \<longrightarrow> heap_ordered (fst (vst h1 j v)) n" by blast
  have "j < n" using j(2) assms(1) by simp
  from set_vst [OF this same_shape_wf [OF j(4) assms(2)]] obtain h2 where h2: "set_at h1 j v = Inr h2"
      "(th_c (set_idx h2 (tm_fd v) j), th_fds (set_idx h2 (tm_fd v) j)) = vst h1 j v"
      "same_shape h1 (set_idx h2 (tm_fd v) j)" by blast
  have "i < length (th_c h)" using assms by (simp add: th_wf_def)
  then have "upAdjust h i = Inr (set_idx h2 (tm_fd v) j)"
    using v j(1) h2(1) by (simp add: upAdjust_def)
  moreover have "fst (vst h i v) = th_c h" by (simp add: vst_def v)
  moreover have "th_c (set_idx h2 (tm_fd v) j) = fst (vst h1 j v)" using h2(2) by (metis fst_conv)
  ultimately show ?thesis using j h2 by (auto intro: same_shape_trans)
qed

lemma downAdjust_ok:
  assumes "i < th_n h" and "th_wf h (th_n h)" and v: "v = th_c h ! i"
  shows "\<exists>h'. downAdjust h i = Inr (False, h') \<and> swaps (th_n h) (vst h i v) (th_c h', th_fds h') \<and>
     same_shape h h' \<and> (down_inv (th_c h) (th_n h) i \<longrightarrow> heap_ordered (th_c h') (th_n h)) \<and>
     (but_inv (th_c h) (th_n h) i \<longrightarrow> up_inv (th_c h') (th_n h) i)"
proof -
  from down_loop_ok [OF assms(1,2)] obtain j h1 where j: "down_loop v i h = Inr (j, h1)" "i \<le> j"
      "j < th_n h" "swaps (th_n h) (vst h i v) (vst h1 j v)" "same_shape h h1"
      "down_inv (fst (vst h i v)) (th_n h) i \<longrightarrow> heap_ordered (fst (vst h1 j v)) (th_n h)"
      "but_inv (fst (vst h i v)) (th_n h) i \<longrightarrow> up_inv (fst (vst h1 j v)) (th_n h) i" by blast
  from set_vst [OF j(3) same_shape_wf [OF j(5) assms(2)]] obtain h2 where h2: "set_at h1 j v = Inr h2"
      "(th_c (set_idx h2 (tm_fd v) j), th_fds (set_idx h2 (tm_fd v) j)) = vst h1 j v"
      "same_shape h1 (set_idx h2 (tm_fd v) j)" by blast
  have "i < length (th_c h)" using assms by (simp add: th_wf_def)
  then have "downAdjust h i = Inr (False, set_idx h2 (tm_fd v) j)"
    using v j(1,2) h2(1) by (simp add: downAdjust_def)
  moreover have "fst (vst h i v) = th_c h" by (simp add: vst_def v)
  moreover have "th_c (set_idx h2 (tm_fd v) j) = fst (vst h1 j v)" using h2(2) by (metis fst_conv)
  ultimately show ?thesis using j h2 by (auto intro: same_shape_trans)
qed

lemma down_or_up_ok:
  assumes i: "i < th_n h" and wf: "th_wf h (th_n h)"
    and idx: "idx_ok (th_c h) (th_n h) ((th_fds h)(tm_fd (th_c h ! i) \<mapsto> int i))"
  shows "\<exists>h'. down_or_up h i = Inr h' \<and> idx_ok (th_c h') (th_n h) (th_fds h') \<and>
     mset (th_c h') = mset (th_c h) \<and> dom (th_fds h') = insert (tm_fd (th_c h ! i)) (dom (th_fds h)) \<and>
     drop (th_n h) (th_c h') = drop (th_n h) (th_c h) \<and> same_shape h h' \<and>
     (but_inv (th_c h) (th_n h) i \<longrightarrow> heap_ordered (th_c h') (th_n h))"
proof -
  let ?n = "th_n h" and ?v = "th_c h ! i"
  have v: "vst h i ?v = (th_c h, (th_fds h)(tm_fd ?v \<mapsto> int i))" by (simp add: vst_def)
  from downAdjust_ok [OF i wf refl] obtain h1 where h1: "downAdjust h i = Inr (False, h1)"
      "swaps ?n (vst h i ?v) (th_c h1, th_fds h1)" "same_shape h h1"
      "but_inv (th_c h) ?n i \<longrightarrow> up_inv (th_c h1) ?n i" by blast
  have k1: "idx_ok (th_c h1) ?n (th_fds h1)" "mset (th_c h1) = mset (th_c h)"
      "dom (th_fds h1) = insert (tm_fd ?v) (dom (th_fds h))" "drop ?n (th_c h1) = drop ?n (th_c h)"
    using swaps_keep [OF h1(2) [unfolded v] idx] by auto
  have id1: "vst h1 i (th_c h1 ! i) = (th_c h1, th_fds h1)"
    using k1(1) i by (simp add: vst_def idx_ok_def fun_upd_idem)
  from upAdjust_ok [OF i same_shape_wf [OF h1(3) wf] refl] obtain h2 where h2: "upAdjust h1 i = Inr h2"
      "swaps ?n (vst h1 i (th_c h1 ! i)) (th_c h2, th_fds h2)" "same_shape h1 h2"
      "up_inv (th_c h1) ?n i \<longrightarrow> heap_ordered (th_c h2) ?n" by blast
  have "idx_ok (th_c h2) ?n (th_fds h2) \<and> mset (th_c h2) = mset (th_c h1) \<and>
      dom (th_fds h2) = dom (th_fds h1) \<and> drop ?n (th_c h2) = drop ?n (th_c h1)"
    using swaps_keep [OF h2(2) [unfolded id1] k1(1)] by simp
  with h1 h2 k1 show ?thesis by (auto simp: down_or_up_def intro: same_shape_trans)
qed

section \<open>Invariant and abstraction\<close>

definition theap_inv :: "'cb theap \<Rightarrow> bool" where
  "theap_inv h \<longleftrightarrow> th_n h = length (th_c h) \<and> length (th_c h) \<le> 2147483648 \<and>
     idx_ok (th_c h) (th_n h) (th_fds h) \<and> dom (th_fds h) = tm_fd ` set (th_c h) \<and>
     heap_ordered (th_c h) (th_n h)"

definition timer_map :: "'cb timer list \<Rightarrow> (int \<rightharpoonup> timestamp \<times> 'cb option)" where
  "timer_map c = map_of (map (\<lambda>t. (tm_fd t, (tm_ts t, tm_cb t))) c)"

definition th_abs :: "'cb theap \<Rightarrow> (int \<rightharpoonup> timestamp \<times> 'cb option)" where
  "th_abs h = timer_map (th_c h)"

definition th_room :: "'cb theap \<Rightarrow> bool" where
  "th_room h \<longleftrightarrow> length (th_c h) < 2147483648"

lemma theap_inv_wf: "theap_inv h \<Longrightarrow> th_wf h (th_n h)"
  by (simp add: theap_inv_def th_wf_def)

lemma idx_ok_distinct: "idx_ok c (length c) f \<Longrightarrow> distinct (map tm_fd c)"
  using idx_ok_inj [of c "length c" f] by (auto simp: distinct_conv_nth)

lemma timer_map_mset:
  assumes "distinct (map tm_fd c)" and "mset c' = mset c"
  shows "timer_map c' = timer_map c"
proof -
  have "distinct (map tm_fd c')"
    using assms by (metis mset_eq_imp_distinct_iff mset_map)
  moreover have "set c' = set c" using assms(2) by (rule mset_eq_setD)
  ultimately show ?thesis using assms(1) unfolding timer_map_def
    by (intro map_of_inject_set [THEN iffD2]) (auto simp: comp_def)
qed

lemma timer_map_eq_Some:
  assumes "distinct (map tm_fd c)"
  shows "timer_map c k = Some (ts, cb) \<longleftrightarrow> (\<exists>t \<in> set c. tm_fd t = k \<and> tm_ts t = ts \<and> tm_cb t = cb)"
proof -
  have "distinct (map fst (map (\<lambda>t. (tm_fd t, (tm_ts t, tm_cb t))) c))"
    using assms by (simp add: comp_def)
  then show ?thesis unfolding timer_map_def
    by (subst map_of_eq_Some_iff) auto
qed

lemma timer_map_eq_None: "timer_map c k = None \<longleftrightarrow> k \<notin> tm_fd ` set c"
  by (auto simp: timer_map_def map_of_eq_None_iff image_iff)

lemma dom_timer_map: "dom (timer_map c) = tm_fd ` set c"
  by (simp add: set_eq_iff domIff timer_map_eq_None)

lemma timer_map_snoc:
  "tm_fd t \<notin> tm_fd ` set c \<Longrightarrow> timer_map (c @ [t]) = (timer_map c)(tm_fd t \<mapsto> (tm_ts t, tm_cb t))"
  using timer_map_eq_None [of c "tm_fd t"]
  by (auto simp: timer_map_def map_add_def fun_eq_iff split: option.splits)

lemma timer_map_update:
  assumes "distinct (map tm_fd c)" and "i < length c" and "tm_fd t = tm_fd (c ! i)"
  shows "timer_map (c[i := t]) = (timer_map c)(tm_fd t \<mapsto> (tm_ts t, tm_cb t))"
proof -
  have split: "c = take i c @ c ! i # drop (Suc i) c" using assms(2) by (rule id_take_nth_drop)
  then have "map tm_fd c = map tm_fd (take i c) @ tm_fd (c ! i) # map tm_fd (drop (Suc i) c)"
    by (metis list.simps(9) map_append)
  with assms(1,3) have notin: "tm_fd t \<notin> tm_fd ` set (take i c)" by auto
  have "timer_map (c[i := t]) = timer_map (take i c @ t # drop (Suc i) c)"
    using assms(2) by (simp add: upd_conv_take_nth_drop)
  also have "\<dots> = (timer_map c)(tm_fd t \<mapsto> (tm_ts t, tm_cb t))"
    using notin assms(3) timer_map_eq_None [of "take i c" "tm_fd t"]
    by (subst (2) split) (auto simp: timer_map_def map_add_def fun_eq_iff split: option.splits)
  finally show ?thesis .
qed

lemma timer_map_remove:
  assumes "distinct (map tm_fd (c @ [t]))"
  shows "timer_map c = (timer_map (c @ [t]))(tm_fd t := None)"
proof -
  have "tm_fd t \<notin> tm_fd ` set c" using assms by auto
  then show ?thesis using timer_map_snoc [of t c] timer_map_eq_None [of c "tm_fd t"]
    by (auto simp: fun_eq_iff)
qed

lemma theap_inv_new [simp]: "theap_inv theap_new"
  by (simp add: theap_inv_def theap_new_def idx_ok_def heap_ordered_def)

lemma theap_inv_distinct: "theap_inv h \<Longrightarrow> distinct (map tm_fd (th_c h))"
  using idx_ok_distinct by (auto simp: theap_inv_def)

lemma theap_inv_lookup:
  assumes "theap_inv h"
  shows "th_fds h k = None \<longleftrightarrow> th_abs h k = None"
    and "th_fds h k = Some ix \<Longrightarrow> to_size ix < length (th_c h) \<and> tm_fd (th_c h ! to_size ix) = k"
proof -
  show "th_fds h k = None \<longleftrightarrow> th_abs h k = None"
    using assms timer_map_eq_None [of "th_c h" k]
    by (auto simp: theap_inv_def th_abs_def domIff [symmetric] simp del: domIff)
next
  assume ix: "th_fds h k = Some ix"
  then have "k \<in> tm_fd ` set (th_c h)" using assms by (auto simp: theap_inv_def)
  then obtain i where i: "i < length (th_c h)" "tm_fd (th_c h ! i) = k"
    by (auto simp: in_set_conv_nth)
  with assms ix have "ix = int i" by (auto simp: theap_inv_def idx_ok_def)
  moreover have "i < size_mod" using i(1) assms by (simp add: theap_inv_def)
  ultimately show "to_size ix < length (th_c h) \<and> tm_fd (th_c h ! to_size ix) = k"
    using i by (simp add: to_size_id)
qed


section \<open>The operations on a well-formed heap\<close>

lemma theap_invI:
  assumes "idx_ok (th_c h) (length (th_c h)) (th_fds h)" "th_n h = length (th_c h)"
    "length (th_c h) \<le> 2147483648" "dom (th_fds h) = tm_fd ` set (th_c h)"
    "heap_ordered (th_c h) (length (th_c h))"
  shows "theap_inv h"
  using assms by (simp add: theap_inv_def)

lemma heap_ordered_snoc:
  assumes "heap_ordered c (length c)"
  shows "up_inv (c @ [t]) (Suc (length c)) (length c)"
  unfolding up_inv_def
proof (intro conjI allI impI; elim conjE)
  fix j assume j: "0 < j" "j < Suc (length c)" "j \<noteq> length c"
  then have "par j < length c" using par_less [of j] by simp
  with j assms show "tm_ts ((c @ [t]) ! par j) \<le> tm_ts ((c @ [t]) ! j)"
    by (simp add: heap_ordered_def nth_append)
next
  fix j assume "0 < j" "j < Suc (length c)" "par j = length c"
  then show "tm_ts ((c @ [t]) ! par (length c)) \<le> tm_ts ((c @ [t]) ! j)"
    using par_less [of j] by simp
qed

lemma heap_ordered_but:
  assumes "heap_ordered c n" and "i < n" and "n \<le> length c"
  shows "but_inv (c[i := t]) n i"
proof -
  have le: "tm_ts (c ! par j) \<le> tm_ts (c ! j)" if "0 < j" "j < n" for j
    using assms(1) that by (simp add: heap_ordered_def)
  have same: "c[i := t] ! j = c ! j" if "j \<noteq> i" for j using that by simp
  show ?thesis unfolding but_inv_def
  proof (intro conjI allI impI; elim conjE)
    fix j assume "0 < j" "j < n" "j \<noteq> i" "par j \<noteq> i"
    then show "tm_ts (c[i := t] ! par j) \<le> tm_ts (c[i := t] ! j)" using le same by simp
  next
    fix j assume j: "0 < i" "0 < j" "j < n" "par j = i"
    then have ne: "par i \<noteq> i" "j \<noteq> i" using par_less [of i] par_less [of j] by auto
    have "tm_ts (c ! par i) \<le> tm_ts (c ! i)" using le [OF j(1) assms(2)] .
    also have "\<dots> \<le> tm_ts (c ! j)" using le [OF j(2,3)] j(4) by simp
    finally show "tm_ts (c[i := t] ! par i) \<le> tm_ts (c[i := t] ! j)"
      using same [OF ne(1)] same [OF ne(2)] by simp
  qed
qed

lemma heap_ordered_down:
  assumes "heap_ordered c n" and "i < n" and "n \<le> length c" and "tm_ts (c ! i) \<le> tm_ts t"
  shows "down_inv (c[i := t]) n i"
proof -
  have b: "but_inv (c[i := t]) n i" using assms(1-3) by (rule heap_ordered_but)
  have "tm_ts (c[i := t] ! par i) \<le> tm_ts (c[i := t] ! i)" if "0 < i"
  proof -
    have "tm_ts (c ! par i) \<le> tm_ts (c ! i)" using assms(1,2) that by (simp add: heap_ordered_def)
    moreover have "par i \<noteq> i" using par_less [OF that] by simp
    ultimately show ?thesis using assms by simp
  qed
  with b show ?thesis unfolding but_inv_def down_inv_def by blast
qed

lemma push_new:
  assumes inv: "theap_inv h" and room: "th_room h" and new: "th_fds h (tm_fd t) = None"
  shows "\<exists>h'. push h t = Inr h' \<and> theap_inv h' \<and> mset (th_c h') = add_mset t (mset (th_c h))"
proof -
  let ?c = "th_c h @ [t]" and ?n = "length (th_c h)"
  let ?h = "h\<lparr>th_c := ?c, th_fds := (th_fds h)(tm_fd t \<mapsto> int ?n), th_n := Suc ?n\<rparr>"
  from inv room have n: "th_n h = ?n" "?n < 2147483648" "heap_ordered (th_c h) ?n"
      "idx_ok (th_c h) ?n (th_fds h)" "dom (th_fds h) = tm_fd ` set (th_c h)"
    by (auto simp: theap_inv_def th_room_def)
  have start: "push h t = (if Suc ?n = 1 then Inr ?h else upAdjust ?h ?n)"
    using new n(1,2)
    by (simp add: push_def set_idx_def Let_def size_add_small size_sub_small int_range_def)
  have notin: "tm_fd t \<notin> tm_fd ` set (th_c h)" using new n(5) by (metis domIff)
  then have idx: "idx_ok ?c (Suc ?n) (th_fds ?h)"
    using n(4) new by (auto simp: idx_ok_def nth_append less_Suc_eq)
  have dom: "dom (th_fds ?h) = tm_fd ` set ?c" using n(5) by auto
  show ?thesis
  proof (cases "?n = 0")
    case True
    then have "theap_inv ?h" using idx dom by (intro theap_invI) (simp_all add: heap_ordered_def)
    with True start show ?thesis by simp
  next
    case False
    have wf: "th_wf ?h (Suc ?n)" using n(2) by (simp add: th_wf_def)
    have v: "vst ?h ?n (th_c ?h ! ?n) = (?c, th_fds ?h)"
      by (simp add: vst_def)
    from upAdjust_ok [OF _ wf refl, of ?n] obtain h' where h': "upAdjust ?h ?n = Inr h'"
        "swaps (Suc ?n) (?c, th_fds ?h) (th_c h', th_fds h')" "same_shape ?h h'"
        "up_inv ?c (Suc ?n) ?n \<longrightarrow> heap_ordered (th_c h') (Suc ?n)"
      using v by auto
    from swaps_keep [OF h'(2) idx] have k: "idx_ok (th_c h') (Suc ?n) (th_fds h')"
        "mset (th_c h') = mset ?c" "dom (th_fds h') = dom (th_fds ?h)" by auto
    have "heap_ordered (th_c h') (Suc ?n)" using h'(4) heap_ordered_snoc [OF n(3)] by blast
    moreover have "set (th_c h') = set ?c" using k(2) by (rule mset_eq_setD)
    ultimately have "theap_inv h'"
      using h'(3) k dom n(2) by (intro theap_invI) (auto simp: same_shape_def)
    with False start h'(1) k(2) show ?thesis by simp
  qed
qed


lemma push_existing:
  assumes inv: "theap_inv h" and ix: "th_fds h (tm_fd t) = Some ix"
  shows "\<exists>h'. push h t = Inr h' \<and> theap_inv h' \<and>
     th_abs h' = (th_abs h)(tm_fd t \<mapsto> (tm_ts t, tm_cb t)) \<and> length (th_c h') = length (th_c h)"
proof -
  let ?i = "to_size ix" and ?n = "length (th_c h)"
  let ?t = "(th_c h ! ?i)\<lparr>tm_ts := tm_ts t, tm_cb := tm_cb t\<rparr>"
  let ?h = "h\<lparr>th_c := (th_c h)[?i := ?t]\<rparr>"
  from theap_inv_lookup(2) [OF inv ix] have i: "?i < ?n" "tm_fd (th_c h ! ?i) = tm_fd t" by auto
  from inv have n: "th_n h = ?n" "?n \<le> 2147483648" "heap_ordered (th_c h) ?n"
      "idx_ok (th_c h) ?n (th_fds h)" "dom (th_fds h) = tm_fd ` set (th_c h)"
    by (auto simp: theap_inv_def)
  have start: "push h t = down_or_up ?h ?i" using ix i by (simp add: push_def set_at_def Let_def)
  have fds: "map tm_fd (th_c ?h) = map tm_fd (th_c h)"
    using i by (intro nth_equalityI) (auto simp: nth_list_update)
  have fd_at: "tm_fd (th_c ?h ! j) = tm_fd (th_c h ! j)" if "j < ?n" for j
    using that i by (cases "j = ?i") simp_all
  have "th_fds h (tm_fd t) = Some (int ?i)" using n(4) i by (auto simp: idx_ok_def)
  then have "(th_fds ?h)(tm_fd (th_c ?h ! ?i) \<mapsto> int ?i) = th_fds h" using i by (simp add: fun_upd_idem)
  moreover have "idx_ok (th_c ?h) ?n (th_fds h)" using n(4) fd_at by (simp add: idx_ok_def)
  ultimately obtain h' where h': "down_or_up ?h ?i = Inr h'" "idx_ok (th_c h') ?n (th_fds h')"
      "mset (th_c h') = mset (th_c ?h)" "dom (th_fds h') = insert (tm_fd (th_c ?h ! ?i)) (dom (th_fds h))"
      "same_shape ?h h'" "but_inv (th_c ?h) ?n ?i \<longrightarrow> heap_ordered (th_c h') ?n"
    using down_or_up_ok [of ?i ?h] i n by (auto simp: th_wf_def)
  have set: "tm_fd ` set (th_c h') = tm_fd ` set (th_c h)"
    using h'(3) fds by (metis image_set mset_eq_setD)
  have mem: "tm_fd t \<in> tm_fd ` set (th_c h)" using i by (metis imageI nth_mem)
  have "heap_ordered (th_c h') ?n"
    using h'(6) heap_ordered_but [OF n(3), of ?i ?t] i by simp
  then have inv': "theap_inv h'"
    using h' set n i mem by (intro theap_invI) (auto simp: same_shape_def insert_absorb)
  have dist: "distinct (map tm_fd (th_c h))" using inv by (rule theap_inv_distinct)
  then have "timer_map (th_c h') = timer_map (th_c ?h)" using h'(3) fds by (intro timer_map_mset) auto
  then have "th_abs h' = (th_abs h)(tm_fd t \<mapsto> (tm_ts t, tm_cb t))"
    using timer_map_update [OF dist i(1), of ?t] i(2) by (simp add: th_abs_def)
  with start h' inv' show ?thesis by (auto simp: same_shape_def)
qed


lemma push_ok:
  assumes inv: "theap_inv h" and room: "th_room h"
  shows "\<exists>h'. push h t = Inr h' \<and> theap_inv h' \<and> th_abs h' = (th_abs h)(tm_fd t \<mapsto> (tm_ts t, tm_cb t))"
proof (cases "th_fds h (tm_fd t)")
  case None
  then have notin: "tm_fd t \<notin> tm_fd ` set (th_c h)" using inv by (metis domIff theap_inv_def)
  from push_new [OF inv room None] obtain h' where h': "push h t = Inr h'" "theap_inv h'"
      "mset (th_c h') = mset (th_c h @ [t])" by auto
  have "distinct (map tm_fd (th_c h @ [t]))" using theap_inv_distinct [OF inv] notin by simp
  then have "th_abs h' = timer_map (th_c h @ [t])" using h'(3) by (simp add: th_abs_def timer_map_mset)
  with h' notin show ?thesis by (simp add: timer_map_snoc th_abs_def)
next
  case (Some ix)
  then show ?thesis using push_existing [OF inv] by blast
qed

lemma top_ok:
  assumes inv: "theap_inv h" and ne: "th_n h \<noteq> 0"
  shows "top_heap h = Inr (th_c h ! 0) \<and> th_abs h (tm_fd (th_c h ! 0)) = Some (tm_ts (th_c h ! 0), tm_cb (th_c h ! 0))
     \<and> (\<forall>k ts cb. th_abs h k = Some (ts, cb) \<longrightarrow> tm_ts (th_c h ! 0) \<le> ts)"
proof -
  let ?t = "th_c h ! 0"
  have n: "th_n h = length (th_c h)" and ord: "heap_ordered (th_c h) (length (th_c h))"
    using inv by (auto simp: theap_inv_def)
  have dist: "distinct (map tm_fd (th_c h))" using inv by (rule theap_inv_distinct)
  have "?t \<in> set (th_c h)" using ne n by (auto intro: nth_mem)
  then have "th_abs h (tm_fd ?t) = Some (tm_ts ?t, tm_cb ?t)"
    unfolding th_abs_def by (subst timer_map_eq_Some [OF dist]) auto
  moreover have "tm_ts ?t \<le> ts" if "th_abs h k = Some (ts, cb)" for k ts cb
  proof -
    from that obtain t where "t \<in> set (th_c h)" "tm_ts t = ts"
      using timer_map_eq_Some [OF dist] by (auto simp: th_abs_def)
    then show ?thesis using heap_ordered_root [OF ord] by (metis in_set_conv_nth)
  qed
  moreover have "top_heap h = Inr ?t" using ne n by (simp add: top_heap_def)
  ultimately show ?thesis by blast
qed

text \<open>Exchanging the first and the last position leaves the order intact but for the root.\<close>

lemma heap_ordered_cut:
  assumes "heap_ordered c (Suc n)" and "length c = Suc n" and "0 < n"
  shows "but_inv (c[0 := c ! n, n := c ! 0]) n 0"
  unfolding but_inv_def
proof (intro conjI allI impI; elim conjE)
  fix j assume j: "0 < j" "j < n" "par j \<noteq> 0"
  then have "par j < n" using par_less [of j] by simp
  with j assms show "tm_ts (c[0 := c ! n, n := c ! 0] ! par j) \<le> tm_ts (c[0 := c ! n, n := c ! 0] ! j)"
    by (simp add: heap_ordered_def)
qed simp

lemma mset_but_last: "length c = Suc n \<Longrightarrow> mset (butlast c) = mset c - {#c ! n#}"
  by (cases c rule: rev_cases) auto


lemma heap_ordered_butlast:
  "heap_ordered c n \<Longrightarrow> length c = Suc n \<Longrightarrow> heap_ordered (butlast c) n"
  unfolding heap_ordered_def by (metis diff_Suc_1 length_butlast nth_butlast order.strict_trans par_less)

lemma del_finish:
  assumes len: "length c = Suc m" and idx: "idx_ok c m f" and dist: "distinct (map tm_fd c)"
    and dom: "dom f = tm_fd ` set c" and ord: "heap_ordered c m" and small: "m < 2147483648"
  shows "theap_inv \<lparr>th_c = butlast c, th_n = m, th_fds = f(tm_fd (last c) := None)\<rparr>"
proof -
  obtain c0 t where c: "c = c0 @ [t]" "length c0 = m" using len by (cases c rule: rev_cases) auto
  have notin: "tm_fd t \<notin> tm_fd ` set c0" using dist c by auto
  have "idx_ok c0 m (f(tm_fd t := None))"
    using idx notin c by (auto simp: idx_ok_def nth_append) (metis imageI nth_mem)
  moreover have "dom (f(tm_fd t := None)) = tm_fd ` set c0" using dom notin c by auto
  moreover have "heap_ordered c0 m" using heap_ordered_butlast [OF ord len] c by simp
  ultimately show ?thesis using c small by (auto simp: theap_inv_def)
qed

lemma del_start:
  assumes inv: "theap_inv h" and n: "th_n h = Suc m"
  shows "\<exists>h2. down_or_up (h\<lparr>th_c := (th_c h)[0 := th_c h ! m, m := th_c h ! 0], th_n := m\<rparr>) 0 = Inr h2 \<and>
     mset (th_c h2) = mset (th_c h) \<and> length (th_c h2) = Suc m \<and> last (th_c h2) = th_c h ! 0 \<and>
     idx_ok (th_c h2) m (th_fds h2) \<and> dom (th_fds h2) = dom (th_fds h) \<and>
     heap_ordered (th_c h2) m \<and> th_n h2 = m"
proof -
  let ?c = "th_c h" and ?f = "th_fds h"
  let ?c' = "?c[0 := ?c ! m, m := ?c ! 0]"
  let ?h = "h\<lparr>th_c := ?c', th_n := m\<rparr>"
  from inv n have len: "length ?c = Suc m" and small: "m < 2147483648" and idx: "idx_ok ?c (Suc m) ?f"
    and dom: "dom ?f = tm_fd ` set ?c" and ord: "heap_ordered ?c (Suc m)"
    by (auto simp: theap_inv_def)
  have ms: "mset ?c' = mset ?c" using len by (simp add: mset_swap)
  have in_dom: "tm_fd (?c ! k) \<in> dom ?f" if "k \<le> m" for k using that len dom by simp
  show ?thesis
  proof (cases "m = 0")
    case True
    have c1: "?c = [?c ! 0]" using len True by (cases ?c) auto
    have f0: "?f (tm_fd (?c ! 0)) = Some 0" using idx True by (simp add: idx_ok_def)
    have "?c \<noteq> []" using len by auto
    then have "down_or_up ?h 0 = Inr ?h"
      using True c1 f0 len by (simp add: down_or_up_def downAdjust_def upAdjust_def set_at_def set_idx_def
          down_loop.simps [of _ 0] up_loop.simps [of _ 0] int_range_def fun_upd_idem list_update_same_conv)
    with True c1 len ms show ?thesis
      by (auto simp: idx_ok_def heap_ordered_def) (metis last_ConsL)
  next
    case False
    have neq: "tm_fd (?c ! j) \<noteq> tm_fd (?c ! m)" if "j < m" for j
      using idx_ok_inj [OF idx, of j m] that by auto
    have "idx_ok ?c' m (?f(tm_fd (?c' ! 0) \<mapsto> int 0))"
      using idx neq False len by (auto simp: idx_ok_def nth_list_update)
    moreover have "th_wf ?h m" using len small by (simp add: th_wf_def)
    ultimately obtain h2 where h2: "down_or_up ?h 0 = Inr h2" "idx_ok (th_c h2) m (th_fds h2)"
        "mset (th_c h2) = mset ?c'" "dom (th_fds h2) = insert (tm_fd (?c' ! 0)) (dom ?f)"
        "drop m (th_c h2) = drop m ?c'" "same_shape ?h h2"
        "but_inv ?c' m 0 \<longrightarrow> heap_ordered (th_c h2) m"
      using down_or_up_ok [of 0 ?h] False by auto
    have l2: "length (th_c h2) = Suc m" using h2(6) len by (simp add: same_shape_def)
    have "last (th_c h2) = last (drop m (th_c h2))" using l2 by simp
    also have "\<dots> = ?c ! 0" using h2(5) len by (simp add: last_drop last_conv_nth)
    finally have "last (th_c h2) = ?c ! 0" .
    moreover have "heap_ordered (th_c h2) m" using h2(7) heap_ordered_cut [OF ord len] False by simp
    moreover have "dom (th_fds h2) = dom ?f" using h2(4) in_dom [of m] len False by (auto simp: insert_absorb)
    ultimately show ?thesis using h2 l2 ms by (auto simp: same_shape_def)
  qed
qed

lemma pop_ok:
  assumes inv: "theap_inv h" and top: "top_heap h = Inr t"
  shows "\<exists>h'. pop h = Inr h' \<and> theap_inv h' \<and> th_abs h' = (th_abs h)(tm_fd t := None) \<and>
     th_n h = Suc (th_n h')"
proof -
  let ?c = "th_c h"
  from top inv obtain m where m: "th_n h = Suc m" "t = ?c ! 0" "length ?c = Suc m"
    by (cases "th_n h") (auto simp: top_heap_def at_def theap_inv_def split: if_splits)
  from del_start [OF inv m(1)] obtain h2 where
    h2: "down_or_up (h\<lparr>th_c := ?c[0 := ?c ! m, m := ?c ! 0], th_n := m\<rparr>) 0 = Inr h2"
      "mset (th_c h2) = mset ?c" "length (th_c h2) = Suc m" "last (th_c h2) = ?c ! 0"
      "idx_ok (th_c h2) m (th_fds h2)" "dom (th_fds h2) = dom (th_fds h)"
      "heap_ordered (th_c h2) m" "th_n h2 = m" by blast
  let ?h = "h2\<lparr>th_fds := (th_fds h2)(tm_fd (last (th_c h2)) := None), th_c := butlast (th_c h2)\<rparr>"
  have run: "pop h = Inr ?h" using m h2(1) by (simp add: pop_def del_def Let_def)
  have dist: "distinct (map tm_fd (th_c h2))"
    using theap_inv_distinct [OF inv] h2(2) by (metis mset_eq_imp_distinct_iff mset_map)
  have "set (th_c h2) = set ?c" using h2(2) by (rule mset_eq_setD)
  then have "theap_inv \<lparr>th_c = butlast (th_c h2), th_n = m, th_fds = (th_fds h2)(tm_fd (last (th_c h2)) := None)\<rparr>"
    using h2 inv m by (intro del_finish dist) (auto simp: theap_inv_def)
  moreover have "?h = \<lparr>th_c = butlast (th_c h2), th_n = m, th_fds = (th_fds h2)(tm_fd (last (th_c h2)) := None)\<rparr>"
    using h2(8) by (cases h2) simp
  ultimately have "theap_inv ?h" by metis
  moreover have "th_c h2 = butlast (th_c h2) @ [?c ! 0]" using h2(3,4) by (metis append_butlast_last_id length_0_conv nat.distinct(1))
  then have "th_abs ?h = (timer_map (th_c h2))(tm_fd t := None)"
    using timer_map_remove [of "butlast (th_c h2)" "?c ! 0"] dist m(2) by (simp add: th_abs_def)
  moreover have "timer_map (th_c h2) = th_abs h"
    unfolding th_abs_def by (rule timer_map_mset [OF theap_inv_distinct [OF inv] h2(2)])
  ultimately show ?thesis using run m(1) h2(8) by simp
qed


lemma adjust_absent: "theap_inv h \<Longrightarrow> th_abs h (tm_fd t) = None \<Longrightarrow> adjust h t = Inr h"
  using theap_inv_lookup(1) [of h "tm_fd t"] by (simp add: adjust_def)

lemma adjust_ok:
  assumes inv: "theap_inv h" and old: "th_abs h (tm_fd t) = Some (ts, cb)" and later: "ts \<le> tm_ts t"
  shows "\<exists>h'. adjust h t = Inr h' \<and> theap_inv h' \<and> th_abs h' = (th_abs h)(tm_fd t \<mapsto> (tm_ts t, cb))"
proof -
  from theap_inv_lookup(1) [OF inv] old obtain ix where ix: "th_fds h (tm_fd t) = Some ix" by fastforce
  let ?i = "to_size ix" and ?n = "length (th_c h)"
  let ?t = "(th_c h ! ?i)\<lparr>tm_ts := tm_ts t\<rparr>"
  let ?h = "h\<lparr>th_c := (th_c h)[?i := ?t]\<rparr>"
  from theap_inv_lookup(2) [OF inv ix] have i: "?i < ?n" "tm_fd (th_c h ! ?i) = tm_fd t" by auto
  from inv have n: "th_n h = ?n" "?n \<le> 2147483648" "heap_ordered (th_c h) ?n"
      "idx_ok (th_c h) ?n (th_fds h)" "dom (th_fds h) = tm_fd ` set (th_c h)"
    by (auto simp: theap_inv_def)
  have dist: "distinct (map tm_fd (th_c h))" using inv by (rule theap_inv_distinct)
  have "th_abs h (tm_fd t) = Some (tm_ts (th_c h ! ?i), tm_cb (th_c h ! ?i))"
    unfolding th_abs_def using i by (subst timer_map_eq_Some [OF dist]) auto
  with old have o: "tm_ts (th_c h ! ?i) = ts" "tm_cb (th_c h ! ?i) = cb" by auto
  have fds: "map tm_fd (th_c ?h) = map tm_fd (th_c h)"
    using i by (intro nth_equalityI) (auto simp: nth_list_update)
  have fd_at: "tm_fd (th_c ?h ! j) = tm_fd (th_c h ! j)" if "j < ?n" for j
    using that i by (cases "j = ?i") simp_all
  have "th_fds h (tm_fd t) = Some (int ?i)" using n(4) i by (auto simp: idx_ok_def)
  then have v: "vst ?h ?i (th_c ?h ! ?i) = (th_c ?h, th_fds h)" using i by (simp add: vst_def fun_upd_idem)
  have idx: "idx_ok (th_c ?h) ?n (th_fds h)" using n(4) fd_at by (simp add: idx_ok_def)
  obtain h' where h': "downAdjust ?h ?i = Inr (False, h')"
      "swaps ?n (th_c ?h, th_fds h) (th_c h', th_fds h')" "same_shape ?h h'"
      "down_inv (th_c ?h) ?n ?i \<longrightarrow> heap_ordered (th_c h') ?n"
    using downAdjust_ok [of ?i ?h, OF _ _ refl] i n v by (auto simp: th_wf_def)
  from swaps_keep [OF h'(2) idx] have k: "idx_ok (th_c h') ?n (th_fds h')"
      "mset (th_c h') = mset (th_c ?h)" "dom (th_fds h') = dom (th_fds h)" by auto
  have "tm_fd ` set (th_c h') = tm_fd ` set (th_c h)"
    using k(2) fds by (metis image_set mset_eq_setD)
  moreover have "heap_ordered (th_c h') ?n"
    using h'(4) heap_ordered_down [OF n(3) i(1), of ?t] o(1) later by simp
  ultimately have "theap_inv h'"
    using h'(3) k n by (intro theap_invI) (auto simp: same_shape_def)
  moreover have "timer_map (th_c h') = timer_map (th_c ?h)" using k(2) dist fds by (intro timer_map_mset) auto
  then have "th_abs h' = (th_abs h)(tm_fd t \<mapsto> (tm_ts t, cb))"
    using timer_map_update [OF dist i(1), of ?t] i(2) o(2) by (simp add: th_abs_def)
  moreover have "adjust h t = Inr h'" using ix i h'(1) by (simp add: adjust_def set_at_def)
  ultimately show ?thesis by blast
qed

section \<open>The interface: a queue of deadlines\<close>

locale timer_queue =
  fixes invar :: "'q \<Rightarrow> bool"
    and abs :: "'q \<Rightarrow> (int \<rightharpoonup> timestamp \<times> 'cb option)"
    and room :: "'q \<Rightarrow> bool"
    and emptyq :: "'q \<Rightarrow> bool"
    and insertq :: "'q \<Rightarrow> 'cb timer \<Rightarrow> 'q res"
    and first :: "'q \<Rightarrow> 'cb timer res"
    and dropq :: "'q \<Rightarrow> 'q res"
  assumes finite_abs: "\<And>q. finite (dom (abs q))"
    and empty_law: "\<And>q. invar q \<Longrightarrow> emptyq q \<longleftrightarrow> abs q = Map.empty"
    and insert_law: "\<And>q t. invar q \<Longrightarrow> room q \<Longrightarrow>
      \<exists>q'. insertq q t = Inr q' \<and> invar q' \<and> abs q' = (abs q)(tm_fd t \<mapsto> (tm_ts t, tm_cb t))"
    and first_law: "\<And>q. invar q \<Longrightarrow> \<not> emptyq q \<Longrightarrow>
      \<exists>t. first q = Inr t \<and> abs q (tm_fd t) = Some (tm_ts t, tm_cb t) \<and>
        (\<forall>k ts cb. abs q k = Some (ts, cb) \<longrightarrow> tm_ts t \<le> ts)"
    and drop_law: "\<And>q t. invar q \<Longrightarrow> first q = Inr t \<Longrightarrow>
      \<exists>q'. dropq q = Inr q' \<and> invar q' \<and> abs q' = (abs q)(tm_fd t := None)"
begin

text \<open>Taking the timers that are due at \<open>now\<close>, one by one.\<close>

inductive drains :: "timestamp \<Rightarrow> 'q \<Rightarrow> 'cb timer list \<Rightarrow> 'q \<Rightarrow> bool" where
  drains_empty: "emptyq q \<Longrightarrow> drains now q [] q"
| drains_later: "\<not> emptyq q \<Longrightarrow> first q = Inr t \<Longrightarrow> now < tm_ts t \<Longrightarrow> drains now q [] q"
| drains_fire: "\<not> emptyq q \<Longrightarrow> first q = Inr t \<Longrightarrow> tm_ts t \<le> now \<Longrightarrow> dropq q = Inr q1 \<Longrightarrow>
    drains now q1 ts q' \<Longrightarrow> drains now q (t # ts) q'"

definition due :: "timestamp \<Rightarrow> 'q \<Rightarrow> int set" where
  "due now q = {k. \<exists>ts cb. abs q k = Some (ts, cb) \<and> ts \<le> now}"

lemma due_none:
  assumes "invar q" "\<not> emptyq q" "first q = Inr t" "now < tm_ts t"
  shows "due now q = {}"
proof -
  from first_law [OF assms(1,2)] assms(3) have "\<forall>k ts cb. abs q k = Some (ts, cb) \<longrightarrow> tm_ts t \<le> ts" by auto
  with assms(4) show ?thesis by (force simp: due_def)
qed

lemma due_fire:
  assumes "abs q (tm_fd t) = Some (tm_ts t, tm_cb t)" "tm_ts t \<le> now" "abs q' = (abs q)(tm_fd t := None)"
  shows "due now q = insert (tm_fd t) (due now q')" "tm_fd t \<notin> due now q'"
  using assms by (auto simp: due_def split: if_splits)

lemma drains_spec:
  assumes "drains now q fired q'" and "invar q"
  shows "invar q' \<and> abs q' = (abs q) |` (- due now q) \<and> tm_fd ` set fired = due now q \<and>
     distinct (map tm_fd fired) \<and> sorted (map tm_ts fired) \<and>
     (\<forall>t \<in> set fired. abs q (tm_fd t) = Some (tm_ts t, tm_cb t))"
  using assms
proof (induction rule: drains.induct)
  case (drains_empty q now)
  then show ?case by (auto simp: empty_law due_def)
next
  case (drains_later q t now)
  then have "due now q = {}" using due_none by blast
  with drains_later show ?case by simp
next
  case (drains_fire q t now q1 ts q')
  from first_law [OF drains_fire.prems drains_fire.hyps(1)] drains_fire.hyps(2)
  have t: "abs q (tm_fd t) = Some (tm_ts t, tm_cb t)"
    and least: "\<And>k ts cb. abs q k = Some (ts, cb) \<Longrightarrow> tm_ts t \<le> ts" by auto
  from drop_law [OF drains_fire.prems drains_fire.hyps(2)] drains_fire.hyps(4)
  have q1: "invar q1" "abs q1 = (abs q)(tm_fd t := None)" by auto
  from drains_fire.IH [OF q1(1)] have IH: "invar q'" "abs q' = (abs q1) |` (- due now q1)"
      "tm_fd ` set ts = due now q1" "distinct (map tm_fd ts)" "sorted (map tm_ts ts)"
      "\<forall>t \<in> set ts. abs q1 (tm_fd t) = Some (tm_ts t, tm_cb t)" by auto
  note d = due_fire [OF t drains_fire.hyps(3) q1(2)]
  have in_q: "abs q (tm_fd u) = Some (tm_ts u, tm_cb u)" if "u \<in> set ts" for u
    using IH(6) that q1(2) by (auto split: if_splits)
  have "abs q' = (abs q) |` (- due now q)"
    using IH(2) q1(2) d(1) by (auto simp: fun_eq_iff restrict_map_def)
  moreover have "tm_fd t \<notin> tm_fd ` set ts" using IH(3) d(2) by simp
  ultimately show ?case using IH d(1) t in_q least by fastforce
qed

lemma drains_total: "invar q \<Longrightarrow> \<exists>fired q'. drains now q fired q'"
proof (induction "card (dom (abs q))" arbitrary: q rule: less_induct)
  case less
  show ?case
  proof (cases "emptyq q")
    case True
    then show ?thesis using drains_empty by blast
  next
    case False
    from first_law [OF less.prems False] obtain t where t: "first q = Inr t"
        "abs q (tm_fd t) = Some (tm_ts t, tm_cb t)" by blast
    show ?thesis
    proof (cases "tm_ts t \<le> now")
      case True
      from drop_law [OF less.prems t(1)] obtain q1 where q1: "dropq q = Inr q1" "invar q1"
          "abs q1 = (abs q)(tm_fd t := None)" by blast
      have "dom (abs q1) = dom (abs q) - {tm_fd t}" "tm_fd t \<in> dom (abs q)" using q1(3) t(2) by auto
      then have "card (dom (abs q1)) < card (dom (abs q))"
        using finite_abs [of q] by (metis card_Diff1_less)
      then show ?thesis using less.hyps q1 drains_fire [OF False t(1) True q1(1)] by blast
    next
      case False
      then have "now < tm_ts t" by simp
      then show ?thesis using drains_later [OF \<open>\<not> emptyq q\<close> t(1)] by blast
    qed
  qed
qed

end

lemma empty_heap_iff: "theap_inv h \<Longrightarrow> empty_heap h \<longleftrightarrow> th_abs h = Map.empty"
  by (auto simp: theap_inv_def empty_heap_def th_abs_def timer_map_def)

lemma finite_dom_th_abs: "finite (dom (th_abs h))"
  by (simp add: th_abs_def dom_timer_map)

interpretation tq: timer_queue theap_inv th_abs th_room empty_heap push top_heap pop
proof unfold_locales
  fix h :: "'cb theap" and t
  show "theap_inv h \<Longrightarrow> th_room h \<Longrightarrow>
      \<exists>q'. push h t = Inr q' \<and> theap_inv q' \<and> th_abs q' = (th_abs h)(tm_fd t \<mapsto> (tm_ts t, tm_cb t))"
    by (rule push_ok)
  show "theap_inv h \<Longrightarrow> \<not> empty_heap h \<Longrightarrow>
      \<exists>t. top_heap h = Inr t \<and> th_abs h (tm_fd t) = Some (tm_ts t, tm_cb t) \<and>
        (\<forall>k ts cb. th_abs h k = Some (ts, cb) \<longrightarrow> tm_ts t \<le> ts)"
    using top_ok [of h] unfolding empty_heap_def by blast
  show "theap_inv h \<Longrightarrow> top_heap h = Inr t \<Longrightarrow>
      \<exists>q'. pop h = Inr q' \<and> theap_inv q' \<and> th_abs q' = (th_abs h)(tm_fd t := None)"
    using pop_ok by blast
qed (simp_all add: empty_heap_iff finite_dom_th_abs)


section \<open>Properties\<close>

text \<open>
  C11. On a well-formed heap with room for one more position, \<open>push\<close> never leaves the vector,
  keeps the heap well formed, and the heap then holds exactly the old timers with the pushed one
  stored under its descriptor: a new entry, or the replacement of deadline and callback of the
  existing one, whichever way the deadline moved.
\<close>

theorem push_refines_map_update:
  assumes "theap_inv h" and "th_room h"
  shows "\<exists>h'. push h t = Inr h' \<and> theap_inv h' \<and> th_abs h' = (th_abs h)(tm_fd t \<mapsto> (tm_ts t, tm_cb t))"
  by (rule tq.insert_law [OF assms])

theorem push_refines_map_update_witness:
  "\<exists>h'. push theap_new \<lparr>tm_fd = 7, tm_ts = TimeStamp 9, tm_cb = Some ()\<rparr> = Inr h' \<and> theap_inv h' \<and>
     th_abs h' = (th_abs (theap_new :: unit theap))(7 \<mapsto> (TimeStamp 9, Some ()))"
proof -
  have r: "th_room (theap_new :: unit theap)" by (simp add: th_room_def theap_new_def)
  show ?thesis
    using push_refines_map_update [OF theap_inv_new r, of "\<lparr>tm_fd = 7, tm_ts = TimeStamp 9, tm_cb = Some ()\<rparr>"]
    by simp
qed

text \<open>
  C12. On a well-formed non-empty heap, \<open>top\<close> returns a stored timer of least deadline, and
  \<open>pop\<close> removes exactly that timer and keeps the heap well formed.
\<close>

theorem top_pop_remove_least:
  assumes "theap_inv h" and "\<not> empty_heap h"
  shows "\<exists>t h'. top_heap h = Inr t \<and> th_abs h (tm_fd t) = Some (tm_ts t, tm_cb t) \<and>
     (\<forall>k ts cb. th_abs h k = Some (ts, cb) \<longrightarrow> tm_ts t \<le> ts) \<and>
     pop h = Inr h' \<and> theap_inv h' \<and> th_abs h' = (th_abs h)(tm_fd t := None)"
  using tq.first_law [OF assms] tq.drop_law [OF assms(1)] by blast

definition two_timers :: "unit theap" where
  "two_timers = \<lparr>th_c = [\<lparr>tm_fd = 4, tm_ts = TimeStamp 10, tm_cb = Some ()\<rparr>,
                         \<lparr>tm_fd = 5, tm_ts = TimeStamp 20, tm_cb = Some ()\<rparr>],
                 th_n = 2, th_fds = [4 \<mapsto> 0, 5 \<mapsto> 1]\<rparr>"

lemma below_two: "(i :: nat) < 2 \<longleftrightarrow> i = 0 \<or> i = 1"
  by auto

lemma two_timers_inv: "theap_inv two_timers"
  by (auto simp: theap_inv_def two_timers_def idx_ok_def heap_ordered_def below_two
      ts_le_def par_def)

theorem top_pop_remove_least_witness:
  "\<exists>t h'. top_heap two_timers = Inr t \<and> th_abs two_timers (tm_fd t) = Some (tm_ts t, tm_cb t) \<and>
     (\<forall>k ts cb. th_abs two_timers k = Some (ts, cb) \<longrightarrow> tm_ts t \<le> ts) \<and>
     pop two_timers = Inr h' \<and> theap_inv h' \<and> th_abs h' = (th_abs two_timers)(tm_fd t := None)"
proof -
  have "\<not> empty_heap two_timers" by (simp add: empty_heap_def two_timers_def)
  then show ?thesis using top_pop_remove_least [OF two_timers_inv] by blast
qed

text \<open>
  \<open>adjust\<close> with a deadline that is not earlier than the stored one replaces the deadline,
  keeps the callback and keeps the heap well formed.
\<close>

theorem adjust_postpones:
  assumes "theap_inv h" and "th_abs h (tm_fd t) = Some (ts, cb)" and "ts \<le> tm_ts t"
  shows "\<exists>h'. adjust h t = Inr h' \<and> theap_inv h' \<and> th_abs h' = (th_abs h)(tm_fd t \<mapsto> (tm_ts t, cb))"
  using assms by (rule adjust_ok)

theorem adjust_postpones_witness:
  "\<exists>h'. adjust two_timers \<lparr>tm_fd = 4, tm_ts = TimeStamp 30, tm_cb = None\<rparr> = Inr h' \<and> theap_inv h' \<and>
     th_abs h' = (th_abs two_timers)(4 \<mapsto> (TimeStamp 30, Some ()))"
proof -
  have old: "th_abs two_timers 4 = Some (TimeStamp 10, Some ())"
    by (simp add: th_abs_def two_timers_def timer_map_def)
  show ?thesis
    using adjust_postpones [OF two_timers_inv, of "\<lparr>tm_fd = 4, tm_ts = TimeStamp 30, tm_cb = None\<rparr>"] old
    by (simp add: ts_le_def)
qed

text \<open>
  \<open>adjust\<close> only sifts down, so an earlier deadline (the wall clock was set back) breaks the
  heap: in this heap of two timers the second one is due first afterwards, while \<open>top\<close> still
  returns the other.
\<close>

theorem adjust_earlier_breaks_heap:
  "\<exists>h'. adjust two_timers \<lparr>tm_fd = 5, tm_ts = TimeStamp 2, tm_cb = None\<rparr> = Inr h' \<and> \<not> theap_inv h' \<and>
     (\<exists>t. top_heap h' = Inr t \<and> tm_ts t = TimeStamp 10 \<and> th_abs h' 5 = Some (TimeStamp 2, Some ()))"
proof -
  let ?t = "\<lparr>tm_fd = 5, tm_ts = TimeStamp 2, tm_cb = Some ()\<rparr>"
  let ?h = "two_timers\<lparr>th_c := [th_c two_timers ! 0, ?t], th_fds := [4 \<mapsto> 0, 5 \<mapsto> 1]\<rparr>"
  have "adjust two_timers \<lparr>tm_fd = 5, tm_ts = TimeStamp 2, tm_cb = None\<rparr> = Inr ?h"
    by (simp add: adjust_def two_timers_def downAdjust_def set_at_def set_idx_def to_size_def
        down_loop.simps [of _ "Suc 0"] int_range_def)
  moreover have "\<not> heap_ordered (th_c ?h) 2"
    by (auto simp: heap_ordered_def two_timers_def below_two ts_le_def par_def intro!: exI [of _ 1])
  then have "\<not> theap_inv ?h" by (simp add: theap_inv_def two_timers_def)
  moreover have "top_heap ?h = Inr (th_c two_timers ! 0)" "tm_ts (th_c two_timers ! 0) = TimeStamp 10"
    by (simp_all add: top_heap_def two_timers_def)
  moreover have "th_abs ?h 5 = Some (TimeStamp 2, Some ())"
    by (simp add: th_abs_def timer_map_def two_timers_def)
  ultimately show ?thesis by blast
qed

lemma down_loop_grows: "down_loop v i h = Inr (j, h') \<Longrightarrow> i \<le> j"
proof (induction v i h rule: down_loop.induct)
  case (1 v i h)
  show ?case
  proof (cases "th_n h \<le> i * 2 + 1")
    case True
    with "1.prems" show ?thesis by (simp add: down_loop.simps [of v i h])
  next
    case False
    with "1.prems" obtain ch x where ch: "min_child h (i * 2 + 1) = Inr ch" "at (th_c h) ch = Inr x"
      by (auto simp: down_loop.simps [of v i h] res_simps split: if_splits)
    have "i \<le> ch" using min_child_ge [OF ch(1)] by simp
    with "1.prems" False ch "1.IH" [OF False ch] show ?thesis
      by (auto simp: down_loop.simps [of v i h] res_simps split: if_splits)
  qed
qed

text \<open>
  \<open>downAdjust\<close> is documented to report whether it moved the timer; the position only grows,
  so it always reports that it did not, and its callers always sift up as well.
\<close>

theorem downAdjust_never_reports_move: "downAdjust h i \<noteq> Inr (True, h')"
  by (auto simp: downAdjust_def res_simps not_less dest: down_loop_grows)

text \<open>
  \<open>clear\<close> empties the vector and the map but not the counter: a cleared heap that held a timer
  does not report to be empty, and \<open>top\<close> then reads outside the vector.
\<close>

theorem clear_keeps_counter:
  "empty_heap (clear_heap h) = empty_heap h \<and>
   top_heap (clear_heap h) = (if empty_heap h then Inl StdException else Inl OutOfBounds)"
  by (simp add: clear_heap_def empty_heap_def top_heap_def at_def)

end
