(* ===== verification/TimerQueue.thy ===== *)
theory TimerQueue
  imports TimerHeap
begin

text \<open>
  \<open>soc/net/src/TimerQueue.cc\<close>: the timer heap behind a \<open>timerfd\<close>. \<open>runOnce\<close> and
  \<open>runEvery\<close> compute the argument of \<open>timerfd_settime\<close>; \<open>handleTimeout\<close> runs and removes
  the expired timers. The clocks are arguments. A callback acts on the state \<open>'s\<close> of its
  owner (the connections, the sessions), which does not include the heap: neither
  \<open>TcpServer::handleConnectionClose\<close> nor \<open>HttpServer::handleSessionTimeout\<close> touches it.
\<close>

section \<open>Programming the timer\<close>

record timespec =
  tv_sec :: int
  tv_nsec :: int

record itimerspec =
  it_value :: timespec
  it_interval :: timespec

definition to_long :: "64 word \<Rightarrow> int" where
  "to_long w = sint w"

definition split_time :: "timestamp \<Rightarrow> 64 word \<times> 64 word" where
  \<comment> \<open>the locals \<open>second\<close> and \<open>nanosecond\<close>\<close>
  "split_time t = (ts_second t, (microsecond t - ts_second t * 1000000) * 100)"

definition add_now :: "timespec \<Rightarrow> 64 word \<Rightarrow> 64 word \<Rightarrow> timespec" where
  "add_now now second nanosecond =
     \<lparr>tv_sec = to_long (word_of_int (tv_sec now) + second),
      tv_nsec = to_long (word_of_int (tv_nsec now) + nanosecond)\<rparr>"

definition runOnce :: "timespec \<Rightarrow> timestamp \<Rightarrow> itimerspec" where
  "runOnce now t =
     (let (second, nanosecond) = split_time t
      in \<lparr>it_value = add_now now second nanosecond, it_interval = \<lparr>tv_sec = 0, tv_nsec = 0\<rparr>\<rparr>)"

definition runEvery :: "timespec \<Rightarrow> timestamp \<Rightarrow> itimerspec" where
  "runEvery now t =
     (let (second, nanosecond) = split_time t
      in \<lparr>it_value = add_now now second nanosecond,
          it_interval = \<lparr>tv_sec = to_long second, tv_nsec = to_long nanosecond\<rparr>\<rparr>)"

definition settime_accepts :: "itimerspec \<Rightarrow> bool" where
  \<comment> \<open>\<open>timerfd_settime\<close> fails with \<open>EINVAL\<close> unless the nanoseconds are below a second; the result is ignored\<close>
  "settime_accepts it \<longleftrightarrow> 0 \<le> tv_nsec (it_value it) \<and> tv_nsec (it_value it) < 1000000000 \<and>
     0 \<le> tv_nsec (it_interval it) \<and> tv_nsec (it_interval it) < 1000000000"


section \<open>Adding, postponing and running timers\<close>

definition tq_add :: "'cb theap \<Rightarrow> 'cb timer \<Rightarrow> 'cb theap res" where
  "tq_add h timer = push h timer"

definition tq_adjust :: "'cb theap \<Rightarrow> 'cb timer \<Rightarrow> 'cb theap res" where
  "tq_adjust h timer = adjust h timer"

definition getExpiredTimer :: "'cb theap \<Rightarrow> 'cb timer res" where
  "getExpiredTimer h = top_heap h"

definition call :: "('cb \<Rightarrow> 's \<Rightarrow> 's res) \<Rightarrow> 'cb option \<Rightarrow> 's \<Rightarrow> 's res" where
  \<comment> \<open>calling a \<open>std::function\<close>\<close>
  "call run f s = (case f of None \<Rightarrow> Inl BadFunctionCall | Some cb \<Rightarrow> run cb s)"

lemma downAdjust_th_n:
  assumes "downAdjust h i = Inr (m, h')"
  shows "th_n h' = th_n h"
proof -
  have loop: "th_n h' = th_n h" if "down_loop v i h = Inr (j, h')" for v i and h h' :: "'a theap" and j
    using that
  proof (induction v i h rule: down_loop.induct)
    case (1 v i h)
    from "1.prems" consider "h' = h"
      | ch x h1 where "\<not> th_n h \<le> i * 2 + 1" "min_child h (i * 2 + 1) = Inr ch"
          "at (th_c h) ch = Inr x" "\<not> timer_less x v"
          "set_at (set_idx h (tm_fd x) i) i x = Inr h1" "down_loop v ch h1 = Inr (j, h')"
      by (subst (asm) down_loop.simps) (auto simp: res_bind_eq_Inr split: if_splits)
    then show ?case using "1.IH" th_n_set_at by cases fastforce+
  qed
  show ?thesis using assms
    by (auto simp: downAdjust_def set_at_def set_idx_def res_simps split: if_splits dest!: loop)
qed

lemma upAdjust_th_n:
  assumes "upAdjust h i = Inr h'"
  shows "th_n h' = th_n h"
proof -
  have loop: "th_n h' = th_n h" if "up_loop v i h = Inr (j, h')" for v i and h h' :: "'a theap" and j
    using that
  proof (induction v i h rule: up_loop.induct)
    case (1 v i h)
    from "1.prems" consider "h' = h"
      | p h1 where "\<not> i \<le> 0" "at (th_c h) (parent_of i) = Inr p" "\<not> timer_less v p"
          "set_at (set_idx h (tm_fd p) i) i p = Inr h1" "up_loop v (parent_of i) h1 = Inr (j, h')"
      by (subst (asm) up_loop.simps) (auto simp: res_bind_eq_Inr split: if_splits)
    then show ?case using "1.IH" th_n_set_at by cases fastforce+
  qed
  show ?thesis using assms
    by (auto simp: upAdjust_def set_at_def set_idx_def res_simps split: if_splits dest!: loop)
qed

lemma pop_decreases: "pop h = Inr h' \<Longrightarrow> th_n h' < th_n h"
  by (auto simp: pop_def del_def down_or_up_def Let_def res_simps split: if_splits
      dest!: downAdjust_th_n upAdjust_th_n)

function handleTimeout ::
  "('cb \<Rightarrow> 's \<Rightarrow> 's res) \<Rightarrow> timestamp \<Rightarrow> 'cb theap \<Rightarrow> 's \<Rightarrow> ('cb theap \<times> 's) res" where
  "handleTimeout run now h s =
     (if empty_heap h then Inr (h, s)
      else res_bind (top_heap h) (\<lambda>expired.
        if tm_ts expired \<le> now
        then res_bind (call run (tm_cb expired) s) (\<lambda>s'.
             res_bind (pop h) (\<lambda>h'. handleTimeout run now h' s'))
        else Inr (h, s)))"
  by pat_completeness auto
termination
  by (relation "measure (\<lambda>(run, now, h, s). th_n h)") (auto simp: pop_decreases)

declare handleTimeout.simps [simp del]

section \<open>Properties\<close>

lemma handleTimeout_drains:
  assumes "tq.drains now h fired h'" and "theap_inv h"
    and "\<forall>t \<in> set fired. \<exists>cb. tm_cb t = Some cb" and "\<And>cb s. run cb s = Inr (eff cb s)"
  shows "handleTimeout run now h s = Inr (h', fold eff (map (\<lambda>t. the (tm_cb t)) fired) s)"
  using assms(1-3)
proof (induction arbitrary: s rule: tq.drains.induct)
  case (drains_empty q now)
  then show ?case by (simp add: handleTimeout.simps [of run now q])
next
  case (drains_later q t now)
  then have "\<not> tm_ts t \<le> now" by simp
  with drains_later show ?case by (simp add: handleTimeout.simps [of run now q])
next
  case (drains_fire q t now q1 ts q')
  then have "theap_inv q1" using pop_ok by fastforce
  with drains_fire show ?case
    by (auto simp: handleTimeout.simps [of _ now q] call_def assms(4))
qed

lemma handleTimeout_spec:
  fixes h :: "'cb theap"
  assumes inv: "theap_inv h" and cbs: "\<forall>k ts. th_abs h k \<noteq> Some (ts, None)"
    and run: "\<And>cb s. run cb s = Inr (eff cb s)"
  shows "\<exists>(fired :: 'cb timer list) h'. handleTimeout run now h s = Inr (h', fold eff (map (\<lambda>t. the (tm_cb t)) fired) s) \<and>
     theap_inv h' \<and> sorted (map tm_ts fired) \<and> distinct (map tm_fd fired) \<and>
     tm_fd ` set fired = {k. \<exists>ts cb. th_abs h k = Some (ts, cb) \<and> ts \<le> now} \<and>
     (\<forall>t \<in> set fired. th_abs h (tm_fd t) = Some (tm_ts t, tm_cb t)) \<and>
     th_abs h' = (\<lambda>k. case th_abs h k of Some (ts, cb) \<Rightarrow> if ts \<le> now then None else Some (ts, cb) | None \<Rightarrow> None)"
proof -
  from tq.drains_total [OF inv] obtain fired h' where d: "tq.drains now h fired h'" by blast
  note spec = tq.drains_spec [OF d inv]
  have "\<exists>cb. tm_cb t = Some cb" if "t \<in> set fired" for t
    using spec that cbs by (metis not_Some_eq)
  then have "handleTimeout run now h s = Inr (h', fold eff (map (\<lambda>t. the (tm_cb t)) fired) s)"
    by (intro handleTimeout_drains [OF d inv _ run]) blast
  moreover have "th_abs h' = (\<lambda>k. case th_abs h k of
      Some (ts, cb) \<Rightarrow> if ts \<le> now then None else Some (ts, cb) | None \<Rightarrow> None)"
    using spec by (auto simp: tq.due_def restrict_map_def fun_eq_iff split: option.splits)
  ultimately show ?thesis using spec unfolding tq.due_def by blast
qed

text \<open>
  C10. \<open>handleTimeout\<close> terminates; it runs the callbacks of exactly the timers whose deadline is
  not after \<open>now\<close>, once each and in the order of their deadlines, and leaves exactly the other
  timers in a well-formed heap. The callbacks may have any effect \<open>eff\<close> on their owner's state;
  every stored timer has a callback, as all the timers the server adds do.
\<close>

theorem handleTimeout_runs_due_timers:
  fixes h :: "'cb theap"
  assumes inv: "theap_inv h" and cbs: "\<forall>k ts. th_abs h k \<noteq> Some (ts, None)"
    and run: "\<And>cb s. run cb s = Inr (eff cb s)"
  shows "\<exists>(fired :: 'cb timer list) h'. handleTimeout run now h s = Inr (h', fold eff (map (\<lambda>t. the (tm_cb t)) fired) s) \<and>
     theap_inv h' \<and> sorted (map tm_ts fired) \<and> distinct (map tm_fd fired) \<and>
     tm_fd ` set fired = {k. \<exists>ts cb. th_abs h k = Some (ts, cb) \<and> ts \<le> now} \<and>
     (\<forall>t \<in> set fired. th_abs h (tm_fd t) = Some (tm_ts t, tm_cb t)) \<and>
     th_abs h' = (\<lambda>k. case th_abs h k of Some (ts, cb) \<Rightarrow> if ts \<le> now then None else Some (ts, cb) | None \<Rightarrow> None)"
  using assms by (rule handleTimeout_spec)

theorem handleTimeout_runs_due_timers_witness:
  "\<exists>(fired :: unit timer list) h'. handleTimeout (\<lambda>_ n. Inr (Suc n)) (TimeStamp 15) two_timers 0 =
       Inr (h', fold (\<lambda>_ n. Suc n) (map (\<lambda>t. the (tm_cb t)) fired) 0) \<and>
     theap_inv h' \<and> sorted (map tm_ts fired) \<and> distinct (map tm_fd fired) \<and>
     tm_fd ` set fired = {k. \<exists>ts cb. th_abs two_timers k = Some (ts, cb) \<and> ts \<le> TimeStamp 15} \<and>
     (\<forall>t \<in> set fired. th_abs two_timers (tm_fd t) = Some (tm_ts t, tm_cb t)) \<and>
     th_abs h' = (\<lambda>k. case th_abs two_timers k of
        Some (ts, cb) \<Rightarrow> if ts \<le> TimeStamp 15 then None else Some (ts, cb) | None \<Rightarrow> None)"
proof -
  have "\<forall>k ts. th_abs two_timers k \<noteq> Some (ts, None)"
    by (simp add: th_abs_def timer_map_def two_timers_def)
  then show ?thesis
    by (rule handleTimeout_runs_due_timers [OF two_timers_inv]) simp
qed

lemma uint_split_time:
  fixes t :: timestamp
  defines "us \<equiv> uint (microsecond t)"
  shows "uint (fst (split_time t)) = us div 1000000"
    and "uint (snd (split_time t)) = us mod 1000000 * 100"
proof -
  have us: "0 \<le> us" "us < 18446744073709551616" unfolding us_def using uint_lt2p [of "microsecond t"] by simp_all
  have q: "uint (microsecond t div 1000000) = us div 1000000" by (simp add: us_def uint_div)
  then show "uint (fst (split_time t)) = us div 1000000" by (simp add: split_time_def ts_second_def)
  have "us div 1000000 * 1000000 \<le> us" by simp
  then have p: "uint (microsecond t div 1000000 * 1000000) = us div 1000000 * 1000000"
    using us q by (simp add: uint_mult_lem [THEN iffD1])
  have d: "uint (microsecond t - microsecond t div 1000000 * 1000000) = us - us div 1000000 * 1000000"
    using p us by (simp add: uint_word_ariths us_def [symmetric])
  have m: "us - us div 1000000 * 1000000 = us mod 1000000" by (simp add: minus_div_mult_eq_mod)
  have times: "uint (w * 100) = uint w * 100" if "uint w < 1000000" for w :: "64 word"
    using that by (simp add: uint_word_ariths)
  have "us mod 1000000 < 1000000" by simp
  with times [of "microsecond t - microsecond t div 1000000 * 1000000"]
  show "uint (snd (split_time t)) = us mod 1000000 * 100"
    by (simp only: split_time_def ts_second_def snd_conv d m)
qed


lemma to_long_small: "uint w < 9223372036854775808 \<Longrightarrow> to_long w = uint w"
  unfolding to_long_def sint_uint
  by (rule signed_take_bit_int_eq_self) (simp_all add: order_trans [OF _ uint_ge_0])

lemma runEvery_interval:
  "it_interval (runEvery now t) =
     \<lparr>tv_sec = uint (microsecond t) div 1000000, tv_nsec = uint (microsecond t) mod 1000000 * 100\<rparr>"
proof -
  have "uint (microsecond t) < 18446744073709551616" using uint_lt2p [of "microsecond t"] by simp
  then have "uint (microsecond t) div 1000000 < 9223372036854775808" by simp
  moreover have "uint (microsecond t) mod 1000000 * 100 < 9223372036854775808"
  proof -
    have "uint (microsecond t) mod 1000000 < 1000000" by simp
    then show ?thesis by linarith
  qed
  ultimately show ?thesis
    using uint_split_time [of t] by (simp add: runEvery_def case_prod_beta to_long_small)
qed

text \<open>
  The period that \<open>runEvery\<close> programs is the requested time exactly when that time is a whole
  number of seconds: the sub-second part, in microseconds, is multiplied by 100 instead of 1000, so
  it lasts a tenth of what was asked for.
\<close>

theorem runEvery_period_exact_iff:
  "tv_sec (it_interval (runEvery now t)) * 1000000000 + tv_nsec (it_interval (runEvery now t)) =
     uint (microsecond t) * 1000 \<longleftrightarrow> uint (microsecond t) mod 1000000 = 0"
proof -
  let ?u = "uint (microsecond t)"
  have "?u div 1000000 * 1000000 + ?u mod 1000000 = ?u" by simp
  then show ?thesis by (simp only: runEvery_interval timespec.simps) linarith
qed

text \<open>
  The nanoseconds of the clock and of the period are added without a carry, so a period that is not a whole
  number of seconds is refused, and the timer never runs, when the clock is near the end of a second.
\<close>

lemma runEvery_accepted_iff:
  assumes "0 \<le> tv_nsec now" and "tv_nsec now < 1000000000"
  shows "settime_accepts (runEvery now t) \<longleftrightarrow> tv_nsec now + uint (microsecond t) mod 1000000 * 100 < 1000000000"
proof -
  let ?w = "word_of_int (tv_nsec now) :: 64 word" and ?n = "snd (split_time t)"
  have r: "0 \<le> uint ?n" "uint ?n < 100000000"
    using uint_split_time(2) [of t] pos_mod_bound [of 1000000 "uint (microsecond t)"] by auto
  have w: "uint ?w = tv_nsec now" using assms by (simp add: uint_word_of_int_eq take_bit_int_eq_self)
  have "uint (?w + ?n) = uint ?w + uint ?n" using assms w r by (simp add: uint_plus_simple_iff uint_add_lem [THEN iffD1])
  then have "to_long (?w + ?n) = tv_nsec now + uint (microsecond t) mod 1000000 * 100"
    using assms w r uint_split_time(2) [of t] by (simp add: to_long_small)
  moreover have "it_value (runEvery now t) = add_now now (fst (split_time t)) ?n" by (simp add: runEvery_def split_beta)
  moreover have "tv_nsec (it_interval (runEvery now t)) = uint (microsecond t) mod 1000000 * 100" by (simp add: runEvery_interval)
  ultimately show ?thesis using assms r uint_split_time(2) [of t] by (simp add: settime_accepts_def add_now_def) linarith
qed

lemma runEvery_whole_seconds_accepted:
  "0 \<le> tv_nsec now \<Longrightarrow> tv_nsec now < 1000000000 \<Longrightarrow> uint (microsecond t) mod 1000000 = 0 \<Longrightarrow> settime_accepts (runEvery now t)"
  by (simp add: runEvery_accepted_iff)

lemma runEvery_refused:
  "\<not> settime_accepts (runEvery \<lparr>tv_sec = 0, tv_nsec = 960000000\<rparr> (TimeStamp 1500000))"
  by (simp add: runEvery_accepted_iff)

end
