(* ===== verification/HttpSession.thy ===== *)
theory HttpSession
  imports HttpRequest TimerQueue
begin

text \<open>
  \<open>soc/http/include/HttpSession.h\<close> and the session part of \<open>soc/http/src/HttpServer.cc\<close>
  (\<open>createSession\<close>, \<open>associateSession\<close>, \<open>handleSessionTimeout\<close>): the sessions of the
  server and the timers that end them. A timer is keyed by the hash of the session's id; its callback is
  the id. The clock, the lifetime from the configuration and the random characters are arguments.
\<close>

section \<open>State\<close>

datatype session_status = New | Accessed | Destroy

record 'v session =
  se_id :: string
  se_interval :: int
  se_status :: session_status
  se_values :: "(string, 'v) httpmap"

definition HttpSession_new :: "string \<Rightarrow> int \<Rightarrow> 'v session" where
  "HttpSession_new sid interval = \<lparr>se_id = sid, se_interval = interval, se_status = New, se_values = hm_new\<rparr>"

definition isNew :: "'v session \<Rightarrow> bool" where
  "isNew s \<longleftrightarrow> se_status s = New"

definition isAccessed :: "'v session \<Rightarrow> bool" where
  "isAccessed s \<longleftrightarrow> se_status s = Accessed"

definition isDestroy :: "'v session \<Rightarrow> bool" where
  "isDestroy s \<longleftrightarrow> se_status s = Destroy"

definition invalidate :: "'v session \<Rightarrow> 'v session" where
  "invalidate s = s\<lparr>se_status := Destroy\<rparr>"

definition setStatus :: "session_status \<Rightarrow> 'v session \<Rightarrow> 'v session" where
  "setStatus st s = s\<lparr>se_status := st\<rparr>"

definition setValue :: "string \<Rightarrow> 'v \<Rightarrow> 'v session \<Rightarrow> 'v session" where
  "setValue key value s = s\<lparr>se_values := hm_add (se_values s) key value\<rparr>"

definition getValue :: "('v \<Rightarrow> 'w option) \<Rightarrow> string \<Rightarrow> 'v session \<Rightarrow> 'w option" where
  \<comment> \<open>\<open>any_cast\<close> is the first argument: \<open>None\<close> for a value of another type\<close>
  "getValue any_cast key s = (case se_values s key of None \<Rightarrow> None | Some v \<Rightarrow> any_cast v)"

record 'v store =
  st_sessions :: "(string, 'v session) httpmap"
  st_timer :: "string theap option"         \<comment> \<open>\<open>session_timer_\<close>; \<open>None\<close>: \<open>nullptr\<close>\<close>


section \<open>Operations\<close>

definition session_key :: "string \<Rightarrow> int" where
  \<comment> \<open>the hash, an \<open>unsigned int\<close>, as the \<open>int\<close> of a \<open>Timer\<close>\<close>
  "session_key sid = to_int (uint (murmurHash2 sid))"

definition session_name :: "string \<Rightarrow> string" where
  \<comment> \<open>\<open>snprintf(session_id, 27, "SESSIONID_%s", id)\<close>: \<open>id\<close> is what is read from the array,
      which has no terminating NUL\<close>
  "session_name sid = take 26 (''SESSIONID_'' @ c_str sid)"

definition createSession :: "string \<Rightarrow> int \<Rightarrow> 'v store \<Rightarrow> 'v session \<times> 'v store" where
  "createSession rnd lifetime st =
     (let s = HttpSession_new (session_name rnd) lifetime
      in (s, st\<lparr>st_sessions := hm_add (st_sessions st) (session_name rnd) s\<rparr>))"

definition createSessionTimer :: "timestamp \<Rightarrow> 'v store \<Rightarrow> 'v store" where
  \<comment> \<open>\<open>TcpServer::createSessionTimer\<close>, without the registration of the descriptor\<close>
  "createSessionTimer ts st = (case st_timer st of None \<Rightarrow> st\<lparr>st_timer := Some theap_new\<rparr> | Some _ \<Rightarrow> st)"

definition timer_do :: "('a \<Rightarrow> 'a res) \<Rightarrow> 'a option \<Rightarrow> 'a option res" where
  \<comment> \<open>a call through \<open>getSessionTimer()\<close>\<close>
  "timer_do f t = (case t of None \<Rightarrow> Inl NullPointer | Some h \<Rightarrow> res_map Some (f h))"

definition accessSession :: "timestamp \<Rightarrow> 'v session \<Rightarrow> 'v store \<Rightarrow> ('v session \<times> 'v store) res" where
  "accessSession now s st =
     (let s = setStatus Accessed s;
          st = st\<lparr>st_sessions := hm_add (st_sessions st) (se_id s) s\<rparr>
      in res_bind (nowSecond now (se_interval s)) (\<lambda>ts.
         res_map (\<lambda>t. (s, st\<lparr>st_timer := t\<rparr>))
           (timer_do (\<lambda>h. tq_adjust h \<lparr>tm_fd = session_key (se_id s), tm_ts = ts, tm_cb = None\<rparr>) (st_timer st))))"

definition newSession :: "string \<Rightarrow> int \<Rightarrow> timestamp \<Rightarrow> 'v store \<Rightarrow> ('v session \<times> 'v store) res" where
  "newSession rnd lifetime now st =
     (let (s, st) = createSession rnd lifetime st
      in res_bind (of_second (se_interval s)) (\<lambda>period.
         let st = createSessionTimer period st
         in res_bind (nowSecond now (se_interval s)) (\<lambda>ts.
            res_map (\<lambda>t. (s, st\<lparr>st_timer := t\<rparr>))
              (timer_do (\<lambda>h. tq_add h \<lparr>tm_fd = session_key (se_id s), tm_ts = ts, tm_cb = Some (se_id s)\<rparr>) (st_timer st)))))"

definition associateSession ::
  "string \<Rightarrow> int \<Rightarrow> timestamp \<Rightarrow> (string, string) httpmap \<Rightarrow> 'v store \<Rightarrow> ('v session \<times> 'v store) res" where
  "associateSession rnd lifetime now cookies st =
     (case hm_get cookies ''SESSIONID'' of
        Some x \<Rightarrow>
          (case hm_get (st_sessions st) x of
             Some s \<Rightarrow> if \<not> isDestroy s then accessSession now s st else newSession rnd lifetime now st
           | None \<Rightarrow> newSession rnd lifetime now st)
      | None \<Rightarrow> newSession rnd lifetime now st)"

definition handleSessionTimeout :: "string \<Rightarrow> (string, 'v session) httpmap \<Rightarrow> (string, 'v session) httpmap res" where
  \<comment> \<open>the session's id was taken from the session the timer was created for\<close>
  "handleSessionTimeout sid sessions = Inr (hm_remove sessions sid)"

definition session_timeout :: "timestamp \<Rightarrow> 'v store \<Rightarrow> 'v store res" where
  \<comment> \<open>\<open>session_timer_->handleTimeout()\<close>\<close>
  "session_timeout now st =
     (case st_timer st of None \<Rightarrow> Inr st
      | Some h \<Rightarrow> res_map (\<lambda>(h, sessions). st\<lparr>st_timer := Some h, st_sessions := sessions\<rparr>)
          (handleTimeout handleSessionTimeout now h (st_sessions st)))"


section \<open>Invariant\<close>

text \<open>
  Every session is stored under its id and has a timer with its id as callback; every timer belongs to a
  stored session. The ids of the stored sessions have different hashes.
\<close>

definition timers :: "'v store \<Rightarrow> int \<rightharpoonup> timestamp \<times> string option" where
  "timers st = (case st_timer st of None \<Rightarrow> Map.empty | Some h \<Rightarrow> th_abs h)"

definition store_inv :: "'v store \<Rightarrow> bool" where
  "store_inv st \<longleftrightarrow>
     (\<forall>h. st_timer st = Some h \<longrightarrow> theap_inv h) \<and>
     (\<forall>sid s. st_sessions st sid = Some s \<longrightarrow> se_id s = sid \<and> (\<exists>ts. timers st (session_key sid) = Some (ts, Some sid))) \<and>
     (\<forall>k ts cb. timers st k = Some (ts, cb) \<longrightarrow> (\<exists>sid. cb = Some sid \<and> k = session_key sid \<and> st_sessions st sid \<noteq> None))"

definition deadline :: "'v store \<Rightarrow> string \<Rightarrow> timestamp option" where
  "deadline st sid = map_option fst (timers st (session_key sid))"


lemma store_inv_session:
  "store_inv st \<Longrightarrow> st_sessions st sid = Some s \<Longrightarrow> se_id s = sid \<and> (\<exists>ts. timers st (session_key sid) = Some (ts, Some sid))"
  unfolding store_inv_def by blast

lemma store_inv_timer:
  "store_inv st \<Longrightarrow> timers st k = Some (ts, cb) \<Longrightarrow> \<exists>sid. cb = Some sid \<and> k = session_key sid \<and> st_sessions st sid \<noteq> None"
  unfolding store_inv_def by blast

lemma fold_remove: "fold (\<lambda>sid m. hm_remove m sid) sids m = (\<lambda>k. if k \<in> set sids then None else m k)"
  by (induction sids arbitrary: m) (auto simp: hm_remove_def fun_eq_iff split: option.splits)

definition expire :: "timestamp \<Rightarrow> 'v store \<Rightarrow> (string, 'v session) httpmap" where
  \<comment> \<open>the sessions whose deadline is still to come\<close>
  "expire now st = (\<lambda>sid. case deadline st sid of Some ts \<Rightarrow> if ts \<le> now then None else st_sessions st sid | None \<Rightarrow> st_sessions st sid)"

lemma session_timeout_spec:
  assumes "store_inv st"
  shows "\<exists>st'. session_timeout now st = Inr st' \<and> store_inv st' \<and> st_sessions st' = expire now st"
proof (cases "st_timer st")
  case None
  then have "deadline st sid = None" for sid by (simp add: deadline_def timers_def)
  with None assms show ?thesis by (simp add: session_timeout_def expire_def)
next
  case (Some h)
  then have t: "timers st = th_abs h" and inv: "theap_inv h" using assms by (simp_all add: timers_def store_inv_def)
  note own = store_inv_timer [OF assms, unfolded t] and has = store_inv_session [OF assms, unfolded t]
  have "\<forall>k ts. th_abs h k \<noteq> Some (ts, None)" using own by blast
  note fire = handleTimeout_spec [OF inv this, where run = handleSessionTimeout and eff = "\<lambda>sid m. hm_remove m sid", OF handleSessionTimeout_def]
  from fire [of now "st_sessions st"] obtain fired :: "string timer list" and h' where f: "handleTimeout handleSessionTimeout now h (st_sessions st) =
      Inr (h', fold (\<lambda>sid m. hm_remove m sid) (map (\<lambda>t. the (tm_cb t)) fired) (st_sessions st))"
    and h': "theap_inv h'" "th_abs h' = (\<lambda>k. case th_abs h k of Some (ts, cb) \<Rightarrow> if ts \<le> now then None else Some (ts, cb) | None \<Rightarrow> None)"
    and due: "tm_fd ` set fired = {k. \<exists>ts cb. th_abs h k = Some (ts, cb) \<and> ts \<le> now}"
      "\<forall>t\<in>set fired. th_abs h (tm_fd t) = Some (tm_ts t, tm_cb t)"
    by blast
  have rem: "(if sid \<in> (\<lambda>t. the (tm_cb t)) ` set fired then None else st_sessions st sid) = expire now st sid" for sid
  proof (cases "st_sessions st sid")
    case None
    then show ?thesis by (auto simp: expire_def split: option.split)
  next
    case (Some s)
    then obtain ts where ts: "th_abs h (session_key sid) = Some (ts, Some sid)" using has by blast
    have "sid \<in> (\<lambda>t. the (tm_cb t)) ` set fired \<longleftrightarrow> ts \<le> now"
    proof
      assume "sid \<in> (\<lambda>t. the (tm_cb t)) ` set fired"
      then obtain u where u: "u \<in> set fired" "sid = the (tm_cb u)" by blast
      with due(2) own have "tm_fd u = session_key sid" by fastforce
      then have "session_key sid \<in> tm_fd ` set fired" using u(1) by force
      then show "ts \<le> now" using ts unfolding due(1) by auto
    next
      assume "ts \<le> now"
      then have "session_key sid \<in> tm_fd ` set fired" using due(1) ts by blast
      then obtain u where u: "u \<in> set fired" "tm_fd u = session_key sid" by force
      then have "Some (tm_ts u, tm_cb u) = Some (ts, Some sid)" using due(2) ts by metis
      then have "sid = the (tm_cb u)" by simp
      then show "sid \<in> (\<lambda>t. the (tm_cb t)) ` set fired" using u(1) by blast
    qed
    then show ?thesis using ts by (simp add: expire_def deadline_def t)
  qed
  let ?st = "st\<lparr>st_timer := Some h', st_sessions := expire now st\<rparr>"
  have "session_timeout now st = Inr ?st" using Some rem by (simp add: session_timeout_def f fold_remove)
  moreover have "store_inv ?st"
  proof -
    have "timers ?st = th_abs h'" by (simp add: timers_def)
    moreover have "se_id s = sid \<and> (\<exists>ts. th_abs h' (session_key sid) = Some (ts, Some sid))" if "expire now st sid = Some s" for sid s
    proof -
      from that have s: "st_sessions st sid = Some s" by (auto simp: expire_def split: option.splits if_splits)
      with has obtain ts where ts: "th_abs h (session_key sid) = Some (ts, Some sid)" "se_id s = sid" by blast
      with that have "\<not> ts \<le> now" by (auto simp: expire_def deadline_def t)
      with ts show ?thesis by (simp add: h'(2))
    qed
    moreover have "\<exists>sid. cb = Some sid \<and> k = session_key sid \<and> expire now st sid \<noteq> None" if "th_abs h' k = Some (ts, cb)" for k ts cb
    proof -
      from that have k: "th_abs h k = Some (ts, cb)" "\<not> ts \<le> now" by (auto simp: h'(2) split: option.splits if_splits)
      with own obtain sid where "cb = Some sid" "k = session_key sid" "st_sessions st sid \<noteq> None" by blast
      with k show ?thesis by (auto simp: expire_def deadline_def t)
    qed
    ultimately show ?thesis using h'(1) by (simp add: store_inv_def)
  qed
  ultimately show ?thesis by auto
qed



definition ttl :: "'v session \<Rightarrow> timestamp" where
  "ttl s = TimeStamp (word_of_int (se_interval s * 1000000))"

definition short_lived :: "int \<Rightarrow> bool" where
  \<comment> \<open>the lifetimes that \<open>TimeStamp::second\<close> can represent\<close>
  "short_lived sec \<longleftrightarrow> 0 \<le> sec \<and> sec \<le> 2147"

definition fresh_id :: "string \<Rightarrow> 'v store \<Rightarrow> bool" where
  "fresh_id sid st \<longleftrightarrow> st_sessions st sid = None \<and> timers st (session_key sid) = None"

definition live :: "(string, string) httpmap \<Rightarrow> 'v store \<Rightarrow> 'v session option" where
  \<comment> \<open>the session the request's cookie names, if it has not been invalidated\<close>
  "live cookies st = Option.bind (cookies ''SESSIONID'') (\<lambda>x.
     Option.bind (st_sessions st x) (\<lambda>s. if isDestroy s then None else Some s))"

lemma nowSecond_short: "short_lived (se_interval s) \<Longrightarrow> nowSecond now (se_interval s) = Inr (ts_plus now (ttl s))"
  by (simp add: nowSecond_def short_lived_def of_second_Inr ttl_def)

lemma store_inv_update:
  assumes inv: "store_inv st" and s: "se_id s = sid"
    and h: "theap_inv h" "th_abs h = (timers st)(session_key sid \<mapsto> (ts, Some sid))"
    and owner: "\<And>sid'. st_sessions st sid' \<noteq> None \<Longrightarrow> session_key sid' = session_key sid \<Longrightarrow> sid' = sid"
  shows "store_inv (st\<lparr>st_sessions := hm_add (st_sessions st) sid s, st_timer := Some h\<rparr>)"
proof -
  let ?st = "st\<lparr>st_sessions := hm_add (st_sessions st) sid s, st_timer := Some h\<rparr>"
  have t: "timers ?st = (timers st)(session_key sid \<mapsto> (ts, Some sid))" using h(2) by (simp add: timers_def)
  have "se_id s' = sid' \<and> (\<exists>ts. timers ?st (session_key sid') = Some (ts, Some sid'))" if "hm_add (st_sessions st) sid s sid' = Some s'" for sid' s'
  proof (cases "sid' = sid")
    case True
    then show ?thesis using that s unfolding t by (simp add: hm_add_def)
  next
    case False
    then have s': "st_sessions st sid' = Some s'" using that by (simp add: hm_add_def)
    then have "session_key sid' \<noteq> session_key sid" using owner False by blast
    then show ?thesis using store_inv_session [OF inv s'] unfolding t by simp
  qed
  moreover have "\<exists>sid'. cb = Some sid' \<and> k = session_key sid' \<and> hm_add (st_sessions st) sid s sid' \<noteq> None" if "timers ?st k = Some (ts', cb)" for k ts' cb
    using that store_inv_timer [OF inv, of k ts' cb] unfolding t by (auto simp: hm_add_def split: if_splits)
  ultimately show ?thesis using h(1) by (simp add: store_inv_def)
qed

lemma session_owner:
  assumes "store_inv st" and "st_sessions st sid \<noteq> None" and "st_sessions st sid' \<noteq> None" and "session_key sid' = session_key sid"
  shows "sid' = sid"
proof -
  from assms(2,3) obtain s s' where "st_sessions st sid = Some s" "st_sessions st sid' = Some s'" by blast
  with store_inv_session [OF assms(1)] obtain ts ts' where
    "timers st (session_key sid) = Some (ts, Some sid)" "timers st (session_key sid') = Some (ts', Some sid')" by blast
  with assms(4) show ?thesis by simp
qed

lemma accessSession_ok:
  assumes inv: "store_inv st" and s: "st_sessions st sid = Some s" and sh: "short_lived (se_interval s)"
    and dl: "\<And>ts. deadline st sid = Some ts \<Longrightarrow> ts \<le> ts_plus now (ttl s)"
  shows "\<exists>st'. accessSession now s st = Inr (setStatus Accessed s, st') \<and> store_inv st' \<and>
     st_sessions st' = (st_sessions st)(sid \<mapsto> setStatus Accessed s) \<and>
     timers st' = (timers st)(session_key sid \<mapsto> (ts_plus now (ttl s), Some sid))"
proof -
  let ?s = "setStatus Accessed s" and ?k = "session_key sid" and ?d = "ts_plus now (ttl s)"
  from store_inv_session [OF inv s] obtain ts where i: "se_id s = sid" and ts: "timers st ?k = Some (ts, Some sid)" by blast
  then obtain h where h: "st_timer st = Some h" "theap_inv h" "timers st = th_abs h"
    using inv by (cases "st_timer st") (auto simp: timers_def store_inv_def)
  have "ts \<le> ?d" using dl ts by (simp add: deadline_def)
  then obtain h' where h': "adjust h \<lparr>tm_fd = ?k, tm_ts = ?d, tm_cb = None\<rparr> = Inr h'" "theap_inv h'" "th_abs h' = (timers st)(?k \<mapsto> (?d, Some sid))"
    using adjust_ok [OF h(2), of "\<lparr>tm_fd = ?k, tm_ts = ?d, tm_cb = None\<rparr>" ts "Some sid"] ts h(3) by auto
  let ?st = "st\<lparr>st_sessions := hm_add (st_sessions st) sid ?s, st_timer := Some h'\<rparr>"
  have "store_inv ?st" using store_inv_update [OF inv _ h'(2,3), of ?s] session_owner [OF inv] s i
    by (simp add: setStatus_def)
  moreover have "nowSecond now (se_interval ?s) = Inr ?d" "se_id ?s = sid" using nowSecond_short [OF sh] i by (simp_all add: setStatus_def)
  ultimately show ?thesis using h(1) h' by (auto simp: accessSession_def Let_def timer_do_def tq_adjust_def hm_add_def timers_def)
qed

lemma newSession_ok:
  fixes st :: "'v store"
  assumes inv: "store_inv st" and fresh: "fresh_id (session_name rnd) st" and sh: "short_lived lifetime"
    and room: "\<And>h. st_timer st = Some h \<Longrightarrow> th_room h"
  defines "s \<equiv> HttpSession_new (session_name rnd) lifetime :: 'v session"
  shows "\<exists>st'. newSession rnd lifetime now st = Inr (s, st') \<and> store_inv st' \<and>
     st_sessions st' = (st_sessions st)(se_id s \<mapsto> s) \<and>
     timers st' = (timers st)(session_key (se_id s) \<mapsto> (ts_plus now (ttl s), Some (se_id s)))"
proof -
  let ?i = "session_name rnd"
  have s: "se_id s = ?i" "se_interval s = lifetime" by (simp_all add: s_def HttpSession_new_def)
  obtain h where h: "st_timer (createSessionTimer p (st\<lparr>st_sessions := m\<rparr>)) = Some h" "theap_inv h" "th_abs h = timers st" "th_room h" for p m
  proof (cases "st_timer st")
    case None
    then show ?thesis by (intro that [of theap_new]) (auto simp: createSessionTimer_def timers_def, simp_all add: th_abs_def theap_new_def timer_map_def th_room_def)
  next
    case (Some h)
    then show ?thesis using inv room by (intro that [of h]) (auto simp: createSessionTimer_def timers_def store_inv_def)
  qed
  have d: "of_second lifetime = Inr (ttl s)" "nowSecond now lifetime = Inr (ts_plus now (ttl s))"
    using nowSecond_short [of s now] sh s by (simp_all add: short_lived_def of_second_Inr ttl_def)
  let ?t = "\<lparr>tm_fd = session_key ?i, tm_ts = ts_plus now (ttl s), tm_cb = Some ?i\<rparr>"
  from push_ok [OF h(2,4), of ?t] h(3) obtain h' where h': "push h ?t = Inr h'" "theap_inv h'"
    "th_abs h' = (timers st)(session_key ?i \<mapsto> (ts_plus now (ttl s), Some ?i))" by auto
  have "store_inv (st\<lparr>st_sessions := hm_add (st_sessions st) ?i s, st_timer := Some h'\<rparr>)"
  proof (rule store_inv_update [OF inv s(1) h'(2,3)])
    fix sid' assume "st_sessions st sid' \<noteq> None" "session_key sid' = session_key ?i"
    then show "sid' = ?i" using store_inv_session [OF inv, of sid'] fresh by (auto simp: fresh_id_def)
  qed
  moreover have "newSession rnd lifetime now st = Inr (s, st\<lparr>st_sessions := hm_add (st_sessions st) ?i s, st_timer := Some h'\<rparr>)"
    using h(1) h'(1) d s
    by (simp add: newSession_def createSession_def s_def [symmetric] Let_def timer_do_def tq_add_def) (simp add: createSessionTimer_def split: option.split)
  ultimately show ?thesis using h'(3) s by (auto simp: hm_add_def timers_def)
qed


definition in_time :: "timestamp \<Rightarrow> 'v store \<Rightarrow> bool" where
  \<comment> \<open>no session's deadline is later than a deadline set now: the clock does not run backwards\<close>
  "in_time now st \<longleftrightarrow> (\<forall>sid s ts. st_sessions st sid = Some s \<longrightarrow> deadline st sid = Some ts \<longrightarrow> ts \<le> ts_plus now (ttl s))"

text \<open>
  C32. A request gets the session its cookie names as long as that session exists and has not been
  invalidated, and a new one otherwise; either way the session is stored, its deadline is the lifetime
  from now, every other session is untouched, and the timers still match the sessions.
\<close>

theorem associateSession_keeps_sessions:
  assumes inv: "store_inv st" and fresh: "fresh_id (session_name rnd) st" and "short_lived lifetime"
    and "\<And>h. st_timer st = Some h \<Longrightarrow> th_room h"
    and "\<And>sid s. st_sessions st sid = Some s \<Longrightarrow> short_lived (se_interval s)" and "in_time now st"
  shows "\<exists>s st'. associateSession rnd lifetime now cookies st = Inr (s, st') \<and> store_inv st' \<and>
     st_sessions st' = (st_sessions st)(se_id s \<mapsto> s) \<and> deadline st' (se_id s) = Some (ts_plus now (ttl s)) \<and>
     (\<forall>sid. sid \<noteq> se_id s \<longrightarrow> st_sessions st sid \<noteq> None \<longrightarrow> deadline st' sid = deadline st sid) \<and>
     (case live cookies st of Some s0 \<Rightarrow> s = s0\<lparr>se_status := Accessed\<rparr> | None \<Rightarrow> s = HttpSession_new (session_name rnd) lifetime)"
proof (cases "live cookies st")
  case None
  then have "associateSession rnd lifetime now cookies st = newSession rnd lifetime now st"
    by (auto simp: associateSession_def live_def hm_get_def split: option.splits bind_splits if_splits)
  moreover obtain st' where st': "newSession rnd lifetime now st = Inr (HttpSession_new (session_name rnd) lifetime, st')" "store_inv st'"
    "st_sessions st' = (st_sessions st)(session_name rnd \<mapsto> HttpSession_new (session_name rnd) lifetime)"
    "timers st' = (timers st)(session_key (session_name rnd) \<mapsto> (ts_plus now (ttl (HttpSession_new (session_name rnd) lifetime :: 'a session)), Some (session_name rnd)))"
    using newSession_ok [OF inv fresh assms(3,4)] by (auto simp: HttpSession_new_def)
  moreover have "session_key sid \<noteq> session_key (session_name rnd)" if "st_sessions st sid \<noteq> None" for sid
    using that fresh store_inv_session [OF inv, of sid] by (auto simp: fresh_id_def)
  ultimately show ?thesis using None by (auto simp: deadline_def HttpSession_new_def)
next
  case (Some s)
  then obtain x where x: "cookies ''SESSIONID'' = Some x" "st_sessions st x = Some s" "\<not> isDestroy s"
    by (auto simp: live_def split: bind_splits if_splits)
  then have "associateSession rnd lifetime now cookies st = accessSession now s st" by (simp add: associateSession_def hm_get_def)
  moreover have dl: "ts \<le> ts_plus now (ttl s)" if "deadline st x = Some ts" for ts using assms(6) x(2) that by (simp add: in_time_def)
  then obtain st' where "accessSession now s st = Inr (setStatus Accessed s, st')" "store_inv st'"
     "st_sessions st' = (st_sessions st)(x \<mapsto> setStatus Accessed s)" "timers st' = (timers st)(session_key x \<mapsto> (ts_plus now (ttl s), Some x))"
    using accessSession_ok [OF inv x(2) assms(5) [OF x(2)] dl] by blast
  moreover have "session_key sid \<noteq> session_key x" if "st_sessions st sid \<noteq> None" "sid \<noteq> x" for sid
    using session_owner [OF inv, of x sid] x(2) that by auto
  moreover have "se_id s = x" using store_inv_session [OF inv x(2)] by blast
  ultimately show ?thesis using Some by (auto simp: deadline_def setStatus_def ttl_def)
qed

definition no_sessions :: "unit store" where
  "no_sessions = \<lparr>st_sessions = hm_new, st_timer = None\<rparr>"

lemma no_sessions_inv: "store_inv no_sessions" "fresh_id sid no_sessions"
  by (simp_all add: no_sessions_def store_inv_def timers_def hm_new_def fresh_id_def)


theorem associateSession_keeps_sessions_witness:
  "\<exists>s st'. associateSession ''abc'' 60 (TimeStamp 5) hm_new no_sessions = Inr (s, st') \<and> store_inv st' \<and>
     st_sessions st' = (st_sessions no_sessions)(se_id s \<mapsto> s) \<and> deadline st' (se_id s) = Some (ts_plus (TimeStamp 5) (ttl s)) \<and>
     (\<forall>sid. sid \<noteq> se_id s \<longrightarrow> st_sessions no_sessions sid \<noteq> None \<longrightarrow> deadline st' sid = deadline no_sessions sid) \<and>
     (case live hm_new no_sessions of Some s0 \<Rightarrow> s = s0\<lparr>se_status := Accessed\<rparr> | None \<Rightarrow> s = HttpSession_new (session_name ''abc'') 60)"
  by (rule associateSession_keeps_sessions)
    (simp_all add: no_sessions_inv short_lived_def, simp_all add: in_time_def no_sessions_def hm_new_def)

end
