(* ===== verification/ChannelClose.thy ===== *)
theory ChannelClose
  imports Channel
begin

text \<open>
  The destructors of \<open>soc/net/Channel\<close> and what they give back: each operation returns the calls to the
  kernel and to OpenSSL in their order. A virtual call in a destructor reaches the class of the destructor.
\<close>

datatype sys_call = CloseFd int | Munmap size_t | SslShutdown | SslFree | SslCtxFree

definition MMap_delete :: "mmap_object \<Rightarrow> sys_call list" where
  "MMap_delete m = (if mm_addr m \<noteq> None then [Munmap (mm_size m)] else [])"

definition SendFile_delete :: "sendfile_object \<Rightarrow> sys_call list" where
  "SendFile_delete f = [CloseFd (sf_infd f)]"

definition mmap_release :: "channel \<Rightarrow> sys_call list" where
  \<comment> \<open>what \<open>removeMMapObject\<close> gives back\<close>
  "mmap_release ch = (case mmap_obj ch of None \<Rightarrow> [] | Some m \<Rightarrow> MMap_delete m)"

definition sendfile_release :: "channel \<Rightarrow> sys_call list" where
  \<comment> \<open>what \<open>removeSendFileObject\<close> gives back\<close>
  "sendfile_release ch = (case sfile_obj ch of None \<Rightarrow> [] | Some f \<Rightarrow> SendFile_delete f)"

definition reset_release :: "channel \<Rightarrow> sys_call list" where
  \<comment> \<open>what \<open>reset\<close> gives back\<close>
  "reset_release ch = mmap_release ch @ sendfile_release ch"

definition RawChannel_close :: "channel \<Rightarrow> sys_call list \<times> channel" where
  "RawChannel_close ch = ([CloseFd (ch_fd ch)], ch\<lparr>ch_closed := True\<rparr>)"

definition SslChannel_close :: "channel \<Rightarrow> sys_call list \<times> channel" where
  "SslChannel_close ch = ([SslShutdown, SslFree], ch\<lparr>ch_ssl := False\<rparr>)"

definition channel_close :: "channel \<Rightarrow> sys_call list \<times> channel" where
  "channel_close ch = (case ch_type ch of Raw \<Rightarrow> RawChannel_close ch | Ssl \<Rightarrow> SslChannel_close ch)"

definition Channel_delete :: "channel \<Rightarrow> sys_call list" where
  \<comment> \<open>\<open>~Channel\<close> frees the array \<open>buffer_\<close>; \<open>mmap_obj_\<close> and \<open>sfile_obj_\<close> are pointers and are left\<close>
  "Channel_delete ch = []"

definition RawChannel_delete :: "channel \<Rightarrow> sys_call list" where
  "RawChannel_delete ch =
     (let (out, ch) = (if \<not> ch_closed ch then RawChannel_close ch else ([], ch)) in out @ Channel_delete ch)"

definition SslChannel_delete :: "channel \<Rightarrow> sys_call list" where
  "SslChannel_delete ch =
     (let (out, ch) = (if ch_ssl ch then SslChannel_close ch else ([], ch)) in out @ RawChannel_delete ch)"

definition channel_delete :: "channel \<Rightarrow> sys_call list" where
  "channel_delete ch = (case ch_type ch of Raw \<Rightarrow> RawChannel_delete ch | Ssl \<Rightarrow> SslChannel_delete ch)"


section \<open>A channel and what it holds\<close>

text \<open>The life of a channel in between: closing it any number of times, then deleting it.\<close>

fun close_times :: "nat \<Rightarrow> channel \<Rightarrow> sys_call list" where
  "close_times 0 ch = channel_delete ch"
| "close_times (Suc n) ch = (let (out, ch) = channel_close ch in out @ close_times n ch)"

lemmas release_defs = RawChannel_close_def SslChannel_close_def channel_close_def Channel_delete_def RawChannel_delete_def
  SslChannel_delete_def channel_delete_def

text \<open>A connection that is dropped gives its descriptor back once, and a TLS connection is shut down before.\<close>

lemma channel_delete_new:
  "channel_delete (Channel_new Raw fd sf) = [CloseFd fd]"
  "channel_delete (Channel_new Ssl fd sf) = [SslShutdown, SslFree, CloseFd fd]"
  by (simp_all add: release_defs Channel_new_def)

lemma ssl_channel_closed_before:
  assumes "ch_type ch = Ssl" and "\<not> ch_closed ch" and "ch_ssl ch"
  shows "close_times 1 ch = channel_delete ch"
  using assms by (simp add: release_defs)

lemma raw_channel_closed_before:
  assumes "ch_type ch = Raw" and "\<not> ch_closed ch"
  shows "close_times 1 ch = channel_delete ch" "close_times 2 ch = CloseFd (ch_fd ch) # channel_delete ch"
  using assms by (simp_all add: release_defs numeral_2_eq_2)

text \<open>
  A channel that is deleted before its response is complete keeps the file of the body: the destructor
  closes the socket only, the descriptor passed to \<open>sendfile\<close> and the mapping are never given back.
\<close>

lemma channel_delete_keeps_body:
  "set (channel_delete ch) \<subseteq> {SslShutdown, SslFree, CloseFd (ch_fd ch)}"
  by (auto simp: release_defs split: channel_type.splits)

lemma reset_releases_file: "sfile_obj ch = Some f \<Longrightarrow> CloseFd (sf_infd f) \<in> set (reset_release ch)"
  by (simp add: reset_release_def sendfile_release_def SendFile_delete_def)

lemma reset_releases_mapping: "mmap_obj ch = Some m \<Longrightarrow> mm_addr m \<noteq> None \<Longrightarrow> Munmap (mm_size m) \<in> set (reset_release ch)"
  by (simp add: reset_release_def mmap_release_def MMap_delete_def)

lemma reset_releases_once: "reset_release (reset_chan ch) = []"
  by (simp add: reset_release_def mmap_release_def sendfile_release_def reset_chan_def removeMMapObject_def removeSendFileObject_def)

end
