(* ===== verification/InetAddress.thy ===== *)
theory InetAddress
  imports Cxx_Prelude
begin

text \<open>
  \<open>soc/net\<close> (\<open>InetAddress.h\<close>, \<open>InetAddress.cc\<close>): IPv4 addresses. The port is kept in network byte
  order on a little-endian machine; the address is its four bytes in memory. \<open>inet_pton\<close> is an argument.
\<close>

unbundle bit_operations_syntax

record sockaddr_in =
  sin_port :: "16 word"
  sin_addr :: "8 word \<times> 8 word \<times> 8 word \<times> 8 word"

definition htons :: "16 word \<Rightarrow> 16 word" where
  "htons x = push_bit 8 x OR drop_bit 8 x"

definition InetAddress_any :: "16 word \<Rightarrow> sockaddr_in" where
  "InetAddress_any port = \<lparr>sin_port = htons port, sin_addr = (0, 0, 0, 0)\<rparr>"

definition InetAddress_ip :: "(string \<Rightarrow> (8 word \<times> 8 word \<times> 8 word \<times> 8 word) option) \<Rightarrow> string \<Rightarrow> 16 word \<Rightarrow> sockaddr_in" where
  \<comment> \<open>the result of \<open>inet_pton\<close> is not checked: an address it does not accept stays \<open>0.0.0.0\<close>\<close>
  "InetAddress_ip pton ip port =
     \<lparr>sin_port = htons port, sin_addr = (case pton ip of Some a \<Rightarrow> a | None \<Rightarrow> (0, 0, 0, 0))\<rparr>"

definition dotted :: "8 word \<times> 8 word \<times> 8 word \<times> 8 word \<Rightarrow> string" where
  \<comment> \<open>the text \<open>inet_ntop\<close> writes\<close>
  "dotted = (\<lambda>(a, b, c, d). decimal (unat a) @ ''.'' @ decimal (unat b) @ ''.'' @ decimal (unat c) @ ''.'' @ decimal (unat d))"

definition getIp :: "sockaddr_in \<Rightarrow> string res" where
  \<comment> \<open>\<open>inet_ntop\<close> is told that \<open>buf\<close> has \<open>sizeof(sockin_)\<close> = 16 bytes; when the text does not fit
      nothing is written and \<open>buf\<close> is not initialised\<close>
  "getIp a = (if length (dotted (sin_addr a)) + 1 \<le> 16 then Inr (dotted (sin_addr a)) else Inl Indeterminate)"

definition getPort :: "sockaddr_in \<Rightarrow> 16 word" where
  "getPort a = htons (sin_port a)"

definition inet_toString :: "sockaddr_in \<Rightarrow> string res" where
  "inet_toString a = res_map (\<lambda>ip. ip @ '':'' @ decimal (unat (getPort a))) (getIp a)"


section \<open>Properties\<close>

lemma htons_htons [simp]: "htons (htons x) = x"
  by (rule bit_word_eqI) (auto simp: htons_def bit_simps)

lemma getPort_new: "getPort (InetAddress_any port) = port" "getPort (InetAddress_ip pton ip port) = port"
  by (simp_all add: getPort_def InetAddress_any_def InetAddress_ip_def)

lemma length_decimal_byte: "n < 256 \<Longrightarrow> length (decimal n) \<le> 3"
  by (subst decimal.simps, simp, subst decimal.simps, simp, subst decimal.simps, simp)

text \<open>The longest address has 15 characters, so the array of 16 bytes always holds its text.\<close>

lemma getIp_ok: "getIp a = Inr (dotted (sin_addr a))"
proof -
  obtain w x y z where a: "sin_addr a = (w, x, y, z)" by (cases "sin_addr a") auto
  have "length (decimal (unat v)) \<le> 3" for v :: "8 word"
    using unsigned_less [of v, where 'a = nat] by (intro length_decimal_byte) simp
  from this [of w] this [of x] this [of y] this [of z] have "length (dotted (sin_addr a)) \<le> 15" by (simp add: a dotted_def)
  then show ?thesis by (simp add: getIp_def)
qed

lemma inet_toString_ok:
  "inet_toString (InetAddress_ip pton ip port) =
     Inr (dotted (case pton ip of Some a \<Rightarrow> a | None \<Rightarrow> (0, 0, 0, 0)) @ '':'' @ decimal (unat port))"
  by (simp add: inet_toString_def getIp_ok getPort_new) (simp add: InetAddress_ip_def)

end
