(* ===== verification/FastCgi.thy ===== *)
theory FastCgi
  imports ChannelClose InetAddress
begin

text \<open>
  \<open>soc/modules/php-fastcgi\<close>: the FastCGI client that passes a request to PHP-FPM. The sending
  operations give the bytes they pass to \<open>write\<close>; \<open>readPhpFpm\<close> reads records from the
  socket, which is a parameter: \<open>rd s n\<close> is the result of \<open>read\<close> with room for \<open>n\<close>
  bytes (\<open>None\<close> is the error -1, an empty string the end of the stream) and the new state of the
  socket. \<open>connected\<close> is the kernel's answer to \<open>connect\<close>.
\<close>

unbundle bit_operations_syntax

section \<open>Records\<close>

record fcgi_header =
  fh_version :: char
  fh_type :: char
  fh_requestIdB1 :: char
  fh_requestIdB0 :: char
  fh_contentLengthB1 :: char
  fh_contentLengthB0 :: char
  fh_paddingLength :: char
  fh_reserved :: char

definition connectPhpFpm_tcp :: "(string \<Rightarrow> 8 word \<times> 8 word \<times> 8 word \<times> 8 word) \<Rightarrow> (sockaddr_in \<Rightarrow> bool) \<Rightarrow> string \<Rightarrow> 16 word \<Rightarrow> bool" where
  \<comment> \<open>the arguments are \<open>inet_addr\<close>, which gives \<open>255.255.255.255\<close> for a text that is no address, and whether
      \<open>connect\<close> succeeds\<close>
  "connectPhpFpm_tcp inet_addr connected ip port =
     (let si = \<lparr>sin_port = htons port, sin_addr = inet_addr (c_str ip)\<rparr> in if \<not> connected si then False else True)"

definition PhpFastCgi_delete :: "int \<Rightarrow> sys_call list" where
  "PhpFastCgi_delete sockfd = [CloseFd sockfd]"

definition connectPhpFpm_unix :: "(string \<Rightarrow> bool) \<Rightarrow> string \<Rightarrow> bool res" where
  \<comment> \<open>\<open>strncpy\<close> is given the length of the path, not of \<open>sun_path\<close>, which has 108 bytes\<close>
  "connectPhpFpm_unix connected sockpath =
     res_map connected (write_at (replicate 108 NUL) 0 (takeWhile (\<lambda>c. c \<noteq> NUL) sockpath @ replicate (length sockpath - length (takeWhile (\<lambda>c. c \<noteq> NUL) sockpath)) NUL))"

definition FCGI_BEGIN_REQUEST :: int where "FCGI_BEGIN_REQUEST = 1"

definition FCGI_END_REQUEST :: int where "FCGI_END_REQUEST = 3"

definition FCGI_PARAMS :: int where "FCGI_PARAMS = 4"

definition FCGI_STDIN :: int where "FCGI_STDIN = 5"

definition FCGI_STDOUT :: int where "FCGI_STDOUT = 6"

definition FCGI_STDERR :: int where "FCGI_STDERR = 7"

definition hdr_bytes :: "fcgi_header \<Rightarrow> string" where
  \<comment> \<open>the structure as it lies in memory: eight single bytes\<close>
  "hdr_bytes h = [fh_version h, fh_type h, fh_requestIdB1 h, fh_requestIdB0 h, fh_contentLengthB1 h, fh_contentLengthB0 h,
     fh_paddingLength h, fh_reserved h]"

definition makeHeader :: "int \<Rightarrow> int \<Rightarrow> int \<Rightarrow> int \<Rightarrow> fcgi_header" where
  "makeHeader requestId ty contentlen paddinglen =
     \<lparr>fh_version = char_of (1 :: int), fh_type = char_of ty,
      fh_requestIdB1 = char_of (drop_bit 8 requestId AND 0xff), fh_requestIdB0 = char_of (requestId AND 0xff),
      fh_contentLengthB1 = char_of (drop_bit 8 contentlen AND 0xff), fh_contentLengthB0 = char_of (contentlen AND 0xff),
      fh_paddingLength = char_of paddinglen, fh_reserved = NUL\<rparr>"

definition makeBeginRequestBody :: "int \<Rightarrow> int \<Rightarrow> string" where
  "makeBeginRequestBody role keepconn =
     [char_of (drop_bit 8 role AND 0xff), char_of (role AND 0xff), if keepconn \<noteq> 0 then char_of (1 :: int) else NUL,
      NUL, NUL, NUL, NUL, NUL]"

definition len_bytes :: "nat \<Rightarrow> string" where
  "len_bytes n =
     (if n < 128 then [char_of n]
      else [char_of (drop_bit 24 n OR 0x80), char_of (drop_bit 16 n), char_of (drop_bit 8 n), char_of n])"

definition makeNameValueBody :: "string \<Rightarrow> string \<Rightarrow> string" where
  \<comment> \<open>the bytes written through \<open>body\<close>; their number is \<open>*bodylen\<close>\<close>
  "makeNameValueBody name value = len_bytes (length name) @ len_bytes (length value) @ name @ value"


section \<open>Sending\<close>

datatype fcgi_param = REQUEST_METHOD | QUERY_STRING | CONTENT_LENGTH | CONTENT_TYPE | SCRIPT_FILENAME
  | SERVER_NAME | SERVER_PORT | REMOTE_ADDR | REMOTE_HOST | AUTORIZATION | USER_AGENT
  | PHP_AUTH_USER | PHP_AUTH_PW | PHP_AUTH_DIGEST

definition fcgi_params :: "(fcgi_param \<times> string) list" where
  "fcgi_params =
     [(REQUEST_METHOD, ''REQUEST_METHOD''), (QUERY_STRING, ''QUERY_STRING''), (CONTENT_LENGTH, ''CONTENT_LENGTH''),
      (CONTENT_TYPE, ''CONTENT_TYPE''), (SCRIPT_FILENAME, ''SCRIPT_FILENAME''), (SERVER_NAME, ''SERVER_NAME''),
      (SERVER_PORT, ''SERVER_PORT''), (REMOTE_HOST, ''REMOTE_ADDR''), (USER_AGENT, ''USER_AGENT''),
      (PHP_AUTH_USER, ''PHP_AUTH_USER''), (PHP_AUTH_PW, ''PHP_AUTH_PW''), (PHP_AUTH_DIGEST, ''PHP_AUTH_DIGEST'')]"

definition param_name :: "fcgi_param \<Rightarrow> string" where
  \<comment> \<open>\<open>params_[param]\<close>: the empty string for a parameter that is not in the table\<close>
  "param_name p = (case map_of fcgi_params p of None \<Rightarrow> [] | Some s \<Rightarrow> s)"

definition sendStartRequestRecord :: "int \<Rightarrow> string" where
  "sendStartRequestRecord requestId =
     hdr_bytes (makeHeader requestId FCGI_BEGIN_REQUEST 8 0) @ makeBeginRequestBody 1 0"

definition sendParams :: "int \<Rightarrow> fcgi_param \<Rightarrow> string \<Rightarrow> string res" where
  "sendParams requestId param value =
     (let body = makeNameValueBody (param_name param) value
      in res_map (\<lambda>bodyBuff. hdr_bytes (makeHeader requestId FCGI_PARAMS (int (length body)) 0) @ take (length body) bodyBuff)
           (write_at (replicate 2048 NUL) 0 body))"

definition sendEndRequestRecord :: "int \<Rightarrow> string" where
  "sendEndRequestRecord requestId = hdr_bytes (makeHeader requestId FCGI_PARAMS 0 0)"

fun post_loop :: "int list \<Rightarrow> string \<Rightarrow> int \<Rightarrow> string run" where
  \<comment> \<open>the results of the successive calls of \<open>write\<close> and the number \<open>rn\<close> of bytes left;
      a negative \<open>rn\<close> points behind the data and asks for \<open>2 ^ 64 + rn\<close> bytes\<close>
  "post_loop [] postdata rn = None"
| "post_loop (n # ns) postdata rn =
     (if rn < 0 then Some (Inl OutOfBounds)
      else if n > 0 then
        run_bind (post_loop ns postdata (rn - n)) (\<lambda>out.
          Some (Inr (take (nat n) (drop (length postdata - nat rn) postdata) @ out)))
      else Some (Inr []))"

definition sendPost :: "int list \<Rightarrow> int \<Rightarrow> sview \<Rightarrow> string run" where
  "sendPost ns requestId postdata =
     (let size = to_int (int (length postdata))
      in run_bind (post_loop ns postdata size) (\<lambda>out.
           Some (Inr (hdr_bytes (makeHeader requestId FCGI_STDIN size 0) @ out @
             hdr_bytes (makeHeader requestId FCGI_STDIN 0 0)))))"


section \<open>Receiving\<close>

type_synonym 's reader = "'s \<Rightarrow> nat \<Rightarrow> string option \<times> 's"

definition read_into :: "'s reader \<Rightarrow> nat \<Rightarrow> 's \<Rightarrow> nat \<Rightarrow> (string option \<times> 's) res" where
  \<comment> \<open>\<open>read\<close> into an array of \<open>cap\<close> bytes, asking for \<open>n\<close>: what arrives must fit\<close>
  "read_into rd cap s n =
     (case rd s n of
        (Some bs, s') \<Rightarrow> if length bs \<le> cap then Inr (Some bs, s') else Inl OutOfBounds
      | (None, s') \<Rightarrow> Inr (None, s'))"

definition append_read :: "'s reader \<Rightarrow> nat \<Rightarrow> buffer \<times> 's \<Rightarrow> (buffer \<times> 's) res" where
  \<comment> \<open>\<open>read\<close> into \<open>content\<close> and append \<open>ret\<close> bytes: -1 as a size is past every array\<close>
  "append_read rd n = (\<lambda>(b, s).
     res_bind (read_into rd 2048 s n) (\<lambda>(r, s').
       case r of None \<Rightarrow> Inl OutOfBounds | Some bs \<Rightarrow> res_map (\<lambda>b'. (b', s')) (append_buf b bs)))"

fun read_blocks :: "'s reader \<Rightarrow> nat \<Rightarrow> buffer \<times> 's \<Rightarrow> (buffer \<times> 's) res" where
  "read_blocks rd 0 bs = Inr bs"
| "read_blocks rd (Suc nbuf) bs = res_bind (append_read rd 2048 bs) (read_blocks rd nbuf)"

definition skip_padding :: "'s reader \<Rightarrow> char \<Rightarrow> 's \<Rightarrow> 's res" where
  \<comment> \<open>\<open>tmp[8]\<close>\<close>
  "skip_padding rd paddingLength s =
     (if 0 < (of_char paddingLength :: nat) then res_map snd (read_into rd 8 s (of_char paddingLength)) else Inr s)"

definition content_len :: "string \<Rightarrow> nat" where
  "content_len hdr = of_char (hdr ! 4) * 256 + of_char (hdr ! 5)"

fun readPhpFpm ::
  "nat \<Rightarrow> 's reader \<Rightarrow> string \<Rightarrow> buffer \<Rightarrow> 's \<Rightarrow> bool \<Rightarrow> string \<Rightarrow> (bool \<times> string \<times> buffer \<times> 's) run" where
  \<comment> \<open>\<open>hdr\<close>: the eight bytes of \<open>responderHeader\<close>; a short read leaves the old ones\<close>
  "readPhpFpm 0 rd hdr b s status message = None"
| "readPhpFpm (Suc fuel) rd hdr b s status message =
     (case rd s 8 of
        (None, s') \<Rightarrow> Some (Inr (status, message, b, s'))
      | (Some bs, s') \<Rightarrow>
          if bs = [] then Some (Inr (status, message, b, s'))
          else let hdr = take 8 bs @ drop (length bs) hdr
               in if of_char (hdr ! 1) = FCGI_STDOUT then
                    run_bind (Some (read_blocks rd (content_len hdr div 2048) (b, s'))) (\<lambda>bs.
                    run_bind (Some (append_read rd (content_len hdr mod 2048) bs)) (\<lambda>(b, s).
                    run_bind (Some (skip_padding rd (hdr ! 6) s)) (\<lambda>s.
                      readPhpFpm fuel rd hdr b s status message)))
                  else if of_char (hdr ! 1) = FCGI_STDERR then
                    run_bind (Some (read_into rd 2048 s' (content_len hdr))) (\<lambda>(r, s).
                      case r of None \<Rightarrow> Some (Inl LengthError)
                      | Some msg \<Rightarrow>
                          run_bind (Some (skip_padding rd (hdr ! 6) s)) (\<lambda>s.
                            readPhpFpm fuel rd hdr b s False msg))
                  else if of_char (hdr ! 1) = FCGI_END_REQUEST then
                    run_bind (Some (read_into rd 8 s' 8)) (\<lambda>(_, s). readPhpFpm fuel rd hdr b s status message)
                  else readPhpFpm fuel rd hdr b s' status message)"

section \<open>Lengths\<close>

text \<open>The receiver's view of a length and of a name-value pair.\<close>

fun read_len :: "string \<Rightarrow> (nat \<times> string) option" where
  "read_len (a # s) =
     (if of_char a < (128 :: nat) then Some (of_char a, s)
      else case s of
        b # c # d # s' \<Rightarrow> Some (((of_char a - 128) * 16777216 + of_char b * 65536 + of_char c * 256 + of_char d), s')
      | _ \<Rightarrow> None)"
| "read_len [] = None"

definition decode_nv :: "string \<Rightarrow> (string \<times> string \<times> string) option" where
  "decode_nv s =
     Option.bind (read_len s) (\<lambda>(n, s1). Option.bind (read_len s1) (\<lambda>(m, s2).
       if n + m \<le> length s2 then Some (take n s2, take m (drop n s2), drop (n + m) s2) else None))"

lemma or_128: "x < 128 \<Longrightarrow> x OR 128 = x + (128 :: nat)"
proof -
  assume "x < 128"
  then have x: "take_bit 7 x = x" by (simp add: take_bit_nat_eq_self)
  have "bit (128 :: nat) n \<longleftrightarrow> n = 7" for n using bit_exp_iff [of 7 n, where 'a = nat] by simp
  then have "take_bit 7 x AND 128 = (0 :: nat)" by (auto intro!: bit_eqI simp: bit_simps)
  with x have "x AND 128 = 0" by simp
  then show ?thesis by (simp add: disjunctive_add_eq_or)
qed

lemma of_char_of_nat: "(of_char (char_of (n :: nat)) :: nat) = n mod 256"
  by simp

lemma read_len_bytes:
  assumes "n < 2147483648"
  shows "read_len (len_bytes n @ s) = Some (n, s)"
proof (cases "n < 128")
  case True
  then show ?thesis by (simp add: len_bytes_def)
next
  case False
  let ?a = "n div 16777216" and ?b = "n div 65536 mod 256" and ?c = "n div 256 mod 256" and ?d = "n mod 256"
  have a: "?a < 128" using assms less_mult_imp_div_less [of n 128 16777216] by simp
  have "n div 256 div 256 = n div 65536" "n div 65536 div 256 = n div 16777216" by (simp_all add: div_mult2_eq [symmetric])
  then have sum: "?a * 16777216 + ?b * 65536 + ?c * 256 + ?d = n"
    using div_mult_mod_eq [of n 256] div_mult_mod_eq [of "n div 256" 256] div_mult_mod_eq [of "n div 65536" 256] by linarith
  have l: "len_bytes n @ s = char_of (?a + 128) # char_of (n div 65536) # char_of (n div 256) # char_of n # s"
    using False a or_128 [OF a] by (simp add: len_bytes_def drop_bit_eq_div)
  have "(?a + 128) mod 256 = ?a + 128" using a by simp
  with sum show ?thesis unfolding l read_len.simps of_char_of_nat by simp
qed

text \<open>
  C28. PHP-FPM reads back every name and value that \<open>makeNameValueBody\<close> encodes, short or long, as
  long as each has fewer than \<open>2 ^ 31\<close> bytes.
\<close>

theorem name_value_roundtrip:
  assumes "length name < 2147483648" and "length value < 2147483648"
  shows "decode_nv (makeNameValueBody name value @ rest) = Some (name, value, rest)"
  using assms by (simp add: decode_nv_def makeNameValueBody_def read_len_bytes)

theorem name_value_roundtrip_witness:
  "decode_nv (makeNameValueBody ''k'' (replicate 300 (CHR ''v'')) @ ''x'') = Some (''k'', replicate 300 (CHR ''v''), ''x'')"
  by (rule name_value_roundtrip) simp_all

lemma length_hdr_bytes [simp]: "length (hdr_bytes h) = 8"
  by (simp add: hdr_bytes_def)

lemma of_char_of_int: "(of_char (char_of x) :: nat) = nat (x mod 256)" for x :: int
  using of_char_of [of x] by (metis nat_of_char of_char_of)

lemma content_len_make:
  "content_len (hdr_bytes (makeHeader i ty (int n) p) @ s) = n mod 65536"
proof -
  have "n div 256 mod 256 * 256 + n mod 256 = n mod 65536"
    using mod_mult2_eq [of n 256 256] by simp
  moreover have "drop_bit 8 (int n) AND 255 = int (n div 256 mod 256)" "int n AND 255 = int (n mod 256)"
    using take_bit_eq_mask [of 8 "drop_bit 8 (int n)"] take_bit_eq_mask [of 8 "int n"]
    by (simp_all add: mask_eq_exp_minus_1 take_bit_eq_mod drop_bit_eq_div zdiv_int zmod_int)
  ultimately show ?thesis
    by (simp add: content_len_def hdr_bytes_def makeHeader_def of_char_of_int nat_mod_distrib)
qed


section \<open>Records on the wire\<close>

lemma length_len_bytes [simp]: "length (len_bytes n) = (if n < 128 then 1 else 4)"
  by (simp add: len_bytes_def)

text \<open>
  A parameter is sent as one PARAMS record whose header announces exactly the bytes of its
  name-value pair, provided the pair fits the 2048 bytes of \<open>bodyBuff\<close>; a longer pair is written
  past the end of the array.
\<close>

theorem sendParams_record:
  "sendParams i p value =
     (let body = makeNameValueBody (param_name p) value
      in if length body \<le> 2048
         then Inr (hdr_bytes (makeHeader i FCGI_PARAMS (int (length body)) 0) @ body)
         else Inl OutOfBounds)"
  by (simp add: sendParams_def Let_def write_at_def)

text \<open>The results of \<open>write\<close> that take the whole of \<open>n\<close> bytes, in positive pieces, then 0.\<close>

lemma post_loop_all:
  assumes "\<forall>n\<in>set ns. 0 < n" and "sum_list ns = rn" and "rn \<le> int (length d)"
  shows "post_loop (ns @ [0]) d rn = Some (Inr (drop (length d - nat rn) d))"
  using assms
proof (induction ns arbitrary: rn)
  case (Cons n ns)
  have nn: "0 \<le> sum_list ns" using Cons.prems(1) by (auto intro: sum_list_nonneg order.strict_implies_order)
  then have le: "nat n \<le> nat rn" "0 \<le> rn" "0 < n" "rn - n = sum_list ns" using Cons.prems by auto
  then have "length d - nat (rn - n) = nat n + (length d - nat rn)" using Cons.prems(3) nn by linarith
  moreover have "post_loop (ns @ [0]) d (rn - n) = Some (Inr (drop (length d - nat (rn - n)) d))"
    using Cons.prems le nn by (intro Cons.IH) auto
  ultimately have "post_loop (ns @ [0]) d (rn - n) = Some (Inr (drop (nat n) (drop (length d - nat rn) d)))" by simp
  with le show ?case by (simp del: drop_drop)
qed simp

text \<open>
  C27. However \<open>write\<close> splits the body of a POST request (any positive pieces that add up to its
  size), \<open>sendPost\<close> sends every byte once and in order, between the STDIN header and the empty
  STDIN record; the length in the header is the size of the body exactly when the body is shorter than
  65536 bytes.
\<close>

theorem sendPost_all_bytes:
  assumes "\<forall>n\<in>set ns. 0 < n" and "sum_list ns = int (length d)" and "length d < 2147483648"
  shows "\<exists>h. length h = 8 \<and>
      sendPost (ns @ [0]) i d = Some (Inr (h @ d @ hdr_bytes (makeHeader i FCGI_STDIN 0 0))) \<and>
      (content_len h = length d \<longleftrightarrow> length d < 65536)"
proof -
  let ?h = "hdr_bytes (makeHeader i FCGI_STDIN (int (length d)) 0)"
  have s: "to_int (int (length d)) = int (length d)" using assms(3) by (simp add: int_range_def)
  have "post_loop (ns @ [0]) d (int (length d)) = Some (Inr d)" using post_loop_all [OF assms(1,2)] by simp
  then have "sendPost (ns @ [0]) i d = Some (Inr (?h @ d @ hdr_bytes (makeHeader i FCGI_STDIN 0 0)))"
    by (simp add: sendPost_def s)
  moreover have "content_len ?h = length d mod 65536" using content_len_make [of i FCGI_STDIN "length d" 0 "[]"] by simp
  moreover have "length d mod 65536 = length d \<longleftrightarrow> length d < 65536" by (metis mod_less mod_less_divisor zero_less_numeral)
  ultimately show ?thesis by (intro exI [of _ ?h]) simp
qed

theorem sendPost_all_bytes_witness:
  "\<exists>h. length h = 8 \<and>
      sendPost ([3, 2] @ [0]) 1 ''a=b&c'' = Some (Inr (h @ ''a=b&c'' @ hdr_bytes (makeHeader 1 FCGI_STDIN 0 0))) \<and>
      (content_len h = length ''a=b&c'' \<longleftrightarrow> length ''a=b&c'' < 65536)"
  by (rule sendPost_all_bytes) simp_all


section \<open>Reading the answer\<close>

text \<open>A socket that delivers what is asked for as long as there is something, then ends.\<close>

definition full_rd :: "string reader" where
  "full_rd s n = (Some (take n s), drop n s)"

definition stdout_rec :: "int \<Rightarrow> string \<times> string \<Rightarrow> string" where
  \<comment> \<open>a STDOUT record: content and padding\<close>
  "stdout_rec i = (\<lambda>(c, pad). hdr_bytes (makeHeader i FCGI_STDOUT (int (length c)) (int (length pad))) @ c @ pad)"

definition end_rec :: "int \<Rightarrow> string \<Rightarrow> string" where
  "end_rec i body = hdr_bytes (makeHeader i FCGI_END_REQUEST 8 0) @ body"

lemma append_read_full:
  assumes "buf_inv b" and "buf_room b (length c + n)" and "length c \<le> 2048"
  shows "\<exists>b'. append_read full_rd (length c) (b, c @ s) = Inr (b', s) \<and> buf_inv b' \<and> buf_room b' n \<and>
     buf_view b' = buf_view b @ c"
  using append_buf_ok [OF assms(1,2)] assms(3) by (auto simp: append_read_def read_into_def full_rd_def)

lemma read_blocks_full:
  assumes "buf_inv b" and "buf_room b (length c + n)" and "length c = k * 2048"
  shows "\<exists>b'. read_blocks full_rd k (b, c @ s) = Inr (b', s) \<and> buf_inv b' \<and> buf_room b' n \<and>
     buf_view b' = buf_view b @ c"
  using assms
proof (induction k arbitrary: b c)
  case (Suc k)
  let ?c1 = "take 2048 c" and ?c2 = "drop 2048 c"
  have l: "length ?c1 = 2048" "length ?c2 = k * 2048" "c @ s = ?c1 @ ?c2 @ s" "length ?c1 + (length ?c2 + n) = length c + n"
    using Suc.prems(3) by simp_all
  then have "buf_room b (length ?c1 + (length ?c2 + n))" using Suc.prems(2) l(4) by (simp only:)
  from append_read_full [OF Suc.prems(1) this, of "?c2 @ s"] l(1) obtain b1 where
    b1: "append_read full_rd 2048 (b, ?c1 @ ?c2 @ s) = Inr (b1, ?c2 @ s)" "buf_inv b1" "buf_room b1 (length ?c2 + n)"
      "buf_view b1 = buf_view b @ ?c1" by auto
  from Suc.IH [OF b1(2,3) l(2)] obtain b' where
    b': "read_blocks full_rd k (b1, ?c2 @ s) = Inr (b', s)" "buf_inv b'" "buf_room b' n" "buf_view b' = buf_view b1 @ ?c2" by blast
  have "read_blocks full_rd (Suc k) (b, c @ s) = Inr (b', s)"
    unfolding l(3) read_blocks.simps b1(1) res_bind_Inr by (rule b'(1))
  with b' b1(4) show ?case by simp
qed simp

lemma read_content_full:
  assumes "buf_inv b" and "buf_room b (length c + n)"
  shows "\<exists>b' x. read_blocks full_rd (length c div 2048) (b, c @ s) = Inr x \<and>
     append_read full_rd (length c mod 2048) x = Inr (b', s) \<and> buf_inv b' \<and> buf_room b' n \<and>
     buf_view b' = buf_view b @ c"
proof -
  let ?k = "length c div 2048"
  let ?c1 = "take (?k * 2048) c" and ?c2 = "drop (?k * 2048) c"
  have l: "length ?c1 = ?k * 2048" "length ?c2 = length c mod 2048" "c @ s = ?c1 @ ?c2 @ s"
    by (simp_all add: minus_div_mult_eq_mod)
  then have "length ?c1 + (length ?c2 + n) = length c + n" by (simp add: add.assoc [symmetric])
  then have "buf_room b (length ?c1 + (length ?c2 + n))" using assms(2) by (simp only:)
  from read_blocks_full [OF assms(1) this l(1)] obtain b1 where
    b1: "read_blocks full_rd ?k (b, ?c1 @ ?c2 @ s) = Inr (b1, ?c2 @ s)" "buf_inv b1" "buf_room b1 (length ?c2 + n)"
      "buf_view b1 = buf_view b @ ?c1" by blast
  from append_read_full [OF b1(2,3), of s] obtain b' where
    "append_read full_rd (length ?c2) (b1, ?c2 @ s) = Inr (b', s)" "buf_inv b'" "buf_room b' n"
      "buf_view b' = buf_view b1 @ ?c2" unfolding l(2) by auto
  with b1 show ?thesis unfolding l(2) l(3) [symmetric] by auto
qed

lemma skip_padding_full:
  assumes "length pad \<le> 8"
  shows "skip_padding full_rd (char_of (length pad)) (pad @ s) = Inr s"
proof -
  have "(of_char (char_of (length pad) :: char) :: nat) = length pad"
    using assms by simp
  with assms show ?thesis by (simp add: skip_padding_def read_into_def full_rd_def)
qed

lemma make_bytes:
  "hdr_bytes (makeHeader i ty n p) ! Suc 0 = char_of ty" "hdr_bytes (makeHeader i ty n p) ! 6 = char_of p"
  by (simp_all add: hdr_bytes_def makeHeader_def)

lemma full_rd_hdr: "full_rd (hdr_bytes h @ s) 8 = (Some (hdr_bytes h), s)"
  by (simp add: full_rd_def)

lemma hdr_bytes_nonempty [simp]: "hdr_bytes h \<noteq> []"
  by (simp add: hdr_bytes_def)

lemma readPhpFpm_stdout:
  assumes "length hdr = 8" and "buf_inv b" and "buf_room b (length c + n)" and "length c < 65536" and "length pad \<le> 8"
  shows "\<exists>b' hdr'. readPhpFpm (Suc fuel) full_rd hdr b (stdout_rec i (c, pad) @ s) st msg = readPhpFpm fuel full_rd hdr' b' s st msg \<and>
     length hdr' = 8 \<and> buf_inv b' \<and> buf_room b' n \<and> buf_view b' = buf_view b @ c"
proof -
  let ?h = "hdr_bytes (makeHeader i FCGI_STDOUT (int (length c)) (int (length pad)))"
  from read_content_full [OF assms(2,3)] obtain b' x where
    b': "read_blocks full_rd (length c div 2048) (b, c @ pad @ s) = Inr x"
      "append_read full_rd (length c mod 2048) x = Inr (b', pad @ s)" "buf_inv b'" "buf_room b' n" "buf_view b' = buf_view b @ c"
    by blast
  have h: "content_len ?h = length c" "?h ! 6 = char_of (int (length pad))"
    using content_len_make [of i FCGI_STDOUT "length c" "int (length pad)" "[]"] assms(4) by (simp_all add: make_bytes)
  have t: "of_char (?h ! 1) = FCGI_STDOUT" by (simp add: make_bytes FCGI_STDOUT_def)
  have s: "stdout_rec i (c, pad) @ s = ?h @ c @ pad @ s" by (simp add: stdout_rec_def)
  have d: "take 8 ?h @ drop (length ?h) hdr = ?h" using assms(1) by simp
  have "readPhpFpm (Suc fuel) full_rd hdr b (stdout_rec i (c, pad) @ s) st msg = readPhpFpm fuel full_rd ?h b' s st msg"
    unfolding s readPhpFpm.simps full_rd_hdr Let_def prod.case option.case d
    by (simp add: t h b' skip_padding_full [OF assms(5)] del: One_nat_def)
  with b' show ?thesis by (intro exI [of _ b'] exI [of _ ?h]) simp
qed

lemma readPhpFpm_end:
  assumes "length hdr = 8" and "length body = 8"
  shows "readPhpFpm (Suc (Suc fuel)) full_rd hdr b (end_rec i body) st msg = Some (Inr (st, msg, b, []))"
proof -
  let ?h = "hdr_bytes (makeHeader i FCGI_END_REQUEST 8 0)"
  have t: "of_char (?h ! 1) = FCGI_END_REQUEST" "FCGI_END_REQUEST \<noteq> FCGI_STDOUT" "FCGI_END_REQUEST \<noteq> FCGI_STDERR"
    by (simp_all add: make_bytes FCGI_END_REQUEST_def FCGI_STDOUT_def FCGI_STDERR_def)
  have d: "take 8 ?h @ drop (length ?h) hdr = ?h" using assms(1) by simp
  have r: "full_rd body 8 = (Some body, [])" "full_rd [] 8 = (Some [], [])" using assms(2) by (simp_all add: full_rd_def)
  have e: "readPhpFpm (Suc fuel) full_rd ?h b [] st msg = Some (Inr (st, msg, b, []))" by (simp add: r)
  show ?thesis
    unfolding end_rec_def readPhpFpm.simps(2) [of "Suc fuel"] full_rd_hdr Let_def prod.case option.case d
    by (simp add: t r read_into_def assms(2) e del: One_nat_def readPhpFpm.simps)
qed




text \<open>A socket path of more than 108 bytes is copied past the end of \<open>sun_path\<close>.\<close>

lemma connect_unix_overflow_iff: "connectPhpFpm_unix connected sockpath = Inl OutOfBounds \<longleftrightarrow> 108 < length sockpath"
proof -
  have "length (takeWhile (\<lambda>c. c \<noteq> NUL) sockpath) \<le> length sockpath" by (rule length_takeWhile_le)
  then show ?thesis by (auto simp: connectPhpFpm_unix_def write_at_def)
qed

end
