(* ===== verification/TcpServer.thy ===== *)
theory TcpServer
  imports Channel TimerQueue
begin

text \<open>
  \<open>soc/net/src/TcpServer.cc\<close>, \<open>soc/net/src/EPoller.cc\<close> and \<open>soc/net/include/ThreadPool.h\<close>:
  the event loop, which turns readiness events into tasks, and the tasks, which read from and write to a
  connection on the threads of the pool. The loop runs one event at a time; a task is one step of a
  worker, so steps of different workers and of the loop interleave at the grain of tasks. What the kernel
  answers (the events, the accepted descriptor, the clock, the results of reads and writes) is an
  argument of each step, and so are the callbacks of the application, which act on its state \<open>'a\<close>.
\<close>

unbundle bit_operations_syntax

section \<open>\<open>EPoller\<close>\<close>

type_synonym events = "32 word"

abbreviation EPOLLIN :: events where "EPOLLIN \<equiv> 1"
abbreviation EPOLLOUT :: events where "EPOLLOUT \<equiv> 4"
abbreviation EPOLLERR :: events where "EPOLLERR \<equiv> 8"
abbreviation EPOLLHUP :: events where "EPOLLHUP \<equiv> 16"
abbreviation EPOLLRDHUP :: events where "EPOLLRDHUP \<equiv> 8192"
abbreviation EPOLLONESHOT :: events where "EPOLLONESHOT \<equiv> 1073741824"
abbreviation EPOLLET :: events where "EPOLLET \<equiv> 2147483648"

definition kServerEvent :: events where
  "kServerEvent = EPOLLRDHUP"

definition kConnectionEvent :: events where
  "kConnectionEvent = EPOLLET OR EPOLLONESHOT OR EPOLLRDHUP"

text \<open>
  The interest list of the epoll instance: for each registered descriptor its events and whether it is
  armed. A descriptor with \<open>EPOLLONESHOT\<close> is disarmed when \<open>epoll_wait\<close> reports it, until
  \<open>EPOLL_CTL_MOD\<close> arms it again; \<open>EPOLL_CTL_ADD\<close> of a registered descriptor and
  \<open>EPOLL_CTL_MOD\<close> of an unregistered one fail and change nothing (the results are ignored).
\<close>

type_synonym poller = "int \<rightharpoonup> events \<times> bool"

definition addEvent :: "int \<Rightarrow> events \<Rightarrow> poller \<Rightarrow> poller" where
  "addEvent fd ev p = (case p fd of None \<Rightarrow> p(fd \<mapsto> (ev, True)) | Some _ \<Rightarrow> p)"

definition updateEvent :: "int \<Rightarrow> events \<Rightarrow> poller \<Rightarrow> poller" where
  "updateEvent fd ev p = (case p fd of None \<Rightarrow> p | Some _ \<Rightarrow> p(fd \<mapsto> (ev, True)))"

definition removeEvent :: "int \<Rightarrow> poller \<Rightarrow> poller" where
  "removeEvent fd p = p(fd := None)"

definition armed :: "poller \<Rightarrow> int \<Rightarrow> bool" where
  "armed p fd \<longleftrightarrow> (case p fd of Some (ev, on) \<Rightarrow> on | None \<Rightarrow> False)"

definition report :: "int list \<Rightarrow> poller \<Rightarrow> poller" where
  \<comment> \<open>what \<open>epoll_wait\<close> does to the list when it reports the descriptors \<open>fds\<close>\<close>
  "report fds p = (\<lambda>fd. case p fd of
       Some (ev, on) \<Rightarrow> Some (ev, if fd \<in> set fds \<and> ev AND EPOLLONESHOT \<noteq> 0 then False else on)
     | None \<Rightarrow> None)"


section \<open>\<open>ThreadPool\<close>\<close>

datatype task = OnRead int | OnWrite int   \<comment> \<open>\<open>std::bind(&TcpServer::onRead, this, &conns_[fd])\<close>\<close>

fun task_fd :: "task \<Rightarrow> int" where
  "task_fd (OnRead fd) = fd"
| "task_fd (OnWrite fd) = fd"

record thread_pool =
  tp_tasks :: "task list"
  tp_running :: bool
  tp_taken :: "task list"        \<comment> \<open>taken from the queue by a worker, not yet finished\<close>

definition pool_new :: thread_pool where
  "pool_new = \<lparr>tp_tasks = [], tp_running = True, tp_taken = []\<rparr>"

definition pool_add :: "task \<Rightarrow> thread_pool \<Rightarrow> thread_pool" where
  "pool_add t p = (if \<not> tp_running p then p else p\<lparr>tp_tasks := tp_tasks p @ [t]\<rparr>)"

definition shutdownAll :: "thread_pool \<Rightarrow> thread_pool" where
  \<comment> \<open>the workers finish the queue and return\<close>
  "shutdownAll p = p\<lparr>tp_running := False\<rparr>"

definition pool_delete :: "thread_pool \<Rightarrow> thread_pool" where
  "pool_delete p = (if \<not> tp_running p then p else shutdownAll p)"

definition pool_take :: "thread_pool \<Rightarrow> thread_pool option" where
  \<comment> \<open>the critical section of \<open>ThreadPool::run\<close>; \<open>None\<close>: the worker waits, or returns when
      the pool is shut down\<close>
  "pool_take p = (case tp_tasks p of [] \<Rightarrow> None | t # ts \<Rightarrow> Some (p\<lparr>tp_tasks := ts, tp_taken := t # tp_taken p\<rparr>))"


section \<open>State of the server\<close>

record ('c, 'a) net =
  nt_conns :: "int \<Rightarrow> 'c connection"  \<comment> \<open>\<open>conns_\<close>: \<open>operator[]\<close> adds a default connection\<close>
  nt_poller :: poller
  nt_app :: 'a

record ('c, 'a) server =
  sr_net :: "('c, 'a) net"
  sr_timer :: "int theap"         \<comment> \<open>\<open>alive_timer_\<close>; a callback is the descriptor of its connection\<close>
  sr_pool :: thread_pool
  sr_quit :: bool
  sr_batch :: "(int \<times> events) list"   \<comment> \<open>what \<open>poll\<close> has still to go through\<close>

record ('c, 'a) config =
  cf_evfd :: int
  cf_listenfd :: int
  cf_timerfd :: int
  cf_sessionfd :: int
  cf_idle :: int                  \<comment> \<open>\<open>idle_timeout_\<close>\<close>
  cf_sendfile :: bool
  cf_https :: bool
  cf_session :: "'a \<Rightarrow> bool"      \<comment> \<open>whether \<open>session_timer_\<close> exists\<close>
  cf_session_timeout :: "timestamp \<Rightarrow> 'a \<Rightarrow> 'a res"   \<comment> \<open>\<open>session_timer_->handleTimeout()\<close>\<close>
  cf_new_conn :: "('c connection \<Rightarrow> 'a \<Rightarrow> 'c connection \<times> 'a) option"
  cf_msg :: "'c connection \<Rightarrow> 'a \<Rightarrow> (bool \<times> 'c connection \<times> 'a) run"
  cf_closed :: "('c connection \<Rightarrow> 'a \<Rightarrow> 'c connection \<times> 'a) option"

record answer =
  an_now :: timestamp
  an_accept :: int                \<comment> \<open>the result of \<open>accept\<close>\<close>
  an_ssl :: int                   \<comment> \<open>the result of \<open>ServerSsl::accept\<close>\<close>

definition put_conn :: "int \<Rightarrow> 'c connection \<Rightarrow> ('c, 'a) net \<Rightarrow> ('c, 'a) net" where
  "put_conn fd c n = n\<lparr>nt_conns := (nt_conns n)(fd := c)\<rparr>"

definition arm :: "int \<Rightarrow> events \<Rightarrow> ('c, 'a) net \<Rightarrow> ('c, 'a) net" where
  \<comment> \<open>\<open>poller_->updateEvent(fd, ev | kConnectionEvent)\<close>\<close>
  "arm fd ev n = n\<lparr>nt_poller := updateEvent fd (ev OR kConnectionEvent) (nt_poller n)\<rparr>"

definition server_new :: "('c, 'a) config \<Rightarrow> 'a \<Rightarrow> ('c, 'a) server" where
  \<comment> \<open>the constructor of \<open>TcpServer\<close> and \<open>start\<close> up to its loop; nobody reads \<open>connfd_\<close> of
      a connection that was not initialized\<close>
  "server_new cfg app =
     \<lparr>sr_net = \<lparr>nt_conns = \<lambda>_. TcpConnection_new 0,
                nt_poller = addEvent (cf_listenfd cfg) (EPOLLIN OR kServerEvent)
                  (addEvent (cf_timerfd cfg) EPOLLIN (addEvent (cf_evfd cfg) (EPOLLIN OR kConnectionEvent) Map.empty)),
                nt_app = app\<rparr>,
      sr_timer = theap_new, sr_pool = pool_new, sr_quit = False, sr_batch = []\<rparr>"


section \<open>Handlers\<close>

definition register_session :: "('c, 'a) config \<Rightarrow> ('c, 'a) net \<Rightarrow> ('c, 'a) net" where
  \<comment> \<open>\<open>createSessionTimer\<close>, called while the message is handled, registers the descriptor of the
      timer it creates; registering it again changes nothing\<close>
  "register_session cfg n =
     (if cf_session cfg (nt_app n) then n\<lparr>nt_poller := addEvent (cf_sessionfd cfg) EPOLLIN (nt_poller n)\<rparr> else n)"

definition unusable :: "'c connection \<Rightarrow> bool" where
  "unusable conn \<longleftrightarrow> disconnected conn \<or> cn_channel conn = None"

definition handleConnectionClose :: "('c, 'a) config \<Rightarrow> int \<Rightarrow> ('c, 'a) net \<Rightarrow> ('c, 'a) net" where
  "handleConnectionClose cfg fd n =
     (let conn = nt_conns n fd
      in if unusable conn then n
         else let conn = setDisconnected True conn;
                  (conn, app) = (case cf_closed cfg of None \<Rightarrow> (conn, nt_app n) | Some cb \<Rightarrow> cb conn (nt_app n));
                  n = n\<lparr>nt_app := app, nt_poller := removeEvent (connfd conn) (nt_poller n)\<rparr>
              in put_conn fd (if cn_channel conn \<noteq> None then setChannel None conn else conn) n)"

definition onWrite :: "('c, 'a) config \<Rightarrow> (int \<times> int) list \<Rightarrow> int \<Rightarrow> ('c, 'a) net \<Rightarrow> (string \<times> ('c, 'a) net) run" where
  \<comment> \<open>with the bytes that reach the peer; \<open>again\<close> is bound to the error code\<close>
  "onWrite cfg os fd n =
     (let conn = nt_conns n fd
      in case cn_channel conn of None \<Rightarrow> Some (Inl NullPointer)
         | Some ch \<Rightarrow> run_bind (writeAgain os ch) (\<lambda>(r, again, cflag, out, ch).
             let conn = setChannel (Some ch) conn; n = put_conn fd conn n
             in if r = 0 \<and> keep_alive conn then Some (Inr (out, arm (connfd conn) (if cflag then EPOLLIN else EPOLLOUT) n))
                else if r < 0 \<and> again \<noteq> 0 then Some (Inr (out, arm (connfd conn) EPOLLOUT n))
                else Some (Inr (out, handleConnectionClose cfg fd n))))"

definition onRead :: "('c, 'a) config \<Rightarrow> (string option \<times> int) list \<Rightarrow> int \<Rightarrow> ('c, 'a) net \<Rightarrow> ('c, 'a) net run" where
  "onRead cfg os fd n =
     (let conn = nt_conns n fd
      in case cn_channel conn of None \<Rightarrow> Some (Inl NullPointer)
         | Some ch \<Rightarrow> run_bind (readAgain os ch) (\<lambda>(r, again, ch).
             let conn = setChannel (Some ch) conn; n = put_conn fd conn n
             in if r \<le> 0 \<and> \<not> again then Some (Inr (handleConnectionClose cfg fd n))
                else if readable (recver ch) = 0 then Some (Inr (arm (connfd conn) EPOLLIN n))
                else run_bind (cf_msg cfg conn (nt_app n)) (\<lambda>(finished, conn, app).
                  let n = register_session cfg (put_conn fd conn (n\<lparr>nt_app := app\<rparr>))
                  in Some (Inr (arm (connfd conn) (if finished then EPOLLOUT else EPOLLIN) n)))))"

definition postpone :: "('c, 'a) config \<Rightarrow> timestamp \<Rightarrow> int \<Rightarrow> int theap \<Rightarrow> int theap res" where
  \<comment> \<open>\<open>alive_timer_->adjust(Timer(fd, nowMsecond(idle_timeout_), nullptr))\<close>\<close>
  "postpone cfg now fd h =
     res_bind (nowMsecond now (cf_idle cfg)) (\<lambda>ts. tq_adjust h \<lparr>tm_fd = fd, tm_ts = ts, tm_cb = None\<rparr>)"

definition handleConnectionRead :: "('c, 'a) config \<Rightarrow> timestamp \<Rightarrow> int \<Rightarrow> ('c, 'a) server \<Rightarrow> ('c, 'a) server res" where
  "handleConnectionRead cfg now fd s =
     (let conn = nt_conns (sr_net s) fd
      in if unusable conn then Inr s
         else res_map (\<lambda>h. s\<lparr>sr_timer := h, sr_pool := pool_add (OnRead fd) (sr_pool s)\<rparr>)
                (postpone cfg now (connfd conn) (sr_timer s)))"

definition handleConnectionWrite :: "('c, 'a) config \<Rightarrow> timestamp \<Rightarrow> int \<Rightarrow> ('c, 'a) server \<Rightarrow> ('c, 'a) server res" where
  "handleConnectionWrite cfg now fd s =
     (let conn = nt_conns (sr_net s) fd
      in if unusable conn then Inr s
         else res_map (\<lambda>h. s\<lparr>sr_timer := h, sr_pool := pool_add (OnWrite fd) (sr_pool s)\<rparr>)
                (postpone cfg now (connfd conn) (sr_timer s)))"

definition handleConnected :: "('c, 'a) config \<Rightarrow> timestamp \<Rightarrow> int \<Rightarrow> channel \<Rightarrow> ('c, 'a) server \<Rightarrow> ('c, 'a) server res" where
  "handleConnected cfg now fd ch s =
     (let n = sr_net s;
          n = put_conn fd (setChannel (Some ch) (conn_initialize fd (nt_conns n fd))) n;
          n = n\<lparr>nt_poller := addEvent fd (EPOLLIN OR kConnectionEvent) (nt_poller n)\<rparr>
      in res_bind (nowMsecond now (cf_idle cfg)) (\<lambda>ts.
         res_map (\<lambda>h. s\<lparr>sr_timer := h,
             sr_net := (case cf_new_conn cfg of None \<Rightarrow> n
               | Some cb \<Rightarrow> (let (conn, app) = cb (nt_conns n fd) (nt_app n) in put_conn fd conn (n\<lparr>nt_app := app\<rparr>)))\<rparr>)
           (tq_add (sr_timer s) \<lparr>tm_fd = fd, tm_ts = ts, tm_cb = Some fd\<rparr>)))"

definition handleServerAccept :: "('c, 'a) config \<Rightarrow> answer \<Rightarrow> ('c, 'a) server \<Rightarrow> ('c, 'a) server res" where
  "handleServerAccept cfg an s =
     (if an_accept an \<le> 0 then Inr s
      else if cf_https cfg \<and> an_ssl an < 1 then Inr s
      else handleConnected cfg (an_now an) (an_accept an)
             (if cf_https cfg then Channel_new Ssl (an_accept an) False else Channel_new Raw (an_accept an) (cf_sendfile cfg)) s)"

definition server_handleTimeout :: "('c, 'a) config \<Rightarrow> timestamp \<Rightarrow> int \<Rightarrow> ('c, 'a) server \<Rightarrow> ('c, 'a) server res" where
  "server_handleTimeout cfg now fd s =
     (if fd = cf_timerfd cfg
      then res_map (\<lambda>(h, n). s\<lparr>sr_timer := h, sr_net := n\<rparr>)
             (handleTimeout (\<lambda>fd n. Inr (handleConnectionClose cfg fd n)) now (sr_timer s) (sr_net s))
      else if cf_session cfg (nt_app (sr_net s)) \<and> fd = cf_sessionfd cfg
      then res_map (\<lambda>app. s\<lparr>sr_net := (sr_net s)\<lparr>nt_app := app\<rparr>\<rparr>) (cf_session_timeout cfg now (nt_app (sr_net s)))
      else Inr s)"

definition handleRead :: "('c, 'a) config \<Rightarrow> answer \<Rightarrow> int \<Rightarrow> ('c, 'a) server \<Rightarrow> ('c, 'a) server res" where
  "handleRead cfg an fd s =
     (if fd = cf_listenfd cfg then handleServerAccept cfg an s
      else if fd = cf_evfd cfg then Inr (s\<lparr>sr_quit := True\<rparr>)
      else if fd = cf_timerfd cfg \<or> cf_session cfg (nt_app (sr_net s)) \<and> fd = cf_sessionfd cfg
      then server_handleTimeout cfg (an_now an) fd s
      else handleConnectionRead cfg (an_now an) fd s)"

definition dispatch :: "('c, 'a) config \<Rightarrow> answer \<Rightarrow> int \<Rightarrow> events \<Rightarrow> ('c, 'a) server \<Rightarrow> ('c, 'a) server res" where
  \<comment> \<open>one turn of the loop of \<open>EPoller::poll\<close>\<close>
  "dispatch cfg an fd revents s =
     (if revents AND (EPOLLERR OR EPOLLRDHUP OR EPOLLHUP) \<noteq> 0
      then Inr (s\<lparr>sr_net := handleConnectionClose cfg fd (sr_net s)\<rparr>)
      else if revents AND EPOLLIN \<noteq> 0 then handleRead cfg an fd s
      else if revents AND EPOLLOUT \<noteq> 0 then handleConnectionWrite cfg (an_now an) fd s
      else Inr s)"

definition wait_events :: "(int \<times> events) list \<Rightarrow> ('c, 'a) server \<Rightarrow> ('c, 'a) server" where
  "wait_events evs s =
     s\<lparr>sr_batch := evs, sr_net := (sr_net s)\<lparr>nt_poller := report (map fst evs) (nt_poller (sr_net s))\<rparr>\<rparr>"

fun poll_events :: "('c, 'a) config \<Rightarrow> answer list \<Rightarrow> ('c, 'a) server \<Rightarrow> ('c, 'a) server res" where
  \<comment> \<open>the loop of \<open>poll\<close>, with the answers the kernel gives during each event\<close>
  "poll_events cfg [] s = Inr s"
| "poll_events cfg (an # ans) s =
     (case sr_batch s of [] \<Rightarrow> Inr s
      | (fd, revents) # evs \<Rightarrow> res_bind (dispatch cfg an fd revents (s\<lparr>sr_batch := evs\<rparr>)) (poll_events cfg ans))"

definition poll :: "('c, 'a) config \<Rightarrow> ((int \<times> events) list \<times> answer list) option \<Rightarrow> ('c, 'a) server \<Rightarrow> (bool \<times> ('c, 'a) server) res" where
  \<comment> \<open>\<open>None\<close>: \<open>epoll_wait\<close> fails\<close>
  "poll cfg r s =
     (case r of None \<Rightarrow> Inr (False, s)
      | Some (evs, ans) \<Rightarrow> res_map (\<lambda>s. (True, s)) (poll_events cfg ans (wait_events evs s)))"

fun run_task :: "('c, 'a) config \<Rightarrow> (string option \<times> int) list \<Rightarrow> (int \<times> int) list \<Rightarrow> task \<Rightarrow> ('c, 'a) net \<Rightarrow> (string \<times> ('c, 'a) net) run" where
  "run_task cfg rs ws (OnRead fd) n = run_bind (onRead cfg rs fd n) (\<lambda>n. Some (Inr ([], n)))"
| "run_task cfg rs ws (OnWrite fd) n = onWrite cfg ws fd n"


section \<open>Runs\<close>

definition live :: "('c, 'a) net \<Rightarrow> int \<Rightarrow> bool" where
  "live n fd \<longleftrightarrow> \<not> unusable (nt_conns n fd)"

definition own_fds :: "('c, 'a) config \<Rightarrow> int set" where
  "own_fds cfg = {cf_evfd cfg, cf_listenfd cfg, cf_timerfd cfg, cf_sessionfd cfg}"

definition all_tasks :: "('c, 'a) server \<Rightarrow> task list" where
  "all_tasks s = tp_tasks (sr_pool s) @ tp_taken (sr_pool s)"

definition tasks_of :: "('c, 'a) server \<Rightarrow> int \<Rightarrow> nat" where
  "tasks_of s fd = length (filter (\<lambda>t. task_fd t = fd) (all_tasks s))"

definition events_of :: "('c, 'a) server \<Rightarrow> int \<Rightarrow> nat" where
  "events_of s fd = length (filter (\<lambda>e. fst e = fd) (sr_batch s))"

definition holders :: "('c, 'a) server \<Rightarrow> int \<Rightarrow> nat" where
  \<comment> \<open>who will look after the connection next: the kernel, a reported event, tasks of the pool\<close>
  "holders s fd = (if armed (nt_poller (sr_net s)) fd then 1 else 0) + events_of s fd + tasks_of s fd"

lemma frame [simp]:
  "tasks_of (s\<lparr>sr_net := n\<rparr>) = tasks_of s" "tasks_of (s\<lparr>sr_timer := h\<rparr>) = tasks_of s" "tasks_of (s\<lparr>sr_quit := q\<rparr>) = tasks_of s"
  "tasks_of (s\<lparr>sr_batch := b\<rparr>) = tasks_of s" "events_of (s\<lparr>sr_net := n\<rparr>) = events_of s" "events_of (s\<lparr>sr_timer := h\<rparr>) = events_of s"
  "events_of (s\<lparr>sr_quit := q\<rparr>) = events_of s" "events_of (s\<lparr>sr_pool := p\<rparr>) = events_of s"
  by (simp_all add: fun_eq_iff tasks_of_def all_tasks_def events_of_def)

lemma holders_frame [simp]: "holders (s\<lparr>sr_timer := h\<rparr>) = holders s" "holders (s\<lparr>sr_quit := q\<rparr>) = holders s"
  by (simp_all add: fun_eq_iff holders_def)

definition reportable :: "(int \<times> events) list \<Rightarrow> ('c, 'a) server \<Rightarrow> bool" where
  \<comment> \<open>what \<open>epoll_wait\<close> can return\<close>
  "reportable evs s \<longleftrightarrow> distinct (map fst evs) \<and>
     (\<forall>(fd, revents) \<in> set evs. armed (nt_poller (sr_net s)) fd \<and> revents AND (EPOLLIN OR EPOLLOUT OR EPOLLERR OR EPOLLRDHUP OR EPOLLHUP) \<noteq> 0)"

definition timely :: "('c, 'a) config \<Rightarrow> timestamp \<Rightarrow> ('c, 'a) server \<Rightarrow> bool" where
  \<comment> \<open>the clock has not gone back: no deadline is later than one set now\<close>
  "timely cfg now s \<longleftrightarrow> th_room (sr_timer s) \<and>
     (\<exists>ts. nowMsecond now (cf_idle cfg) = Inr ts \<and> (\<forall>fd d cb. th_abs (sr_timer s) fd = Some (d, cb) \<longrightarrow> d \<le> ts))"

definition accept_ok :: "('c, 'a) config \<Rightarrow> answer \<Rightarrow> ('c, 'a) server \<Rightarrow> bool" where
  \<comment> \<open>the kernel gives a descriptor that is not in use, and none that was closed during this batch with an
      event still to be dispatched\<close>
  "accept_ok cfg an s \<longleftrightarrow> 0 < an_accept an \<longrightarrow>
     \<not> live (sr_net s) (an_accept an) \<and> an_accept an \<notin> own_fds cfg \<and> events_of s (an_accept an) = 0"

definition timeout_ok :: "answer \<Rightarrow> ('c, 'a) server \<Rightarrow> bool" where
  \<comment> \<open>no connection times out while a task for it is queued or running\<close>
  "timeout_ok an s \<longleftrightarrow> (\<forall>fd d cb. th_abs (sr_timer s) fd = Some (d, cb) \<and> d \<le> an_now an \<longrightarrow> tasks_of s fd = 0)"

definition calm :: "('c, 'a) config \<Rightarrow> answer \<Rightarrow> int \<Rightarrow> ('c, 'a) server \<Rightarrow> bool" where
  "calm cfg an fd s \<longleftrightarrow> timely cfg (an_now an) s \<and> (fd = cf_listenfd cfg \<longrightarrow> accept_ok cfg an s) \<and>
     (fd = cf_timerfd cfg \<longrightarrow> timeout_ok an s)"

inductive srv_step :: "('c, 'a) config \<Rightarrow> ('c, 'a) server \<Rightarrow> ('c, 'a) server \<Rightarrow> bool" for cfg where
  step_wait: "\<not> sr_quit s \<Longrightarrow> sr_batch s = [] \<Longrightarrow> reportable evs s \<Longrightarrow> srv_step cfg s (wait_events evs s)"
| step_event: "sr_batch s = (fd, revents) # evs \<Longrightarrow> calm cfg an fd (s\<lparr>sr_batch := evs\<rparr>) \<Longrightarrow>
     dispatch cfg an fd revents (s\<lparr>sr_batch := evs\<rparr>) = Inr s' \<Longrightarrow> srv_step cfg s s'"
| step_take: "pool_take (sr_pool s) = Some p \<Longrightarrow> srv_step cfg s (s\<lparr>sr_pool := p\<rparr>)"
| step_task: "t \<in> set (tp_taken (sr_pool s)) \<Longrightarrow> run_task cfg rs ws t (sr_net s) = Some (Inr (out, n)) \<Longrightarrow>
     srv_step cfg s (s\<lparr>sr_pool := (sr_pool s)\<lparr>tp_taken := remove1 t (tp_taken (sr_pool s))\<rparr>, sr_net := n\<rparr>)"

inductive reachable :: "('c, 'a) config \<Rightarrow> 'a \<Rightarrow> ('c, 'a) server \<Rightarrow> bool" for cfg app where
  reachable_start: "reachable cfg app (server_new cfg app)"
| reachable_step: "reachable cfg app s \<Longrightarrow> srv_step cfg s s' \<Longrightarrow> reachable cfg app s'"

definition oneshot :: "poller \<Rightarrow> int \<Rightarrow> bool" where
  "oneshot p fd \<longleftrightarrow> (case p fd of Some (ev, on) \<Rightarrow> ev AND EPOLLONESHOT \<noteq> 0 | None \<Rightarrow> False)"

definition fd_ok :: "('c, 'a) config \<Rightarrow> nat \<Rightarrow> ('c, 'a) server \<Rightarrow> int \<Rightarrow> bool" where
  "fd_ok cfg h s fd \<longleftrightarrow>
     (if live (sr_net s) fd
      then fd \<notin> own_fds cfg \<and> connfd (nt_conns (sr_net s) fd) = fd \<and> holders s fd = h \<and>
        oneshot (nt_poller (sr_net s)) fd \<and>
        (\<exists>d. th_abs (sr_timer s) fd = Some (d, Some fd))
      else tasks_of s fd = 0 \<and> (fd \<notin> own_fds cfg \<longrightarrow> nt_poller (sr_net s) fd = None))"

definition inv_with :: "('c, 'a) config \<Rightarrow> (int \<Rightarrow> nat) \<Rightarrow> ('c, 'a) server \<Rightarrow> bool" where
  \<comment> \<open>\<open>hs\<close>: the number of holders of each connection\<close>
  "inv_with cfg hs s \<longleftrightarrow> theap_inv (sr_timer s) \<and> tp_running (sr_pool s) \<and>
     (\<forall>fd d cb. th_abs (sr_timer s) fd = Some (d, cb) \<longrightarrow> cb = Some fd) \<and>
     (\<forall>(fd, revents) \<in> set (sr_batch s). revents AND (EPOLLIN OR EPOLLOUT OR EPOLLERR OR EPOLLRDHUP OR EPOLLHUP) \<noteq> 0) \<and>
     (\<forall>fd. fd_ok cfg (hs fd) s fd)"

definition server_inv :: "('c, 'a) config \<Rightarrow> ('c, 'a) server \<Rightarrow> bool" where
  "server_inv cfg s \<longleftrightarrow> inv_with cfg (\<lambda>_. 1) s"

lemma th_abs_new [simp]: "th_abs theap_new = Map.empty"
  by (simp add: th_abs_def theap_new_def timer_map_def)

lemma server_inv_new: "server_inv cfg (server_new cfg app)"
  by (auto simp: server_inv_def inv_with_def server_new_def fd_ok_def live_def unusable_def TcpConnection_new_def pool_new_def
      tasks_of_def all_tasks_def own_fds_def addEvent_def split: option.splits if_splits)

lemma inv_withD:
  assumes "inv_with cfg hs s"
  shows "theap_inv (sr_timer s)" "tp_running (sr_pool s)" "th_abs (sr_timer s) fd = Some (d, cb) \<Longrightarrow> cb = Some fd"
    "fd_ok cfg (hs fd) s fd"
  using assms by (auto simp: inv_with_def)

lemma inv_with_live:
  assumes "inv_with cfg hs s" and "live (sr_net s) fd"
  shows "fd \<notin> own_fds cfg" "connfd (nt_conns (sr_net s) fd) = fd" "holders s fd = hs fd"
    "oneshot (nt_poller (sr_net s)) fd"
    "\<exists>d. th_abs (sr_timer s) fd = Some (d, Some fd)"
  using inv_withD(4) [OF assms(1), of fd] assms(2) by (simp_all add: fd_ok_def)

lemma inv_with_dead:
  assumes "inv_with cfg hs s" and "\<not> live (sr_net s) fd"
  shows "tasks_of s fd = 0" "fd \<notin> own_fds cfg \<Longrightarrow> nt_poller (sr_net s) fd = None" "inv_with cfg (hs(fd := h)) s"
proof -
  have ok: "fd_ok cfg (hs k) s k" for k using assms(1) by (rule inv_withD)
  show "tasks_of s fd = 0" "fd \<notin> own_fds cfg \<Longrightarrow> nt_poller (sr_net s) fd = None"
    using ok [of fd] assms(2) by (simp_all add: fd_ok_def)
  have "fd_ok cfg ((hs(fd := h)) k) s k" for k using ok [of k] assms(2) by (auto simp: fd_ok_def)
  then show "inv_with cfg (hs(fd := h)) s" using assms(1) by (simp add: inv_with_def)
qed

lemma wait_inv:
  assumes "server_inv cfg s" and "sr_batch s = []" and "reportable evs s"
  shows "server_inv cfg (wait_events evs s)"
proof -
  have one: "length (filter (\<lambda>e. fst e = fd) evs) = (if fd \<in> fst ` set evs then 1 else 0)" for fd
  proof -
    have "distinct (map fst evs)" using assms(3) by (simp add: reportable_def)
    then show ?thesis by (induction evs) auto
  qed
  have arm: "armed (nt_poller (sr_net s)) fd" if "fd \<in> fst ` set evs" for fd using assms(3) that by (auto simp: reportable_def)
  have "fd_ok cfg 1 (wait_events evs s) fd" for fd
  proof -
    have ok: "fd_ok cfg 1 s fd" and none: "events_of s fd = 0" using assms(1,2) by (auto simp: server_inv_def inv_with_def events_of_def)
    then show ?thesis using arm [of fd] one [of fd]
      by (auto simp: fd_ok_def live_def wait_events_def holders_def events_of_def tasks_of_def all_tasks_def armed_def report_def oneshot_def
          split: option.splits if_splits)
  qed
  then show ?thesis using assms(1,3) by (auto simp: server_inv_def inv_with_def wait_events_def reportable_def)
qed

lemma take_inv:
  assumes "server_inv cfg s" and "pool_take (sr_pool s) = Some p"
  shows "server_inv cfg (s\<lparr>sr_pool := p\<rparr>)"
proof -
  have t: "tasks_of (s\<lparr>sr_pool := p\<rparr>) fd = tasks_of s fd" for fd
    using assms(2) by (auto simp: pool_take_def tasks_of_def all_tasks_def split: list.splits)
  have "fd_ok cfg h (s\<lparr>sr_pool := p\<rparr>) fd = fd_ok cfg h s fd" for fd h
    unfolding fd_ok_def holders_def t by (simp add: events_of_def)
  then show ?thesis using assms by (auto simp: server_inv_def inv_with_def pool_take_def split: list.splits)
qed

text \<open>Taking an event from the batch, or a finished task from the pool, leaves its connection without a holder.\<close>

lemma next_event:
  assumes "server_inv cfg s" and "sr_batch s = (fd, revents) # evs"
  shows "inv_with cfg ((\<lambda>_. 1)(fd := 0)) (s\<lparr>sr_batch := evs\<rparr>)" "tasks_of (s\<lparr>sr_batch := evs\<rparr>) fd = 0"
    "revents AND (EPOLLIN OR EPOLLOUT OR EPOLLERR OR EPOLLRDHUP OR EPOLLHUP) \<noteq> 0"
proof -
  have ok: "fd_ok cfg 1 s k" for k using assms(1) by (simp add: server_inv_def inv_with_def)
  have t: "tasks_of (s\<lparr>sr_batch := evs\<rparr>) k = tasks_of s k" for k by (simp add: tasks_of_def all_tasks_def)
  have e: "events_of s k = events_of (s\<lparr>sr_batch := evs\<rparr>) k + (if k = fd then 1 else 0)" for k
    using assms(2) by (simp add: events_of_def)
  show "tasks_of (s\<lparr>sr_batch := evs\<rparr>) fd = 0"
    using ok [of fd] e [of fd] t [of fd] by (auto simp: fd_ok_def holders_def split: if_splits)
  have "fd_ok cfg (((\<lambda>_. 1)(fd := 0)) k) (s\<lparr>sr_batch := evs\<rparr>) k" for k
    using ok [of k] e [of k] t [of k] by (auto simp: fd_ok_def holders_def split: if_splits)
  then show "inv_with cfg ((\<lambda>_. 1)(fd := 0)) (s\<lparr>sr_batch := evs\<rparr>)"
    using assms by (simp add: server_inv_def inv_with_def)
  show "revents AND (EPOLLIN OR EPOLLOUT OR EPOLLERR OR EPOLLRDHUP OR EPOLLHUP) \<noteq> 0"
    using assms by (simp add: server_inv_def inv_with_def)
qed

lemma task_done:
  assumes "server_inv cfg s" and "t \<in> set (tp_taken (sr_pool s))"
    and "s' = s\<lparr>sr_pool := (sr_pool s)\<lparr>tp_taken := remove1 t (tp_taken (sr_pool s))\<rparr>\<rparr>"
  shows "inv_with cfg ((\<lambda>_. 1)(task_fd t := 0)) s'" "tasks_of s' (task_fd t) = 0" "live (sr_net s) (task_fd t)"
proof -
  have ok: "fd_ok cfg 1 s k" for k using assms(1) by (simp add: server_inv_def inv_with_def)
  have r: "length (filter P xs) = length (filter P (remove1 x xs)) + (if P x then 1 else 0)" if "x \<in> set xs" for P and x :: task and xs
    using that by (induction xs) auto
  have t: "tasks_of s k = tasks_of s' k + (if k = task_fd t then 1 else 0)" for k
    using r [OF assms(2), of "\<lambda>x. task_fd x = k"] by (auto simp: tasks_of_def all_tasks_def assms(3))
  then have one: "tasks_of s (task_fd t) \<noteq> 0" by simp
  show live: "live (sr_net s) (task_fd t)" using ok [of "task_fd t"] one by (auto simp: fd_ok_def split: if_splits)
  have same: "sr_net s' = sr_net s" "sr_timer s' = sr_timer s" "events_of s' k = events_of s k" for k
    by (simp_all add: assms(3) events_of_def)
  show "tasks_of s' (task_fd t) = 0"
    using ok [of "task_fd t"] live t [of "task_fd t"] by (auto simp: fd_ok_def holders_def split: if_splits)
  have "fd_ok cfg (((\<lambda>_. 1)(task_fd t := 0)) k) s' k" for k
    using ok [of k] t [of k] live by (auto simp: fd_ok_def holders_def same split: if_splits)
  then show "inv_with cfg ((\<lambda>_. 1)(task_fd t := 0)) s'"
    using assms(1) by (simp add: server_inv_def inv_with_def same) (simp add: assms(3))
qed


text \<open>Giving a connection to the pool.\<close>

lemma pool_add_inv:
  assumes "inv_with cfg hs s" and "hs (task_fd t) = 0" and "live (sr_net s) (task_fd t)"
    and "theap_inv h" and "th_abs h = (th_abs (sr_timer s))(task_fd t \<mapsto> (d, Some (task_fd t)))"
  shows "inv_with cfg (hs(task_fd t := 1)) (s\<lparr>sr_timer := h, sr_pool := pool_add t (sr_pool s)\<rparr>)"
proof -
  let ?s = "s\<lparr>sr_timer := h, sr_pool := pool_add t (sr_pool s)\<rparr>"
  have run: "tp_running (sr_pool s)" using assms(1) by (rule inv_withD)
  have t: "tasks_of ?s k = tasks_of s k + (if k = task_fd t then 1 else 0)" for k
    using run by (simp add: tasks_of_def all_tasks_def pool_add_def)
  have e: "events_of ?s k = events_of s k" for k by (simp add: events_of_def)
  have "fd_ok cfg ((hs(task_fd t := 1)) k) ?s k" for k
    using inv_withD(4) [OF assms(1), of k] assms(2,3) t [of k] e [of k] assms(5) by (auto simp: fd_ok_def holders_def)
  then show ?thesis using assms(1,4,5) by (auto simp: inv_with_def pool_add_def)
qed

text \<open>Changing the network state at one connection.\<close>

definition only_at :: "int \<Rightarrow> ('c, 'a) config \<Rightarrow> ('c, 'a) net \<Rightarrow> ('c, 'a) net \<Rightarrow> bool" where
  "only_at fd cfg n n' \<longleftrightarrow> (\<forall>k. k \<noteq> fd \<longrightarrow> nt_conns n' k = nt_conns n k) \<and>
     (\<forall>k. k \<noteq> fd \<longrightarrow> k \<notin> own_fds cfg \<longrightarrow> nt_poller n' k = nt_poller n k)"

lemma only_at_inv:
  assumes "inv_with cfg hs s" and "only_at fd cfg (sr_net s) n" and "fd_ok cfg h (s\<lparr>sr_net := n\<rparr>) fd"
  shows "inv_with cfg (hs(fd := h)) (s\<lparr>sr_net := n\<rparr>)"
proof -
  have "fd_ok cfg (hs k) (s\<lparr>sr_net := n\<rparr>) k" if "k \<noteq> fd" for k
  proof -
    have l: "live n k = live (sr_net s) k" "nt_conns n k = nt_conns (sr_net s) k" using assms(2) that by (simp_all add: only_at_def live_def)
    have p: "k \<notin> own_fds cfg \<Longrightarrow> nt_poller n k = nt_poller (sr_net s) k" using assms(2) that by (simp add: only_at_def)
    show ?thesis using inv_withD(4) [OF assms(1), of k] l p
      by (auto simp: fd_ok_def holders_def armed_def oneshot_def)
  qed
  then show ?thesis using assms(1,3) by (auto simp: inv_with_def)
qed

lemma arm_inv:
  assumes "inv_with cfg hs s" and "hs fd = 0" and "live (sr_net s) fd" and "only_at fd cfg (sr_net s) n"
    and "nt_poller n fd = nt_poller (sr_net s) fd" and "live n fd" and "connfd (nt_conns n fd) = fd"
  shows "inv_with cfg (hs(fd := 1)) (s\<lparr>sr_net := arm fd ev n\<rparr>)"
proof (rule only_at_inv [OF assms(1)])
  note l = inv_with_live [OF assms(1,3)]
  have e: "events_of s fd = 0" "tasks_of s fd = 0" using l(3) assms(2) by (simp_all add: holders_def)
  have flag: "(ev OR kConnectionEvent) AND EPOLLONESHOT = EPOLLONESHOT"
  proof -
    have "kConnectionEvent AND EPOLLONESHOT = EPOLLONESHOT" by (simp add: kConnectionEvent_def)
    then have "(ev OR kConnectionEvent) AND EPOLLONESHOT = (ev AND EPOLLONESHOT) OR EPOLLONESHOT" by (simp add: bit.conj_disj_distrib2)
    then show ?thesis by (simp add: or.commute)
  qed
  from l(4) assms(5) obtain x where x: "nt_poller n fd = Some x" by (auto simp: oneshot_def split: option.splits)
  show "only_at fd cfg (sr_net s) (arm fd ev n)" using assms(4) by (simp add: only_at_def arm_def updateEvent_def split: option.split)
  show "fd_ok cfg 1 (s\<lparr>sr_net := arm fd ev n\<rparr>) fd"
    using l e flag x assms(6,7)
    by (simp add: fd_ok_def holders_def live_def arm_def updateEvent_def armed_def oneshot_def)
qed


section \<open>What the callbacks must leave alone\<close>

locale tcp_callbacks =
  fixes cfg :: "('c, 'a) config"
  assumes msg_keeps: "\<And>conn app finished conn' app'. cf_msg cfg conn app = Some (Inr (finished, conn', app')) \<Longrightarrow> \<not> unusable conn \<Longrightarrow>
      \<not> unusable conn' \<and> connfd conn' = connfd conn"
    and new_keeps: "\<And>cb conn app. cf_new_conn cfg = Some cb \<Longrightarrow> \<not> unusable conn \<Longrightarrow>
      \<not> unusable (fst (cb conn app)) \<and> connfd (fst (cb conn app)) = connfd conn"
    and closed_keeps: "\<And>cb conn app. cf_closed cfg = Some cb \<Longrightarrow> disconnected conn \<Longrightarrow>
      disconnected (fst (cb conn app)) \<and> connfd (fst (cb conn app)) = connfd conn"
begin

lemma close_dead: "\<not> live n fd \<Longrightarrow> handleConnectionClose cfg fd n = n"
  by (simp add: handleConnectionClose_def live_def Let_def)

lemma close_live:
  assumes "live n fd" and "connfd (nt_conns n fd) = fd"
  shows "\<not> live (handleConnectionClose cfg fd n) fd" "nt_poller (handleConnectionClose cfg fd n) = (nt_poller n)(fd := None)"
    "k \<noteq> fd \<Longrightarrow> nt_conns (handleConnectionClose cfg fd n) k = nt_conns n k"
proof -
  let ?c = "setDisconnected True (nt_conns n fd)"
  obtain c app where c: "(case cf_closed cfg of None \<Rightarrow> (?c, nt_app n) | Some cb \<Rightarrow> cb ?c (nt_app n)) = (c, app)" by force
  have "disconnected ?c" "connfd ?c = fd" using assms(2) by (simp_all add: setDisconnected_def)
  then have d: "disconnected c" "connfd c = fd"
    using c closed_keeps [of _ ?c "nt_app n"] by (auto split: option.splits)
  have "handleConnectionClose cfg fd n =
     put_conn fd (if cn_channel c \<noteq> None then setChannel None c else c) (n\<lparr>nt_app := app, nt_poller := removeEvent fd (nt_poller n)\<rparr>)"
    using assms(1) c d by (simp add: handleConnectionClose_def live_def Let_def)
  then show "\<not> live (handleConnectionClose cfg fd n) fd" "nt_poller (handleConnectionClose cfg fd n) = (nt_poller n)(fd := None)"
    "k \<noteq> fd \<Longrightarrow> nt_conns (handleConnectionClose cfg fd n) k = nt_conns n k"
    using d by (simp_all add: put_conn_def live_def unusable_def removeEvent_def setChannel_def)
qed

lemma close_inv:
  assumes "inv_with cfg hs s" and "tasks_of s fd = 0"
  shows "inv_with cfg (hs(fd := h)) (s\<lparr>sr_net := handleConnectionClose cfg fd (sr_net s)\<rparr>)"
proof (cases "live (sr_net s) fd")
  case True
  note c = close_live [OF True inv_with_live(2) [OF assms(1) True]]
  show ?thesis
  proof (rule only_at_inv [OF assms(1)])
    show "only_at fd cfg (sr_net s) (handleConnectionClose cfg fd (sr_net s))" using c by (simp add: only_at_def)
    show "fd_ok cfg h (s\<lparr>sr_net := handleConnectionClose cfg fd (sr_net s)\<rparr>) fd"
      using c assms(2) by (simp add: fd_ok_def)
  qed
next
  case False
  then show ?thesis using inv_with_dead(3) [OF assms(1) False] by (simp add: close_dead)
qed

lemma close_all:
  assumes "inv_with cfg hs s" and "\<forall>fd \<in> set fds. tasks_of s fd = 0"
  shows "inv_with cfg hs (s\<lparr>sr_net := fold (handleConnectionClose cfg) fds (sr_net s)\<rparr>) \<and>
     (\<forall>k. live (fold (handleConnectionClose cfg) fds (sr_net s)) k \<longleftrightarrow> live (sr_net s) k \<and> k \<notin> set fds)"
  using assms
proof (induction fds arbitrary: s)
  case (Cons fd fds)
  let ?s = "s\<lparr>sr_net := handleConnectionClose cfg fd (sr_net s)\<rparr>"
  have i: "inv_with cfg hs ?s" using close_inv [OF Cons.prems(1), of fd "hs fd"] Cons.prems(2) by simp
  have t: "\<forall>k \<in> set fds. tasks_of ?s k = 0" using Cons.prems(2) by (simp add: tasks_of_def all_tasks_def)
  have "live (handleConnectionClose cfg fd (sr_net s)) k \<longleftrightarrow> live (sr_net s) k \<and> k \<noteq> fd" for k
  proof (cases "live (sr_net s) fd")
    case True
    from close_live [OF True inv_with_live(2) [OF Cons.prems(1) True]] show ?thesis by (cases "k = fd") (simp_all add: live_def)
  next
    case False
    then show ?thesis by (auto simp: close_dead)
  qed
  then show ?case using Cons.IH [OF i t] by auto
qed simp

lemma timeout_spec:
  assumes "inv_with cfg hs s" and "timeout_ok an s"
  shows "\<exists>s'. server_handleTimeout cfg (an_now an) (cf_timerfd cfg) s = Inr s' \<and> inv_with cfg hs s' \<and>
     (\<forall>fd. live (sr_net s') fd \<longleftrightarrow> live (sr_net s) fd \<and> \<not> (\<exists>d cb. th_abs (sr_timer s) fd = Some (d, cb) \<and> d \<le> an_now an))"
proof -
  let ?h = "sr_timer s" and ?close = "handleConnectionClose cfg"
  have inv: "theap_inv ?h" and cb: "\<And>fd d cb. th_abs ?h fd = Some (d, cb) \<Longrightarrow> cb = Some fd" using inv_withD [OF assms(1)] by blast+
  have "\<forall>k ts. th_abs ?h k \<noteq> Some (ts, None)" using cb by blast
  from handleTimeout_spec [OF inv this, where run = "\<lambda>fd n. Inr (?close fd n)" and eff = ?close and now = "an_now an" and s = "sr_net s"]
  obtain fired :: "int timer list" and h' where
    f: "handleTimeout (\<lambda>fd n. Inr (?close fd n)) (an_now an) ?h (sr_net s) = Inr (h', fold ?close (map (\<lambda>t. the (tm_cb t)) fired) (sr_net s))"
    and h': "theap_inv h'" "th_abs h' = (\<lambda>k. case th_abs ?h k of Some (d, cb) \<Rightarrow> if d \<le> an_now an then None else Some (d, cb) | None \<Rightarrow> None)"
    and due: "tm_fd ` set fired = {k. \<exists>d cb. th_abs ?h k = Some (d, cb) \<and> d \<le> an_now an}"
      "\<forall>t\<in>set fired. th_abs ?h (tm_fd t) = Some (tm_ts t, tm_cb t)" by blast
  let ?fds = "map (\<lambda>t. the (tm_cb t)) fired"
  have fds: "set ?fds = {k. \<exists>d cb. th_abs ?h k = Some (d, cb) \<and> d \<le> an_now an}"
  proof -
    have "the (tm_cb t) = tm_fd t" if "t \<in> set fired" for t using due(2) cb that by (metis option.sel)
    then have "(\<lambda>t. the (tm_cb t)) ` set fired = tm_fd ` set fired" by (rule image_cong [OF refl])
    then show ?thesis using due(1) by simp
  qed
  have idle: "\<forall>fd \<in> set ?fds. tasks_of s fd = 0" using assms(2) fds by (auto simp: timeout_ok_def)
  let ?n = "fold ?close ?fds (sr_net s)"
  note c = close_all [OF assms(1) idle]
  have "fd_ok cfg (hs k) (s\<lparr>sr_timer := h', sr_net := ?n\<rparr>) k" for k
  proof -
    have "fd_ok cfg (hs k) (s\<lparr>sr_net := ?n\<rparr>) k" using c inv_withD(4) by blast
    moreover have "th_abs h' k = th_abs ?h k" if "live ?n k"
    proof -
      have "k \<notin> set ?fds" using c that by blast
      then show ?thesis unfolding fds h'(2) by (auto split: option.splits)
    qed
    ultimately show ?thesis
      by (simp add: fd_ok_def holders_def split: if_splits)
  qed
  then have "inv_with cfg hs (s\<lparr>sr_timer := h', sr_net := ?n\<rparr>)"
    using assms(1) cb h' by (auto simp: inv_with_def split: option.splits if_splits)
  moreover have "server_handleTimeout cfg (an_now an) (cf_timerfd cfg) s = Inr (s\<lparr>sr_timer := h', sr_net := ?n\<rparr>)"
    unfolding server_handleTimeout_def using f by simp
  ultimately show ?thesis using c fds by auto
qed

lemma accept_inv:
  assumes "inv_with cfg hs s" and "timely cfg (an_now an) s" and "accept_ok cfg an s" and "hs (an_accept an) = 1"
  shows "\<exists>s'. handleServerAccept cfg an s = Inr s' \<and> inv_with cfg hs s'"
proof (cases "an_accept an \<le> 0 \<or> cf_https cfg \<and> an_ssl an < 1")
  case True
  then show ?thesis using assms(1) by (auto simp: handleServerAccept_def)
next
  case False
  let ?fd = "an_accept an"
  define ch where "ch = (if cf_https cfg then Channel_new Ssl ?fd False else Channel_new Raw ?fd (cf_sendfile cfg))"
  have ok: "\<not> live (sr_net s) ?fd" "?fd \<notin> own_fds cfg" "events_of s ?fd = 0" using assms(3) False by (auto simp: accept_ok_def)
  note dead = inv_with_dead [OF assms(1) ok(1)]
  let ?n = "put_conn ?fd (setChannel (Some ch) (conn_initialize ?fd (nt_conns (sr_net s) ?fd))) (sr_net s)"
  let ?m = "?n\<lparr>nt_poller := addEvent ?fd (EPOLLIN OR kConnectionEvent) (nt_poller ?n)\<rparr>"
  define n where "n = (case cf_new_conn cfg of None \<Rightarrow> ?m
      | Some cb \<Rightarrow> (let (conn, app) = cb (nt_conns ?m ?fd) (nt_app ?m) in put_conn ?fd conn (?m\<lparr>nt_app := app\<rparr>)))"
  have p: "nt_poller n = (nt_poller (sr_net s))(?fd \<mapsto> (EPOLLIN OR kConnectionEvent, True))"
    using dead(2) [OF ok(2)] by (auto simp: n_def put_conn_def addEvent_def split: option.split prod.split)
  have u: "\<not> unusable (nt_conns ?m ?fd)" "connfd (nt_conns ?m ?fd) = ?fd"
    by (simp_all add: put_conn_def unusable_def setChannel_def conn_initialize_def)
  then have l: "live n ?fd" "connfd (nt_conns n ?fd) = ?fd"
    using new_keeps [of _ "nt_conns ?m ?fd" "nt_app ?m"]
    by (auto simp: n_def live_def put_conn_def split: option.split prod.split)
  have only: "only_at ?fd cfg (sr_net s) n"
    using p by (auto simp: only_at_def n_def put_conn_def split: option.split prod.split)
  from assms(2) obtain ts where ts: "nowMsecond (an_now an) (cf_idle cfg) = Inr ts" "th_room (sr_timer s)" by (auto simp: timely_def)
  from push_ok [OF inv_withD(1) [OF assms(1)] ts(2), of "\<lparr>tm_fd = ?fd, tm_ts = ts, tm_cb = Some ?fd\<rparr>"] obtain h where
    h: "tq_add (sr_timer s) \<lparr>tm_fd = ?fd, tm_ts = ts, tm_cb = Some ?fd\<rparr> = Inr h" "theap_inv h"
      "th_abs h = (th_abs (sr_timer s))(?fd \<mapsto> (ts, Some ?fd))" by (auto simp: tq_add_def)
  have r: "handleServerAccept cfg an s = Inr (s\<lparr>sr_timer := h, sr_net := n\<rparr>)"
    using False ts(1) h(1) unfolding handleServerAccept_def handleConnected_def n_def ch_def Let_def by simp
  have i: "inv_with cfg hs (s\<lparr>sr_timer := h\<rparr>)"
  proof -
    have "fd_ok cfg (hs k) (s\<lparr>sr_timer := h\<rparr>) k" for k
      using inv_withD(4) [OF assms(1), of k] h(3) by (auto simp: fd_ok_def holders_def)
    then show ?thesis using assms(1) h by (auto simp: inv_with_def)
  qed
  have "inv_with cfg (hs(?fd := 1)) (s\<lparr>sr_timer := h, sr_net := n\<rparr>)"
  proof -
    have "kConnectionEvent AND EPOLLONESHOT \<noteq> 0" by (simp add: kConnectionEvent_def)
    then have "fd_ok cfg 1 (s\<lparr>sr_timer := h, sr_net := n\<rparr>) ?fd"
      using l p ok dead(1) h(3)
      by (simp add: fd_ok_def holders_def armed_def oneshot_def kConnectionEvent_def)
    then show ?thesis using only_at_inv [OF i, of ?fd n 1] only by simp
  qed
  moreover have "hs(?fd := 1) = hs" using assms(4) by auto
  ultimately show ?thesis using r by auto
qed

lemma postpone_ok:
  assumes "inv_with cfg hs s" and "timely cfg now s" and "live (sr_net s) fd"
  shows "\<exists>h d. postpone cfg now fd (sr_timer s) = Inr h \<and> theap_inv h \<and> th_abs h = (th_abs (sr_timer s))(fd \<mapsto> (d, Some fd))"
proof -
  from assms(2) obtain ts where ts: "nowMsecond now (cf_idle cfg) = Inr ts"
    "\<And>fd d cb. th_abs (sr_timer s) fd = Some (d, cb) \<Longrightarrow> d \<le> ts" by (auto simp: timely_def)
  from inv_with_live(5) [OF assms(1,3)] obtain d where d: "th_abs (sr_timer s) fd = Some (d, Some fd)" by blast
  from adjust_ok [OF inv_withD(1) [OF assms(1)], of "\<lparr>tm_fd = fd, tm_ts = ts, tm_cb = None\<rparr>"] d ts(2) [OF d]
  show ?thesis using ts(1) by (auto simp: postpone_def tq_adjust_def)
qed

lemma to_pool_inv:
  assumes "inv_with cfg hs s" and "hs fd = 0" and "timely cfg now s"
  shows "\<exists>s'. handleConnectionRead cfg now fd s = Inr s' \<and> inv_with cfg (hs(fd := 1)) s'"
    "\<exists>s'. handleConnectionWrite cfg now fd s = Inr s' \<and> inv_with cfg (hs(fd := 1)) s'"
proof -
  have "(\<exists>s'. handleConnectionRead cfg now fd s = Inr s' \<and> inv_with cfg (hs(fd := 1)) s') \<and>
    (\<exists>s'. handleConnectionWrite cfg now fd s = Inr s' \<and> inv_with cfg (hs(fd := 1)) s')"
  proof (cases "live (sr_net s) fd")
    case True
    from postpone_ok [OF assms(1,3) True] obtain h d where
      h: "postpone cfg now fd (sr_timer s) = Inr h" "theap_inv h" "th_abs h = (th_abs (sr_timer s))(fd \<mapsto> (d, Some fd))" by blast
    have "connfd (nt_conns (sr_net s) fd) = fd" "\<not> unusable (nt_conns (sr_net s) fd)"
      using inv_with_live(2) [OF assms(1) True] True by (simp_all add: live_def)
    moreover note pool_add_inv [OF assms(1), of "OnRead fd" h d] pool_add_inv [OF assms(1), of "OnWrite fd" h d]
    ultimately show ?thesis using h assms(2) True
      by (simp add: handleConnectionRead_def handleConnectionWrite_def Let_def)
  next
    case False
    then show ?thesis using inv_with_dead(3) [OF assms(1) False]
      by (simp add: handleConnectionRead_def handleConnectionWrite_def live_def Let_def)
  qed
  then show "\<exists>s'. handleConnectionRead cfg now fd s = Inr s' \<and> inv_with cfg (hs(fd := 1)) s'"
    "\<exists>s'. handleConnectionWrite cfg now fd s = Inr s' \<and> inv_with cfg (hs(fd := 1)) s'" by blast+
qed

lemma own_inv:
  assumes "inv_with cfg hs s" and "timely cfg (an_now an) s" and "fd = cf_listenfd cfg \<longrightarrow> accept_ok cfg an s"
    and "fd = cf_timerfd cfg \<longrightarrow> timeout_ok an s" and "\<forall>k. hs k = 1"
    and "fd = cf_listenfd cfg \<or> fd = cf_evfd cfg \<or> fd = cf_timerfd cfg \<or> cf_session cfg (nt_app (sr_net s)) \<and> fd = cf_sessionfd cfg"
  shows "(\<exists>s'. handleRead cfg an fd s = Inr s' \<and> inv_with cfg hs s') \<or>
     (\<exists>e. handleRead cfg an fd s = Inl e \<and> cf_session_timeout cfg (an_now an) (nt_app (sr_net s)) = Inl e \<and> fd = cf_sessionfd cfg)"
proof -
  consider (l) "fd = cf_listenfd cfg" | (e) "fd \<noteq> cf_listenfd cfg" "fd = cf_evfd cfg"
    | (t) "fd \<noteq> cf_listenfd cfg" "fd \<noteq> cf_evfd cfg" "fd = cf_timerfd cfg"
    | (s) "fd \<noteq> cf_listenfd cfg" "fd \<noteq> cf_evfd cfg" "fd \<noteq> cf_timerfd cfg" "cf_session cfg (nt_app (sr_net s))" "fd = cf_sessionfd cfg"
    using assms(6) by blast
  then show ?thesis
  proof cases
    case l
    then show ?thesis using accept_inv [OF assms(1,2)] assms(3,5) by (simp add: handleRead_def)
  next
    case e
    have "inv_with cfg hs (s\<lparr>sr_quit := True\<rparr>)"
      using assms(1) by (simp add: inv_with_def fd_ok_def)
    then show ?thesis using e by (simp add: handleRead_def)
  next
    case t
    from timeout_spec [OF assms(1)] assms(4) t(3) obtain s' where
      "server_handleTimeout cfg (an_now an) fd s = Inr s'" "inv_with cfg hs s'" by blast
    then show ?thesis using t by (simp add: handleRead_def)
  next
    case s
    have "inv_with cfg (hs(fd := hs fd)) (s\<lparr>sr_net := (sr_net s)\<lparr>nt_app := app\<rparr>\<rparr>)" for app
      using inv_withD(4) [OF assms(1), of fd]
      by (intro only_at_inv [OF assms(1)]) (auto simp: only_at_def fd_ok_def holders_def live_def split: if_splits)
    then show ?thesis using s
      by (cases "cf_session_timeout cfg (an_now an) (nt_app (sr_net s))") (auto simp: handleRead_def server_handleTimeout_def)
  qed
qed

lemma dispatch_inv:
  assumes "server_inv cfg s" and "sr_batch s = (fd, revents) # evs" and "calm cfg an fd (s\<lparr>sr_batch := evs\<rparr>)"
  shows "(\<exists>s'. dispatch cfg an fd revents (s\<lparr>sr_batch := evs\<rparr>) = Inr s' \<and> server_inv cfg s') \<or>
     (\<exists>e. dispatch cfg an fd revents (s\<lparr>sr_batch := evs\<rparr>) = Inl e \<and> cf_session_timeout cfg (an_now an) (nt_app (sr_net s)) = Inl e \<and> fd = cf_sessionfd cfg)"
proof -
  let ?s = "s\<lparr>sr_batch := evs\<rparr>" and ?hs = "(\<lambda>_. 1)(fd := 0)"
  note n = next_event [OF assms(1,2)]
  have hs: "?hs(fd := 1) = (\<lambda>_. 1)" by auto
  have calm: "timely cfg (an_now an) ?s" "fd = cf_listenfd cfg \<longrightarrow> accept_ok cfg an ?s" "fd = cf_timerfd cfg \<longrightarrow> timeout_ok an ?s"
    using assms(3) by (simp_all add: calm_def)
  let ?own = "fd = cf_listenfd cfg \<or> fd = cf_evfd cfg \<or> fd = cf_timerfd cfg \<or> cf_session cfg (nt_app (sr_net ?s)) \<and> fd = cf_sessionfd cfg"
  have pool: "\<exists>s'. handleConnectionRead cfg (an_now an) fd ?s = Inr s' \<and> server_inv cfg s'"
    "\<exists>s'. handleConnectionWrite cfg (an_now an) fd ?s = Inr s' \<and> server_inv cfg s'"
    using to_pool_inv [OF n(1) _ calm(1), of fd] unfolding hs server_inv_def by simp_all
  consider (c) "revents AND (EPOLLERR OR EPOLLRDHUP OR EPOLLHUP) \<noteq> 0"
    | (r) "\<not> revents AND (EPOLLERR OR EPOLLRDHUP OR EPOLLHUP) \<noteq> 0" "revents AND EPOLLIN \<noteq> 0"
    | (w) "\<not> revents AND (EPOLLERR OR EPOLLRDHUP OR EPOLLHUP) \<noteq> 0" "\<not> revents AND EPOLLIN \<noteq> 0" "revents AND EPOLLOUT \<noteq> 0"
    | (z) "revents AND (EPOLLERR OR EPOLLRDHUP OR EPOLLHUP) = 0" "revents AND EPOLLIN = 0" "revents AND EPOLLOUT = 0"
    by blast
  then show ?thesis
  proof cases
    case c
    then show ?thesis using close_inv [OF n(1,2), of 1] unfolding hs server_inv_def by (simp add: dispatch_def)
  next
    case r
    show ?thesis
    proof (cases ?own)
      case True
      then have "\<not> live (sr_net ?s) fd" using inv_with_live(1) [OF n(1)] by (auto simp: own_fds_def)
      from inv_with_dead(3) [OF n(1) this, of 1] have "inv_with cfg (\<lambda>_. 1) ?s" unfolding hs .
      from own_inv [OF this calm] True r show ?thesis by (auto simp: dispatch_def server_inv_def)
    next
      case False
      then show ?thesis using r pool(1) by (auto simp: dispatch_def handleRead_def)
    qed
  next
    case w
    then show ?thesis using pool(2) by (simp add: dispatch_def)
  next
    case z
    have "EPOLLIN OR EPOLLOUT OR EPOLLERR OR EPOLLRDHUP OR EPOLLHUP = (EPOLLERR OR EPOLLRDHUP OR EPOLLHUP) OR EPOLLIN OR EPOLLOUT" by simp
    then have False using z n(3) by (simp only: bit.conj_disj_distrib) simp
    then show ?thesis ..
  qed
qed

lemma arm_task:
  assumes "inv_with cfg hs s" and "hs fd = 0" and "live (sr_net s) fd" and "\<not> unusable conn" and "connfd conn = fd"
    and "n = put_conn fd conn (sr_net s) \<or> n = register_session cfg (put_conn fd conn ((sr_net s)\<lparr>nt_app := app\<rparr>))"
  shows "inv_with cfg (hs(fd := 1)) (s\<lparr>sr_net := arm fd ev n\<rparr>)"
proof (rule arm_inv [OF assms(1-3)])
  have own: "fd \<noteq> cf_sessionfd cfg" "cf_sessionfd cfg \<in> own_fds cfg" using inv_with_live(1) [OF assms(1,3)] by (auto simp: own_fds_def)
  have p: "nt_poller n = nt_poller (sr_net s) \<or> nt_poller n = addEvent (cf_sessionfd cfg) EPOLLIN (nt_poller (sr_net s))"
    and c: "nt_conns n = (nt_conns (sr_net s))(fd := conn)"
    using assms(6) by (auto simp: put_conn_def register_session_def)
  show "only_at fd cfg (sr_net s) n" using p c own(2) by (auto simp: only_at_def addEvent_def split: option.split)
  show "nt_poller n fd = nt_poller (sr_net s) fd" using p own(1) by (auto simp: addEvent_def split: option.split)
  show "live n fd" "connfd (nt_conns n fd) = fd" using c assms(4,5) by (simp_all add: live_def)
qed

lemma put_channel_inv:
  assumes "inv_with cfg hs s" and "live (sr_net s) fd" and "n = put_conn fd (setChannel (Some ch) (nt_conns (sr_net s) fd)) (sr_net s)"
  shows "inv_with cfg hs (s\<lparr>sr_net := n\<rparr>)" "live n fd" "connfd (nt_conns n fd) = fd" "nt_conns n fd = setChannel (Some ch) (nt_conns (sr_net s) fd)"
proof -
  note l = inv_with_live [OF assms(1,2)]
  show n: "live n fd" "connfd (nt_conns n fd) = fd" "nt_conns n fd = setChannel (Some ch) (nt_conns (sr_net s) fd)"
    using assms(2,3) l(2) by (simp_all add: live_def put_conn_def unusable_def setChannel_def)
  have "inv_with cfg (hs(fd := hs fd)) (s\<lparr>sr_net := n\<rparr>)"
  proof (rule only_at_inv [OF assms(1)])
    show "only_at fd cfg (sr_net s) n" using assms(3) by (simp add: only_at_def put_conn_def)
    have "nt_poller n = nt_poller (sr_net s)" using assms(3) by (simp add: put_conn_def)
    then show "fd_ok cfg (hs fd) (s\<lparr>sr_net := n\<rparr>) fd" using l n by (simp add: fd_ok_def holders_def)
  qed
  then show "inv_with cfg hs (s\<lparr>sr_net := n\<rparr>)" by simp
qed

lemma onWrite_inv:
  assumes "inv_with cfg hs s" and "hs fd = 0" and "tasks_of s fd = 0" and "live (sr_net s) fd"
    and "onWrite cfg ws fd (sr_net s) = Some (Inr (out, n))"
  shows "inv_with cfg (hs(fd := 1)) (s\<lparr>sr_net := n\<rparr>)"
proof -
  let ?conn = "nt_conns (sr_net s) fd"
  from assms(5) obtain ch r again cflag ch' where
    "cn_channel ?conn = Some ch" and w: "writeAgain ws ch = Some (Inr (r, again, cflag, out, ch'))"
    by (auto simp: onWrite_def Let_def res_simps split: option.splits if_splits)
  define m where "m = put_conn fd (setChannel (Some ch') ?conn) (sr_net s)"
  note p = put_channel_inv [OF assms(1,4) m_def]
  have u: "\<not> unusable (setChannel (Some ch') ?conn)" "connfd (setChannel (Some ch') ?conn) = fd"
    using p(2,3) unfolding live_def p(4) .
  have arm: "inv_with cfg (hs(fd := 1)) (s\<lparr>sr_net := arm fd ev m\<rparr>)" for ev
    using arm_task [OF assms(1,2,4) u] m_def by blast
  have close: "inv_with cfg (hs(fd := 1)) (s\<lparr>sr_net := handleConnectionClose cfg fd m\<rparr>)"
    using close_inv [OF p(1), of fd 1] assms(3) by simp
  have "n = arm fd EPOLLIN m \<or> n = arm fd EPOLLOUT m \<or> n = handleConnectionClose cfg fd m"
    using assms(5) \<open>cn_channel ?conn = Some ch\<close> w u(2) unfolding onWrite_def Let_def m_def
    by (auto split: if_splits)
  then show ?thesis using arm close by blast
qed

lemma onRead_inv:
  assumes "inv_with cfg hs s" and "hs fd = 0" and "tasks_of s fd = 0" and "live (sr_net s) fd"
    and "onRead cfg rs fd (sr_net s) = Some (Inr n)"
  shows "inv_with cfg (hs(fd := 1)) (s\<lparr>sr_net := n\<rparr>)"
proof -
  let ?conn = "nt_conns (sr_net s) fd"
  from assms(5) obtain ch r again ch' where
    c: "cn_channel ?conn = Some ch" and w: "readAgain rs ch = Some (Inr (r, again, ch'))"
    by (auto simp: onRead_def Let_def res_simps split: option.splits if_splits)
  define m where "m = put_conn fd (setChannel (Some ch') ?conn) (sr_net s)"
  note p = put_channel_inv [OF assms(1,4) m_def]
  have u: "\<not> unusable (setChannel (Some ch') ?conn)" "connfd (setChannel (Some ch') ?conn) = fd"
    using p(2,3) unfolding live_def p(4) .
  have arm: "inv_with cfg (hs(fd := 1)) (s\<lparr>sr_net := arm fd ev m\<rparr>)" for ev
    using arm_task [OF assms(1,2,4) u] m_def by blast
  have close: "inv_with cfg (hs(fd := 1)) (s\<lparr>sr_net := handleConnectionClose cfg fd m\<rparr>)"
    using close_inv [OF p(1), of fd 1] assms(3) by simp
  have app: "nt_app m = nt_app (sr_net s)" by (simp add: m_def put_conn_def)
  have eq: "onRead cfg rs fd (sr_net s) =
      (if r \<le> 0 \<and> \<not> again then Some (Inr (handleConnectionClose cfg fd m))
       else if readable (recver ch') = 0 then Some (Inr (arm fd EPOLLIN m))
       else run_bind (cf_msg cfg (setChannel (Some ch') ?conn) (nt_app m)) (\<lambda>(finished, conn, app).
         Some (Inr (arm (connfd conn) (if finished then EPOLLOUT else EPOLLIN) (register_session cfg (put_conn fd conn (m\<lparr>nt_app := app\<rparr>)))))))"
    using c w u(2) by (simp add: onRead_def Let_def m_def cong: if_cong)
  consider (c) "r \<le> 0 \<and> \<not> again" | (e) "\<not> (r \<le> 0 \<and> \<not> again)" "readable (recver ch') = 0"
    | (m) "\<not> (r \<le> 0 \<and> \<not> again)" "readable (recver ch') \<noteq> 0" by blast
  then show ?thesis
  proof cases
    case c
    then show ?thesis using assms(5) close unfolding eq by simp
  next
    case e
    then show ?thesis using assms(5) arm unfolding eq if_not_P [OF e(1)] if_P [OF e(2)] by auto
  next
    case m
    from assms(5) obtain finished conn app where
      3: "cf_msg cfg (setChannel (Some ch') ?conn) (nt_app m) = Some (Inr (finished, conn, app))"
        "n = arm (connfd conn) (if finished then EPOLLOUT else EPOLLIN) (register_session cfg (put_conn fd conn (m\<lparr>nt_app := app\<rparr>)))"
      unfolding eq if_not_P [OF m(1)] if_not_P [OF m(2)] run_bind_eq_Inr by auto
    from msg_keeps [OF 3(1) u(1)] u(2) have k: "\<not> unusable conn" "connfd conn = fd" by simp_all
    have "put_conn fd conn (m\<lparr>nt_app := app\<rparr>) = put_conn fd conn ((sr_net s)\<lparr>nt_app := app\<rparr>)"
      by (simp add: m_def put_conn_def)
    then show ?thesis using arm_task [OF assms(1,2,4) k] 3(2) k(2) by auto
  qed
qed

lemma task_inv:
  assumes "server_inv cfg s" and "t \<in> set (tp_taken (sr_pool s))" and "run_task cfg rs ws t (sr_net s) = Some (Inr (out, n))"
  shows "server_inv cfg (s\<lparr>sr_pool := (sr_pool s)\<lparr>tp_taken := remove1 t (tp_taken (sr_pool s))\<rparr>, sr_net := n\<rparr>)"
proof -
  define s1 where "s1 = s\<lparr>sr_pool := (sr_pool s)\<lparr>tp_taken := remove1 t (tp_taken (sr_pool s))\<rparr>\<rparr>"
  note d = task_done [OF assms(1,2) s1_def]
  have eq: "sr_net s1 = sr_net s" by (simp add: s1_def)
  have "inv_with cfg (((\<lambda>_. 1)(task_fd t := 0))(task_fd t := 1)) (s1\<lparr>sr_net := n\<rparr>)"
  proof (cases t)
    case (OnRead fd)
    then show ?thesis using onRead_inv [OF d(1) _ d(2), of rs n] d(3) assms(3) eq by (auto simp: res_simps)
  next
    case (OnWrite fd)
    then show ?thesis using onWrite_inv [OF d(1) _ d(2), of ws out n] d(3) assms(3) eq by auto
  qed
  moreover have "((\<lambda>_. 1 :: nat)(task_fd t := 0))(task_fd t := 1) = (\<lambda>_. 1)" by auto
  ultimately show ?thesis by (simp add: server_inv_def s1_def)
qed

lemma step_inv: "srv_step cfg s s' \<Longrightarrow> server_inv cfg s \<Longrightarrow> server_inv cfg s'"
proof (induction rule: srv_step.induct)
  case (step_event s fd revents evs an s')
  from dispatch_inv [OF step_event.prems step_event.hyps(1,2)] step_event.hyps(3) show ?case by auto
qed (auto intro: wait_inv take_inv task_inv)

lemma reachable_inv: "reachable cfg app s \<Longrightarrow> server_inv cfg s"
  by (induction rule: reachable.induct) (auto intro: server_inv_new step_inv)

end


section \<open>Polling is a sequence of steps\<close>

fun calm_run :: "('c, 'a) config \<Rightarrow> answer list \<Rightarrow> ('c, 'a) server \<Rightarrow> bool" where
  "calm_run cfg [] s = True"
| "calm_run cfg (an # ans) s =
     (case sr_batch s of [] \<Rightarrow> True
      | (fd, revents) # evs \<Rightarrow> calm cfg an fd (s\<lparr>sr_batch := evs\<rparr>) \<and>
          (case dispatch cfg an fd revents (s\<lparr>sr_batch := evs\<rparr>) of Inl _ \<Rightarrow> True | Inr s' \<Rightarrow> calm_run cfg ans s'))"

lemma poll_events_reachable:
  "poll_events cfg ans s = Inr s' \<Longrightarrow> reachable cfg app s \<Longrightarrow> calm_run cfg ans s \<Longrightarrow> reachable cfg app s'"
proof (induction ans arbitrary: s)
  case (Cons an ans)
  show ?case
  proof (cases "sr_batch s")
    case Nil
    then show ?thesis using Cons.prems by simp
  next
    case (Cons e evs)
    obtain fd revents where e: "e = (fd, revents)" by force
    from Cons.prems(1) Cons e obtain s1 where s1: "dispatch cfg an fd revents (s\<lparr>sr_batch := evs\<rparr>) = Inr s1" "poll_events cfg ans s1 = Inr s'"
      by (auto simp: res_simps)
    have "srv_step cfg s s1" using Cons.prems(3) Cons e s1(1) by (intro step_event [of s fd revents evs cfg an]) simp_all
    then have "reachable cfg app s1" by (rule reachable_step [OF Cons.prems(2)])
    then show ?thesis using Cons.IH [OF s1(2)] Cons.prems(3) Cons e s1(1) by simp
  qed
qed simp

lemma poll_reachable:
  assumes "reachable cfg app s" and "\<not> sr_quit s" and "sr_batch s = []" and "reportable evs s"
    and "calm_run cfg ans (wait_events evs s)" and "poll cfg (Some (evs, ans)) s = Inr (r, s')"
  shows "reachable cfg app s'"
proof -
  have "poll_events cfg ans (wait_events evs s) = Inr s'" using assms(6) by (auto simp: poll_def res_simps)
  moreover have "reachable cfg app (wait_events evs s)" using assms(1-4) by (intro reachable_step [OF _ step_wait])
  ultimately show ?thesis using assms(5) by (rule poll_events_reachable)
qed


section \<open>Finishing a response\<close>

text \<open>
  C29. A write task on a connection with a pending response, when the kernel takes at least one byte per
  call, sends the whole response; a persistent connection is then reset and armed for the next request,
  any other connection is closed and no longer registered.
\<close>

theorem write_task_finishes:
  assumes conn: "cn_channel (nt_conns n fd) = Some (load_body body ch)" "\<not> disconnected (nt_conns n fd)" "connfd (nt_conns n fd) = fd"
      "nt_poller n fd \<noteq> None" "cf_closed cfg = None"
    and resp: "idle ch" "buf_view (sender ch) \<noteq> []" "body_fits body ch"
    and room: "\<forall>(room, err)\<in>set os. 0 < room" "length (buf_view (sender ch) @ body_bytes body) \<le> length os"
  shows "\<exists>n' c. onWrite cfg os fd n = Some (Inr (buf_view (sender ch) @ body_bytes body, n')) \<and>
     (if keep_alive (nt_conns n fd)
      then nt_poller n' fd = Some (EPOLLIN OR kConnectionEvent, True) \<and> cn_channel (nt_conns n' fd) = Some (reset_chan c)
      else nt_poller n' fd = None \<and> cn_channel (nt_conns n' fd) = None \<and> disconnected (nt_conns n' fd))"
proof -
  note l = load_body_ok [OF resp]
  from TcpConnection_write_completes [of "load_body body ch" os] l room resp(2) obtain err c where
    w: "TcpConnection_write os (load_body body ch) = Some (Inr (0, err, True, buf_view (sender ch) @ body_bytes body, reset_chan c))" by auto
  from conn(4) obtain x where x: "nt_poller n fd = Some x" by blast
  show ?thesis
  proof (cases "keep_alive (nt_conns n fd)")
    case True
    then show ?thesis using w conn x
      by (intro exI [of _ "arm fd EPOLLIN (put_conn fd (setChannel (Some (reset_chan c)) (nt_conns n fd)) n)"] exI [of _ c])
        (simp add: onWrite_def writeAgain_def Let_def setChannel_def arm_def put_conn_def updateEvent_def)
  next
    case False
    then show ?thesis using w conn x
      by (intro exI [of _ "handleConnectionClose cfg fd (put_conn fd (setChannel (Some (reset_chan c)) (nt_conns n fd)) n)"] exI [of _ c])
        (simp add: onWrite_def writeAgain_def Let_def setChannel_def handleConnectionClose_def put_conn_def removeEvent_def unusable_def
          setDisconnected_def)
  qed
qed

definition plain_config :: "(unit, unit) config" where
  "plain_config =
     \<lparr>cf_evfd = 3, cf_listenfd = 4, cf_timerfd = 5, cf_sessionfd = 6, cf_idle = 1000, cf_sendfile = False, cf_https = False,
      cf_session = \<lambda>_. False, cf_session_timeout = \<lambda>_ a. Inr a, cf_new_conn = None, cf_msg = \<lambda>c a. Some (Inr (True, c, a)), cf_closed = None\<rparr>"

definition plain_net :: "channel \<Rightarrow> (unit, unit) net" where
  "plain_net ch =
     \<lparr>nt_conns = (\<lambda>_. TcpConnection_new 0)(7 := setChannel (Some ch) (conn_initialize 7 (TcpConnection_new 0))),
      nt_poller = [7 \<mapsto> (EPOLLOUT OR kConnectionEvent, False)], nt_app = ()\<rparr>"

theorem write_task_finishes_witness:
  "\<exists>n' c. onWrite plain_config (replicate 8 (1, 0)) 7 (plain_net (load_body (Mapped 9 ''body'') demo_channel)) =
       Some (Inr (buf_view (sender demo_channel) @ body_bytes (Mapped 9 ''body''), n')) \<and>
     (if keep_alive (nt_conns (plain_net (load_body (Mapped 9 ''body'') demo_channel)) 7)
      then nt_poller n' 7 = Some (EPOLLIN OR kConnectionEvent, True) \<and> cn_channel (nt_conns n' 7) = Some (reset_chan c)
      else nt_poller n' 7 = None \<and> cn_channel (nt_conns n' 7) = None \<and> disconnected (nt_conns n' 7))"
  by (rule write_task_finishes)
    (simp_all add: plain_net_def plain_config_def setChannel_def conn_initialize_def body_fits_def)


section \<open>Time-outs\<close>

text \<open>
  C33. When a connection times out while a task for it waits in the pool, the task finds no channel: the
  server dereferences a null pointer. (\<open>handleConnectionRead\<close> checks that the connection is usable
  before it queues the task, the task does not.)
\<close>

theorem timed_out_task_dereferences_null:
  assumes "theap_inv (sr_timer s)" and "\<forall>fd d cb. th_abs (sr_timer s) fd = Some (d, cb) \<longrightarrow> cb = Some fd"
    and "th_abs (sr_timer s) (task_fd t) = Some (d, cb)" and "d \<le> now" and "cf_closed cfg = None"
    and "live (sr_net s) (task_fd t)" and "t \<in> set (all_tasks s)"
  shows "\<exists>s'. server_handleTimeout cfg now (cf_timerfd cfg) s = Inr s' \<and> t \<in> set (all_tasks s') \<and>
     run_task cfg rs ws t (sr_net s') = Some (Inl NullPointer)"
proof -
  let ?fd = "task_fd t"
  let ?h = "sr_timer s" and ?close = "handleConnectionClose cfg"
  have "\<forall>k ts. th_abs ?h k \<noteq> Some (ts, None)" using assms(2) by blast
  from handleTimeout_spec [OF assms(1) this, where run = "\<lambda>fd n. Inr (?close fd n)" and eff = ?close and now = now and s = "sr_net s"]
  obtain fired :: "int timer list" and h' where
    f: "handleTimeout (\<lambda>fd n. Inr (?close fd n)) now ?h (sr_net s) = Inr (h', fold ?close (map (\<lambda>t. the (tm_cb t)) fired) (sr_net s))"
    and due: "tm_fd ` set fired = {k. \<exists>d cb. th_abs ?h k = Some (d, cb) \<and> d \<le> now}"
      "\<forall>t\<in>set fired. th_abs ?h (tm_fd t) = Some (tm_ts t, tm_cb t)" by blast
  let ?fds = "map (\<lambda>t. the (tm_cb t)) fired"
  have mem: "?fd \<in> set ?fds"
  proof -
    have "?fd \<in> tm_fd ` set fired" using due(1) assms(3,4) by blast
    then obtain x where x: "x \<in> set fired" "?fd = tm_fd x" by (rule imageE)
    from due(2) x(1) have "th_abs ?h ?fd = Some (tm_ts x, tm_cb x)" unfolding x(2) by (rule bspec)
    then have "the (tm_cb x) = ?fd" using assms(2) by (metis option.sel)
    then show ?thesis using x(1) by (metis image_eqI set_map)
  qed
  have shut: "cn_channel (nt_conns (fold ?close fds n) k) = None" if "cn_channel (nt_conns n k) = None" for fds n k
    using that
  proof (induction fds arbitrary: n)
    case (Cons a fds)
    then show ?case using assms(5)
      by (auto simp: handleConnectionClose_def put_conn_def unusable_def Let_def setChannel_def setDisconnected_def)
  qed simp
  have gone: "cn_channel (nt_conns (fold ?close fds n) k) = None" if "k \<in> set fds" "\<not> disconnected (nt_conns n k)" for fds n k
    using that
  proof (induction fds arbitrary: n)
    case (Cons a fds)
    show ?case
    proof (cases "k = a")
      case True
      then have "cn_channel (nt_conns (?close a n) k) = None" using Cons.prems(2) assms(5)
        by (auto simp: handleConnectionClose_def put_conn_def unusable_def Let_def setChannel_def setDisconnected_def)
      then show ?thesis using shut by simp
    next
      case False
      then have "\<not> disconnected (nt_conns (?close a n) k)" using Cons.prems(2) assms(5)
        by (auto simp: handleConnectionClose_def put_conn_def unusable_def Let_def)
      then show ?thesis using Cons.IH Cons.prems(1) False by simp
    qed
  qed simp
  have "server_handleTimeout cfg now (cf_timerfd cfg) s = Inr (s\<lparr>sr_timer := h', sr_net := fold ?close ?fds (sr_net s)\<rparr>)"
    unfolding server_handleTimeout_def using f by simp
  then show ?thesis using gone [OF mem, of "sr_net s"] assms(6,7)
    by (cases t) (simp_all add: onRead_def onWrite_def Let_def live_def unusable_def all_tasks_def)
qed

definition late_server :: "(unit, unit) server" where
  \<comment> \<open>a connection with a queued task and a deadline at 10\<close>
  "late_server =
     \<lparr>sr_net = plain_net demo_channel,
      sr_timer = \<lparr>th_c = [\<lparr>tm_fd = 7, tm_ts = TimeStamp 10, tm_cb = Some 7\<rparr>], th_n = 1, th_fds = [7 \<mapsto> 0]\<rparr>,
      sr_pool = pool_add (OnRead 7) pool_new, sr_quit = False, sr_batch = []\<rparr>"

theorem timed_out_task_dereferences_null_witness:
  "\<exists>s'. server_handleTimeout plain_config (TimeStamp 12) (cf_timerfd plain_config) late_server = Inr s' \<and>
     OnRead 7 \<in> set (all_tasks s') \<and> run_task plain_config [(Some ''x'', 0)] [] (OnRead 7) (sr_net s') = Some (Inl NullPointer)"
proof (rule timed_out_task_dereferences_null)
  show "theap_inv (sr_timer late_server)"
    by (auto simp: theap_inv_def late_server_def idx_ok_def heap_ordered_def)
  show "\<forall>fd d cb. th_abs (sr_timer late_server) fd = Some (d, cb) \<longrightarrow> cb = Some fd"
    "th_abs (sr_timer late_server) (task_fd (OnRead 7)) = Some (TimeStamp 10, Some 7)"
    by (simp_all add: th_abs_def timer_map_def late_server_def)
  show "TimeStamp 10 \<le> TimeStamp 12" by (simp add: ts_le_def)
  show "cf_closed plain_config = None" by (simp add: plain_config_def)
  show "live (sr_net late_server) (task_fd (OnRead 7))"
    by (simp add: late_server_def live_def plain_net_def unusable_def setChannel_def conn_initialize_def)
  show "OnRead 7 \<in> set (all_tasks late_server)" by (simp add: late_server_def all_tasks_def pool_add_def pool_new_def)
qed


section \<open>The end of the input\<close>

text \<open>
  When \<open>read\<close> returns 0 at the end of the input, \<open>errno\<close> still holds what an earlier call left there. After an
  \<open>EAGAIN\<close> of that thread the connection is taken for one that has to wait: it is armed again, not closed.
\<close>

lemma eof_after_again_kept_open:
  assumes "cn_channel (nt_conns n fd) = Some ch" and "ch_type ch = Raw" and "readable (recver ch) = 0"
  shows "onRead cfg [(Some [], 11)] fd n =
     Some (Inr (arm (connfd (nt_conns n fd)) EPOLLIN (put_conn fd (setChannel (Some ch) (nt_conns n fd)) n)))"
    "onRead cfg [(Some [], 0)] fd n = Some (Inr (handleConnectionClose cfg fd (put_conn fd (setChannel (Some ch) (nt_conns n fd)) n)))"
  using assms by (simp_all add: onRead_def readAgain_def chan_read_both again_code_def Let_def setChannel_def)

end
