(* ===== verification/ServerSocket.thy ===== *)
theory ServerSocket
  imports InetAddress
begin

text \<open>
  \<open>soc/net/ServerSocket\<close>: the listening socket and the socket options. The descriptor table of the kernel is a
  map from descriptors to open sockets; an option call on a descriptor that is not open fails and changes
  nothing (the results are ignored). What \<open>socket\<close>, \<open>bind\<close>, \<open>listen\<close> and \<open>accept\<close> return is an argument.
\<close>

unbundle bit_operations_syntax

section \<open>Sockets\<close>

record sock =
  so_flags :: "32 word"                \<comment> \<open>the file status flags\<close>
  so_cloexec :: bool
  so_nodelay :: bool
  so_reuseaddr :: bool
  so_reuseport :: bool
  so_keepalive :: bool
  so_name :: sockaddr_in
  so_listening :: bool
  so_peer :: "sockaddr_in option"

type_synonym kernel = "int \<rightharpoonup> sock"

abbreviation O_RDWR :: "32 word" where "O_RDWR \<equiv> 2"
abbreviation O_NONBLOCK :: "32 word" where "O_NONBLOCK \<equiv> 2048"

definition on_sock :: "int \<Rightarrow> (sock \<Rightarrow> sock) \<Rightarrow> kernel \<Rightarrow> kernel" where
  "on_sock fd f k = (case k fd of None \<Rightarrow> k | Some s \<Rightarrow> k(fd \<mapsto> f s))"

definition nonblocking :: "kernel \<Rightarrow> int \<Rightarrow> bool" where
  "nonblocking k fd \<longleftrightarrow> (case k fd of None \<Rightarrow> False | Some s \<Rightarrow> so_flags s AND O_NONBLOCK \<noteq> 0)"

definition setNonBlocking :: "int \<Rightarrow> kernel \<Rightarrow> kernel" where
  "setNonBlocking fd k = on_sock fd (\<lambda>s. let old = so_flags s; old = old OR O_NONBLOCK in s\<lparr>so_flags := old\<rparr>) k"

definition setNoDelay :: "int \<Rightarrow> kernel \<Rightarrow> kernel" where
  "setNoDelay fd k = on_sock fd (\<lambda>s. s\<lparr>so_nodelay := True\<rparr>) k"

definition createNBSocket :: "int \<Rightarrow> kernel \<Rightarrow> int \<times> kernel" where
  \<comment> \<open>the first argument is the result of \<open>socket(AF_INET, SOCK_STREAM | SOCK_NONBLOCK | SOCK_CLOEXEC, IPPROTO_TCP)\<close>\<close>
  "createNBSocket r k =
     (r, if r < 0 then k
         else k(r \<mapsto> \<lparr>so_flags = O_RDWR OR O_NONBLOCK, so_cloexec = True, so_nodelay = False, so_reuseaddr = False,
                so_reuseport = False, so_keepalive = False, so_name = InetAddress_any 0, so_listening = False, so_peer = None\<rparr>))"

definition getPeerName :: "int \<Rightarrow> kernel \<Rightarrow> sockaddr_in option" where
  \<comment> \<open>\<open>None\<close>: the call fails, and the address that is returned was never set\<close>
  "getPeerName fd k = (case k fd of None \<Rightarrow> None | Some s \<Rightarrow> so_peer s)"

definition getSockName :: "int \<Rightarrow> kernel \<Rightarrow> sockaddr_in option" where
  "getSockName fd k = (case k fd of None \<Rightarrow> None | Some s \<Rightarrow> Some (so_name s))"


section \<open>\<open>ServerSocket\<close>\<close>

text \<open>The object is its descriptor \<open>fd_\<close>.\<close>

definition socket_bind :: "int \<Rightarrow> sockaddr_in \<Rightarrow> int \<Rightarrow> kernel \<Rightarrow> kernel res" where
  "socket_bind r address fd k = (if r < 0 then Inl Exit else Inr (on_sock fd (\<lambda>s. s\<lparr>so_name := address\<rparr>) k))"

definition socket_listen :: "int \<Rightarrow> int \<Rightarrow> kernel \<Rightarrow> kernel res" where
  "socket_listen r fd k = (if r < 0 then Inl Exit else Inr (on_sock fd (\<lambda>s. s\<lparr>so_listening := True\<rparr>) k))"

definition socket_accept :: "int \<Rightarrow> sockaddr_in \<Rightarrow> int \<Rightarrow> kernel \<Rightarrow> (int \<times> sockaddr_in option) \<times> kernel" where
  \<comment> \<open>\<open>r\<close> and \<open>addr\<close> are what \<open>accept\<close> gives; the new socket inherits the options of the listening one, but
      on Linux no file status flags\<close>
  "socket_accept r addr fd k =
     (case k fd of
        Some s \<Rightarrow> if r < 0 then ((r, None), k)
          else ((r, Some addr), k(r \<mapsto> s\<lparr>so_flags := O_RDWR, so_cloexec := False, so_listening := False, so_peer := Some addr\<rparr>))
      | None \<Rightarrow> ((-1, None), k))"

definition enableReuseAddr :: "bool \<Rightarrow> int \<Rightarrow> kernel \<Rightarrow> kernel" where
  "enableReuseAddr on fd k = on_sock fd (\<lambda>s. s\<lparr>so_reuseaddr := on\<rparr>) k"

definition enableReusePort :: "bool \<Rightarrow> int \<Rightarrow> kernel \<Rightarrow> kernel" where
  "enableReusePort on fd k = on_sock fd (\<lambda>s. s\<lparr>so_reuseport := on\<rparr>) k"

definition enableKeepAlive :: "bool \<Rightarrow> int \<Rightarrow> kernel \<Rightarrow> kernel" where
  "enableKeepAlive on fd k = on_sock fd (\<lambda>s. s\<lparr>so_keepalive := on\<rparr>) k"

definition close_fd :: "int \<Rightarrow> kernel \<Rightarrow> kernel" where
  \<comment> \<open>\<open>ServerSocket::~ServerSocket\<close>; closing a descriptor that is not open fails with \<open>EBADF\<close>\<close>
  "close_fd fd k = k(fd := None)"


section \<open>Properties\<close>

lemma on_sock_apply [simp]: "on_sock fd f k fd' = (if fd' = fd then map_option f (k fd) else k fd')"
  by (auto simp: on_sock_def split: option.split)

lemma setNonBlocking_nonblocking: "nonblocking (setNonBlocking fd k) fd' \<longleftrightarrow> nonblocking k fd' \<or> fd' = fd \<and> k fd \<noteq> None"
proof -
  have "(w OR O_NONBLOCK) AND O_NONBLOCK \<noteq> 0" for w :: "32 word"
  proof -
    have "bit ((w OR O_NONBLOCK) AND O_NONBLOCK) 11" by (simp add: bit_simps)
    then show ?thesis by auto
  qed
  then show ?thesis by (auto simp: nonblocking_def setNonBlocking_def Let_def split: option.splits)
qed

text \<open>Only the flag changes: the other file status flags are read before and written back.\<close>

lemma setNonBlocking_keeps:
  assumes "k fd = Some s" and "n \<noteq> 11"
  shows "\<exists>s'. setNonBlocking fd k fd = Some s' \<and> bit (so_flags s') n = bit (so_flags s) n \<and> s'\<lparr>so_flags := so_flags s\<rparr> = s"
proof -
  have "O_NONBLOCK = push_bit 11 1" by simp
  then have "\<not> bit O_NONBLOCK n" using assms(2) by (simp only: bit_push_bit_iff bit_1_iff) auto
  then show ?thesis using assms(1) by (auto simp: setNonBlocking_def Let_def bit_simps)
qed

lemma nonblocking_new: "0 \<le> r \<Longrightarrow> nonblocking (snd (createNBSocket r k)) r"
  by (simp add: nonblocking_def createNBSocket_def)

text \<open>
  A connection is accepted as a blocking socket also when the listening socket is not blocking; until
  \<open>setNonBlocking\<close> is called every operation on it may wait.
\<close>

lemma accepted_is_blocking:
  assumes "socket_accept r addr fd k = ((r, Some a), k')"
  shows "\<not> nonblocking k' r \<and> getPeerName r k' = Some addr \<and> nonblocking (setNonBlocking r k') r"
proof -
  have "k' r \<noteq> None" "\<not> nonblocking k' r" "getPeerName r k' = Some addr"
    using assms by (auto simp: socket_accept_def nonblocking_def getPeerName_def split: option.splits if_splits)
  then show ?thesis by (simp add: setNonBlocking_nonblocking)
qed

end
