(* ===== verification/ServerSsl.thy ===== *)
theory ServerSsl
  imports ChannelClose
begin

text \<open>
  \<open>soc/net/ServerSsl\<close>: the TLS context of the server. OpenSSL is an argument: what it answers for the
  certificate file, the private key file with the password it is given, and the two together.
\<close>

datatype ssl_option = SSL_OP_ALL | SSL_OP_NO_SSLv2 | SSL_OP_NO_SSLv3 | SSL_OP_NO_COMPRESSION
  | SSL_OP_NO_SESSION_RESUMPTION_ON_RENEGOTIATION

record ssl_ctx =
  cx_options :: "ssl_option list"
  cx_passwd :: "string option"           \<comment> \<open>\<open>None\<close>: \<open>nullptr\<close>, OpenSSL asks at the terminal\<close>
  cx_cert :: "string option"
  cx_key :: "string option"

record openssl =
  ox_ctx_new :: bool                     \<comment> \<open>\<open>SSL_CTX_new\<close> gives a context\<close>
  ox_use_cert :: "string \<Rightarrow> int"
  ox_use_key :: "string option \<Rightarrow> string \<Rightarrow> int"
  ox_check_key :: "string \<Rightarrow> string \<Rightarrow> int"

definition serverCtxCreate :: "openssl \<Rightarrow> ssl_ctx res" where
  "serverCtxCreate ox =
     (if \<not> ox_ctx_new ox then Inl Exit
      else Inr \<lparr>cx_options = [SSL_OP_ALL, SSL_OP_NO_SSLv2, SSL_OP_NO_SSLv3, SSL_OP_NO_COMPRESSION,
                  SSL_OP_NO_SESSION_RESUMPTION_ON_RENEGOTIATION],
               cx_passwd = None, cx_cert = None, cx_key = None\<rparr>)"

definition serverCertificate :: "openssl \<Rightarrow> string \<Rightarrow> string \<Rightarrow> string \<Rightarrow> ssl_ctx \<Rightarrow> ssl_ctx res" where
  "serverCertificate ox certfile pkfile password ctx =
     (let ctx = ctx\<lparr>cx_passwd := (if password = [] then None else Some (c_str password))\<rparr>
      in if ox_use_cert ox (c_str certfile) \<le> 0 then Inl Exit
         else let ctx = ctx\<lparr>cx_cert := Some (c_str certfile)\<rparr>
              in if ox_use_key ox (cx_passwd ctx) (c_str pkfile) \<le> 0 then Inl Exit
                 else let ctx = ctx\<lparr>cx_key := Some (c_str pkfile)\<rparr>
                      in if ox_check_key ox (c_str certfile) (c_str pkfile) \<le> 0 then Inl Exit else Inr ctx)"

definition ServerSsl_new :: "openssl \<Rightarrow> string \<Rightarrow> string \<Rightarrow> string \<Rightarrow> ssl_ctx res" where
  \<comment> \<open>\<open>init\<close> registers the algorithms of the library\<close>
  "ServerSsl_new ox certfile pkfile password =
     res_bind (serverCtxCreate ox) (serverCertificate ox certfile pkfile password)"

definition createSslChannel :: "int \<Rightarrow> channel" where
  "createSslChannel fd = Channel_new Ssl fd False"

definition ssl_accept :: "int \<Rightarrow> channel \<Rightarrow> int res" where
  \<comment> \<open>\<open>SSL_accept(channel->ssl())\<close>; the first argument is its result\<close>
  "ssl_accept r ch = (if ch_ssl ch then Inr r else Inl NullPointer)"

definition ServerSsl_delete :: "ssl_ctx option \<Rightarrow> sys_call list" where
  "ServerSsl_delete ctx = (if ctx \<noteq> None then [SslCtxFree] else [])"


section \<open>Properties\<close>

text \<open>
  The context is only used when it has a certificate and the private key that belongs to it; every other
  answer of OpenSSL ends the process.
\<close>

lemma ServerSsl_new_ok:
  "ServerSsl_new ox certfile pkfile password = Inr ctx \<longleftrightarrow>
     ox_ctx_new ox \<and> 0 < ox_use_cert ox (c_str certfile) \<and>
     0 < ox_use_key ox (if password = [] then None else Some (c_str password)) (c_str pkfile) \<and>
     0 < ox_check_key ox (c_str certfile) (c_str pkfile) \<and>
     ctx = \<lparr>cx_options = [SSL_OP_ALL, SSL_OP_NO_SSLv2, SSL_OP_NO_SSLv3, SSL_OP_NO_COMPRESSION,
               SSL_OP_NO_SESSION_RESUMPTION_ON_RENEGOTIATION],
            cx_passwd = (if password = [] then None else Some (c_str password)),
            cx_cert = Some (c_str certfile), cx_key = Some (c_str pkfile)\<rparr>"
  by (auto simp: ServerSsl_new_def serverCtxCreate_def serverCertificate_def Let_def)

lemma ServerSsl_new_error: "ServerSsl_new ox certfile pkfile password = Inl e \<Longrightarrow> e = Exit"
  by (auto simp: ServerSsl_new_def serverCtxCreate_def serverCertificate_def Let_def split: if_splits)

lemma createSslChannel_ready:
  "ssl_accept r (createSslChannel fd) = Inr r" "channel_delete (createSslChannel fd) = [SslShutdown, SslFree, CloseFd fd]"
  by (simp_all add: ssl_accept_def createSslChannel_def channel_delete_new) (simp add: Channel_new_def)

end
