(* ===== verification/JsonLexer.thy ===== *)
theory JsonLexer
  imports Cxx_Prelude
begin

text \<open>
  \<open>soc/libjson/include\<close>: the characters and strings of JSON (\<open>JsonUtil.h\<close>), the reader of a
  text (\<open>JsonReader.h\<close>), tokens (\<open>JsonToken.h\<close>) and the lexer (\<open>JsonLexer.h\<close>). A loop of
  the lexer that may not end takes fuel. The conversions from and to \<open>double\<close> (of type \<open>'d\<close>)
  and from a code point to UTF-8 are the standard library's and arguments.
\<close>

record 'd json_env =
  db_zero :: 'd                          \<comment> \<open>\<open>0.0\<close>\<close>
  db_parse :: "string \<Rightarrow> 'd"             \<comment> \<open>\<open>toAny<double>\<close>\<close>
  db_trunc :: "'d \<Rightarrow> int option"         \<comment> \<open>\<open>static_cast<int>\<close>; \<open>None\<close>: the value does not fit\<close>
  db_str :: "'d \<Rightarrow> string"               \<comment> \<open>\<open>toStr<double>\<close>\<close>
  to_bytes :: "nat \<Rightarrow> string option"     \<comment> \<open>\<open>wstring_convert::to_bytes\<close>; \<open>None\<close>: it throws\<close>


section \<open>Characters\<close>

definition isnumber :: "char \<Rightarrow> bool" where
  "isnumber c \<longleftrightarrow> of_char c \<in> {48..57 :: nat}"

definition ishex :: "char \<Rightarrow> bool" where
  "ishex c \<longleftrightarrow> of_char c \<in> {48..57 :: nat} \<or> of_char c \<in> {97..102 :: nat} \<or> of_char c \<in> {65..70 :: nat}"

definition isexponent :: "char \<Rightarrow> bool" where
  "isexponent c \<longleftrightarrow> c = CHR ''e'' \<or> c = CHR ''E''"

definition json_isspace :: "char \<Rightarrow> bool" where
  "json_isspace c \<longleftrightarrow> c = CHR '' '' \<or> c = CHR 0x09 \<or> c = CHR 0x0B"

definition isnewline :: "char \<Rightarrow> bool" where
  "isnewline c \<longleftrightarrow> c = CHR 0x0A"

definition is_string_begin_end :: "char \<Rightarrow> bool" where
  "is_string_begin_end c \<longleftrightarrow> c = CHR 0x22"

definition is_valid_next_escape_character :: "char \<Rightarrow> bool" where
  "is_valid_next_escape_character c \<longleftrightarrow> c \<in> set (''tn0bfxur'' @ [CHR 0x22, CHR 0x5C])"

definition unescape_character :: "char \<Rightarrow> string" where
  "unescape_character c =
     (if c = CHR 0x0A then [CHR 0x5C, CHR ''n''] else if c = CHR 0x00 then [CHR 0x5C, CHR ''0'']
      else if c = CHR 0x09 then [CHR 0x5C, CHR ''t''] else if c = CHR 0x22 then [CHR 0x5C, CHR 0x22]
      else if c = CHR 0x08 then [CHR 0x5C, CHR ''b''] else if c = CHR 0x0C then [CHR 0x5C, CHR ''f'']
      else if c = CHR 0x0D then [CHR 0x5C, CHR ''r''] else if c = CHR 0x5C then [CHR 0x5C, CHR 0x5C]
      else [c])"

definition escape_character :: "char \<Rightarrow> char" where
  "escape_character c =
     (if c = CHR ''n'' then CHR 0x0A else if c = CHR ''0'' then CHR 0x00 else if c = CHR ''t'' then CHR 0x09
      else if c = CHR ''b'' then CHR 0x08 else if c = CHR ''f'' then CHR 0x0C else if c = CHR ''r'' then CHR 0x0D
      else c)"

definition unescape_string :: "string \<Rightarrow> string" where
  "unescape_string s = concat (map unescape_character s)"

definition base16_digit :: "char \<Rightarrow> nat" where
  "base16_digit c = (if isnumber c then of_char c - 48 else if 97 \<le> (of_char c :: nat) then of_char c - 87 else of_char c - 55)"

definition toBase16 :: "string \<Rightarrow> nat" where
  \<comment> \<open>\<open>toBase<int, 16>\<close>: extraction stores the largest \<open>int\<close> when the number does not fit\<close>
  "toBase16 s = min 2147483647 (foldl (\<lambda>n c. n * 16 + base16_digit c) 0 s)"

definition unicode_hex_to_string :: "'d json_env \<Rightarrow> string \<Rightarrow> string res" where
  "unicode_hex_to_string E unicode = (case to_bytes E (toBase16 unicode) of Some s \<Rightarrow> Inr s | None \<Rightarrow> Inl RangeError)"

function escape_string :: "'d json_env \<Rightarrow> string \<Rightarrow> string res" where
  \<comment> \<open>the element after the last of a \<open>std::string\<close> is NUL\<close>
  "escape_string E [] = Inr []"
| "escape_string E (c # s) =
     (if c \<noteq> CHR 0x5C then res_map (\<lambda>r. c # r) (escape_string E s)
      else case s of
        [] \<Rightarrow> Inr [escape_character NUL]
      | d # t \<Rightarrow>
          if d = CHR ''u'' then
            if 4 \<le> length t \<and> list_all ishex (take 4 t)
            then res_bind (unicode_hex_to_string E (take 4 t)) (\<lambda>u. res_map (\<lambda>r. u @ r) (escape_string E (drop 4 t)))
            else Inl (JsonError (''need 4 hexadecimal digits after '' @ [CHR 0x5C] @ ''u''))
          else if d = CHR ''x'' then
            if takeWhile ishex t = [] then Inl (JsonError (''need hexadecimal digits after '' @ [CHR 0x5C] @ ''x''))
            else res_map (\<lambda>r. decimal (toBase16 (takeWhile ishex t)) @ r) (escape_string E (dropWhile ishex t))
          else res_map (\<lambda>r. escape_character d # r) (escape_string E t))"
  by pat_completeness auto
termination
  by (relation "measure (\<lambda>(E, s). length s)") (auto simp: le_imp_less_Suc length_dropWhile_le less_Suc_eq_le le_SucI)


section \<open>The reader\<close>

definition EOFC :: char where
  \<comment> \<open>\<open>EOF\<close> returned as a \<open>char\<close>\<close>
  "EOFC = CHR 0xFF"

record json_reader =
  jr_buffer :: string
  jr_ptr :: int          \<comment> \<open>at least -1\<close>

definition set_buffer :: "string \<Rightarrow> json_reader" where
  "set_buffer s = \<lparr>jr_buffer = s, jr_ptr = -1\<rparr>"

definition jr_at :: "json_reader \<Rightarrow> int \<Rightarrow> char" where
  "jr_at r i = (if 0 \<le> i \<and> i < int (length (jr_buffer r)) then jr_buffer r ! nat i else EOFC)"

definition jr_get :: "json_reader \<Rightarrow> char \<times> json_reader" where
  "jr_get r = (let r = r\<lparr>jr_ptr := jr_ptr r + 1\<rparr> in (jr_at r (jr_ptr r), r))"

definition jr_back :: "json_reader \<Rightarrow> json_reader" where
  "jr_back r = r\<lparr>jr_ptr := jr_ptr r - 1\<rparr>"

definition jr_peek :: "json_reader \<Rightarrow> char" where
  "jr_peek r = jr_at r (jr_ptr r + 1)"

fun jr_gets :: "nat \<Rightarrow> json_reader \<Rightarrow> string \<times> json_reader" where
  "jr_gets 0 r = ([], r)"
| "jr_gets (Suc n) r = (let (c, r) = jr_get r; (s, r) = jr_gets n r in (c # s, r))"

definition jr_eof :: "json_reader \<Rightarrow> bool" where
  "jr_eof r \<longleftrightarrow> jr_ptr r > int (length (jr_buffer r)) - 1"

definition jr_cur :: "json_reader \<Rightarrow> char" where
  "jr_cur r = jr_at r (jr_ptr r)"

definition jr_geteq :: "char \<Rightarrow> json_reader \<Rightarrow> (bool \<times> char) \<times> json_reader" where
  "jr_geteq c r = (let (x, r') = jr_get r in if x = c then ((True, c), r') else ((False, c), jr_back r'))"

definition jr_reset :: "json_reader \<Rightarrow> json_reader" where
  "jr_reset r = r\<lparr>jr_ptr := -1\<rparr>"

definition jr_clear :: "json_reader \<Rightarrow> json_reader" where
  "jr_clear r = (jr_reset r)\<lparr>jr_buffer := replicate (length (jr_buffer r)) NUL\<rparr>"

definition stream_space :: "char \<Rightarrow> bool" where
  \<comment> \<open>what \<open>>>\<close> skips in the C locale\<close>
  "stream_space c \<longleftrightarrow> c \<in> {CHR '' '', CHR 0x09, CHR 0x0A, CHR 0x0B, CHR 0x0C, CHR 0x0D}"

definition read_stream :: "string \<Rightarrow> string res" where
  \<comment> \<open>the constructor from a stream: \<open>ifs >> c\<close> skips white space, also inside strings\<close>
  "read_stream file =
     (let s = filter (\<lambda>c. \<not> stream_space c) file
      in if s = [] then Inl (JsonError ''Empty json document'') else Inr s)"


section \<open>Tokens\<close>

datatype tag =
    JSON_STRING | JSON_NUMBER | JSON_FLOAT | JSON_TRUE | JSON_FALSE | JSON_NULL
  | JSON_OBJECT_BEGIN | JSON_OBJECT_END | JSON_ARRAY_BEGIN | JSON_ARRAY_END | JSON_KEY_VALUE_SEP | JSON_SEP

record 'd token =
  tk_tag :: tag
  tk_line :: int
  tk_col :: int
  tk_len :: int
  tk_string :: string
  tk_int :: int
  tk_double :: 'd
  tk_bool :: bool

definition Token :: "'d json_env \<Rightarrow> tag \<Rightarrow> int \<Rightarrow> int \<Rightarrow> int \<Rightarrow> 'd token" where
  "Token E tag line col len =
     \<lparr>tk_tag = tag, tk_line = line, tk_col = col, tk_len = len, tk_string = [], tk_int = 0, tk_double = db_zero E, tk_bool = False\<rparr>"

definition Identifier :: "'d json_env \<Rightarrow> tag \<Rightarrow> string \<Rightarrow> int \<Rightarrow> int \<Rightarrow> int \<Rightarrow> 'd token" where
  "Identifier E tag identifier line col len = (Token E tag line col len)\<lparr>tk_string := identifier, tk_bool := (tag = JSON_TRUE)\<rparr>"

definition Number :: "'d json_env \<Rightarrow> int \<Rightarrow> int \<Rightarrow> int \<Rightarrow> int \<Rightarrow> 'd token" where
  "Number E value line col len = (Token E JSON_NUMBER line col len)\<lparr>tk_int := value\<rparr>"

definition Float :: "'d json_env \<Rightarrow> 'd \<Rightarrow> int \<Rightarrow> int \<Rightarrow> int \<Rightarrow> 'd token" where
  "Float E value line col len = (Token E JSON_FLOAT line col len)\<lparr>tk_double := value\<rparr>"

definition String :: "'d json_env \<Rightarrow> string \<Rightarrow> int \<Rightarrow> int \<Rightarrow> int \<Rightarrow> 'd token" where
  "String E lexeme line col len = (Token E JSON_STRING line col len)\<lparr>tk_string := lexeme\<rparr>"

definition tag_char :: "tag \<Rightarrow> string" where
  "tag_char t = (case t of JSON_OBJECT_BEGIN \<Rightarrow> ''{'' | JSON_OBJECT_END \<Rightarrow> ''}'' | JSON_ARRAY_BEGIN \<Rightarrow> ''['' | JSON_ARRAY_END \<Rightarrow> '']''
     | JSON_KEY_VALUE_SEP \<Rightarrow> '':'' | _ \<Rightarrow> '','')"

definition token_toString :: "'d json_env \<Rightarrow> 'd token \<Rightarrow> string" where
  "token_toString E t =
     (case tk_tag t of
        JSON_STRING \<Rightarrow> ''<String, '' @ [CHR 0x22] @ tk_string t @ [CHR 0x22] @ ''>''
      | JSON_NUMBER \<Rightarrow> ''<Number, '' @ int_decimal (tk_int t) @ ''>''
      | JSON_FLOAT \<Rightarrow> ''<Float, '' @ db_str E (tk_double t) @ ''>''
      | JSON_TRUE \<Rightarrow> ''<True>'' | JSON_FALSE \<Rightarrow> ''<False>'' | JSON_NULL \<Rightarrow> ''<Null>''
      | tag \<Rightarrow> ''<'' @ tag_char tag @ ''>'') @
     '' ['' @ int_decimal (tk_line t) @ '','' @ int_decimal (tk_col t) @ '','' @ int_decimal (tk_len t) @ '']''"


section \<open>The lexer\<close>

record 'd lexer =
  lx_escape :: bool
  lx_line :: int
  lx_col :: int
  lx_reader :: json_reader
  lx_tokens :: "'d token list"

definition lexer_new :: "string \<Rightarrow> bool \<Rightarrow> 'd lexer" where
  "lexer_new text escape = \<lparr>lx_escape = escape, lx_line = 1, lx_col = 1, lx_reader = set_buffer text, lx_tokens = []\<rparr>"

definition lexer_open :: "string \<Rightarrow> bool \<Rightarrow> 'd lexer res" where
  \<comment> \<open>the constructor from a stream: the exception of an empty document ends the process\<close>
  "lexer_open file escape = (case read_stream file of Inl e \<Rightarrow> Inl Exit | Inr s \<Rightarrow> Inr (lexer_new s escape))"

definition getC :: "'d lexer \<Rightarrow> char \<times> 'd lexer" where
  "getC lx = (let (c, r) = jr_get (lx_reader lx) in (c, lx\<lparr>lx_col := lx_col lx + 1, lx_reader := r\<rparr>))"

definition backC :: "'d lexer \<Rightarrow> 'd lexer" where
  "backC lx = lx\<lparr>lx_col := lx_col lx - 1, lx_reader := jr_back (lx_reader lx)\<rparr>"

definition getS :: "nat \<Rightarrow> 'd lexer \<Rightarrow> string \<times> 'd lexer" where
  "getS n lx = (let (s, r) = jr_gets n (lx_reader lx) in (s, lx\<lparr>lx_col := lx_col lx + int n, lx_reader := r\<rparr>))"

definition push_token :: "'d token \<Rightarrow> 'd lexer \<Rightarrow> 'd lexer" where
  "push_token t lx = lx\<lparr>lx_tokens := lx_tokens lx @ [t]\<rparr>"

function skip_blank :: "char \<Rightarrow> 'd lexer \<Rightarrow> char \<times> 'd lexer" where
  "skip_blank c lx =
     (if jr_eof (lx_reader lx) then (c, lx)
      else let (c, lx) = getC lx
           in if json_isspace c then skip_blank c lx
              else if isnewline c then skip_blank c (lx\<lparr>lx_col := 1, lx_line := lx_line lx + 1\<rparr>)
              else (c, lx))"
  by pat_completeness auto
termination
  by (relation "measure (\<lambda>(c, lx). nat (int (length (jr_buffer (lx_reader lx))) - jr_ptr (lx_reader lx)))")
    (auto simp: getC_def jr_get_def jr_eof_def Let_def)

declare skip_blank.simps [simp del]

fun read_string :: "nat \<Rightarrow> int \<Rightarrow> char \<Rightarrow> string \<Rightarrow> 'd lexer \<Rightarrow> (string \<times> 'd lexer) run" where
  "read_string 0 start_col c s lx = None"
| "read_string (Suc fuel) start_col c s lx =
     (if is_string_begin_end c then Some (Inr (s, lx))
      else if c = CHR 0x5C then
        let (d, lx) = getC lx
        in if \<not> is_valid_next_escape_character d
           then Some (Inl (JsonSyntaxError (lx_line lx) start_col (''invalid escape character '' @ [CHR 0x27] @ [d] @ [CHR 0x27])))
           else let (e, lx) = getC lx in read_string fuel start_col e (s @ [c, d]) lx
      else let (e, lx) = getC lx in read_string fuel start_col e (s @ [c]) lx)"

fun line_comment :: "nat \<Rightarrow> char \<Rightarrow> 'd lexer \<Rightarrow> 'd lexer run" where
  "line_comment 0 c lx = None"
| "line_comment (Suc fuel) c lx =
     (if c \<noteq> EOFC \<and> \<not> isnewline c then let (c, lx) = getC lx in line_comment fuel c lx else Some (Inr lx))"

fun block_comment :: "nat \<Rightarrow> char \<Rightarrow> 'd lexer \<Rightarrow> 'd lexer run" where
  "block_comment 0 c lx = None"
| "block_comment (Suc fuel) c lx =
     (if c = CHR ''*'' \<and> jr_peek (lx_reader lx) = CHR ''/'' then Some (Inr (snd (getC lx)))
      else let lx = (if isnewline c then lx\<lparr>lx_line := lx_line lx + 1\<rparr> else lx);
               (c, lx) = getC lx
           in block_comment fuel c lx)"

fun read_while :: "nat \<Rightarrow> (char \<Rightarrow> bool) \<Rightarrow> char \<Rightarrow> string \<Rightarrow> 'd lexer \<Rightarrow> (char \<times> string \<times> 'd lexer) run" where
  \<comment> \<open>the loops that read the digits, and the fraction and exponent, of a number\<close>
  "read_while 0 P c s lx = None"
| "read_while (Suc fuel) P c s lx =
     (if P c then let (d, lx) = getC lx in read_while fuel P d (s @ [c]) lx else Some (Inr (c, s, lx)))"

definition lex_string :: "nat \<Rightarrow> 'd json_env \<Rightarrow> 'd lexer \<Rightarrow> 'd lexer run" where
  "lex_string fuel E lx =
     (let start_col = lx_col lx; (c, lx) = getC lx
      in run_bind (read_string fuel start_col c [] lx) (\<lambda>(s, lx).
         run_bind (Some (if lx_escape lx
             then (case escape_string E s of Inl (JsonError m) \<Rightarrow> Inl (JsonSyntaxError (lx_line lx) (lx_col lx) m) | r \<Rightarrow> r)
             else Inr s)) (\<lambda>s.
           Some (Inr (push_token (String E s (lx_line lx) start_col (int (length s))) lx)))))"

definition lex_comment :: "nat \<Rightarrow> 'd lexer \<Rightarrow> 'd lexer run" where
  "lex_comment fuel lx =
     (let (c, lx) = getC lx
      in if c = CHR ''/'' then let (c, lx) = getC lx in line_comment fuel c lx
         else if c = CHR ''*'' then let (c, lx) = getC lx in block_comment fuel c lx
         else Some (Inl (JsonSyntaxError (lx_line lx) (lx_col lx) ''invalid comment // /* */'')))"

definition lex_word :: "'d json_env \<Rightarrow> string \<Rightarrow> tag \<Rightarrow> char \<Rightarrow> 'd lexer \<Rightarrow> 'd lexer run" where
  "lex_word E word tag c lx =
     (let start_col = lx_col lx; (s, lx) = getS (length word - 1) lx
      in if c # s = word then Some (Inr (push_token (Identifier E tag (c # s) (lx_line lx) start_col (int (length word))) lx))
         else Some (Inl (JsonSyntaxError (lx_line lx) (lx_col lx) (''not ['' @ word @ ''] identifier''))))"

definition lex_number :: "nat \<Rightarrow> 'd json_env \<Rightarrow> char \<Rightarrow> 'd lexer \<Rightarrow> 'd lexer run" where
  "lex_number fuel E c lx =
     (let start_col = lx_col lx
      in if c = CHR ''0'' \<and> isnumber (jr_peek (lx_reader lx))
         then Some (Inl (JsonSyntaxError (lx_line lx) (lx_col lx) ''leading zeros in decimal integer literals are not permitted''))
         else let s = [c]; (c, lx) = getC lx
              in run_bind (read_while fuel isnumber c s lx) (\<lambda>(c, s, lx).
                   if \<not> (c = CHR ''.'' \<or> isexponent c)
                   then let lx = backC lx
                        in (case db_trunc E (db_parse E s) of None \<Rightarrow> Some (Inl IntOverflow)
                            | Some n \<Rightarrow> Some (Inr (push_token (Number E n (lx_line lx) start_col (int (length s))) lx)))
                   else let s = s @ [c]; (c, lx) = getC lx
                        in run_bind (read_while fuel (\<lambda>c. isnumber c \<or> isexponent c \<or> c = CHR ''+'' \<or> c = CHR ''-'') c s lx) (\<lambda>(c, s, lx).
                             if last s = CHR ''.'' \<or> isexponent (last s)
                             then Some (Inl (JsonSyntaxError (lx_line lx) (lx_col lx) ''invalid float number''))
                             else let lx = backC lx
                                  in Some (Inr (push_token (Float E (db_parse E s) (lx_line lx) start_col (int (length s))) lx)))))"

definition lex_punct :: "'d json_env \<Rightarrow> tag \<Rightarrow> 'd lexer \<Rightarrow> 'd lexer run" where
  "lex_punct E tag lx = Some (Inr (push_token (Token E tag (lx_line lx) (lx_col lx) 1) lx))"

definition analysis :: "nat \<Rightarrow> 'd json_env \<Rightarrow> 'd lexer \<Rightarrow> 'd lexer run" where
  "analysis fuel E lx =
     (let (c, lx) = skip_blank EOFC lx
      in if c = CHR 0x22 then lex_string fuel E lx
         else if c = CHR ''/'' then lex_comment fuel lx
         else if c = CHR ''t'' then lex_word E ''true'' JSON_TRUE c lx
         else if c = CHR ''f'' then lex_word E ''false'' JSON_FALSE c lx
         else if c = CHR ''n'' then lex_word E ''null'' JSON_NULL c lx
         else if c = CHR '':'' then lex_punct E JSON_KEY_VALUE_SEP lx
         else if c = CHR '','' then lex_punct E JSON_SEP lx
         else if c = CHR ''{'' then lex_punct E JSON_OBJECT_BEGIN lx
         else if c = CHR ''['' then lex_punct E JSON_ARRAY_BEGIN lx
         else if c = CHR ''}'' then lex_punct E JSON_OBJECT_END lx
         else if c = CHR '']'' then lex_punct E JSON_ARRAY_END lx
         else if isnumber c \<or> c = CHR ''-'' \<or> c = CHR ''+'' then lex_number fuel E c lx
         else Some (Inr lx))"

fun get_tokens :: "nat \<Rightarrow> 'd json_env \<Rightarrow> 'd lexer \<Rightarrow> 'd lexer run" where
  "get_tokens 0 E lx = None"
| "get_tokens (Suc fuel) E lx =
     (if jr_eof (lx_reader lx) then Some (Inr lx)
      else run_bind (analysis fuel E lx) (get_tokens fuel E))"

definition getTokens :: "nat \<Rightarrow> 'd json_env \<Rightarrow> 'd lexer \<Rightarrow> 'd token list run" where
  \<comment> \<open>\<open>JsonParser::getTokens\<close>: a syntax error ends the process\<close>
  "getTokens fuel E lx =
     (case get_tokens fuel E lx of
        None \<Rightarrow> None
      | Some (Inl (JsonSyntaxError line col m)) \<Rightarrow> Some (Inl Exit)
      | Some (Inl (JsonError m)) \<Rightarrow> Some (Inl Exit)
      | Some (Inl e) \<Rightarrow> Some (Inl e)
      | Some (Inr lx) \<Rightarrow> Some (Inr (lx_tokens lx)))"


section \<open>What the lexer reads\<close>

definition lx_view :: "'d lexer \<Rightarrow> string" where
  \<comment> \<open>the characters not yet read\<close>
  "lx_view lx = drop (nat (jr_ptr (lx_reader lx) + 1)) (jr_buffer (lx_reader lx))"

definition lx_ok :: "'d lexer \<Rightarrow> bool" where
  "lx_ok lx \<longleftrightarrow> -1 \<le> jr_ptr (lx_reader lx) \<and> \<not> jr_eof (lx_reader lx)"

definition lx_fwd :: "nat \<Rightarrow> 'd lexer \<Rightarrow> 'd lexer" where
  "lx_fwd n lx = lx\<lparr>lx_col := lx_col lx + int n, lx_reader := (lx_reader lx)\<lparr>jr_ptr := jr_ptr (lx_reader lx) + int n\<rparr>\<rparr>"

definition peekC :: "'d lexer \<Rightarrow> char" where
  "peekC lx = jr_peek (lx_reader lx)"

lemma getC_fwd: "getC lx = (peekC lx, lx_fwd 1 lx)"
  by (simp add: getC_def jr_get_def peekC_def jr_peek_def jr_at_def lx_fwd_def Let_def)

lemma fwd_fwd [simp]: "lx_fwd m (lx_fwd n lx) = lx_fwd (m + n) lx"
  by (simp add: lx_fwd_def algebra_simps)

lemma backC_fwd [simp]: "backC (lx_fwd (Suc n) lx) = lx_fwd n lx"
  by (simp add: backC_def lx_fwd_def jr_back_def)

lemma fwd_0 [simp]: "lx_fwd 0 lx = lx"
  by (simp add: lx_fwd_def)

lemma fwd_fields [simp]:
  "lx_line (lx_fwd n lx) = lx_line lx" "lx_escape (lx_fwd n lx) = lx_escape lx" "lx_tokens (lx_fwd n lx) = lx_tokens lx"
  by (simp_all add: lx_fwd_def)

lemma view_fwd [simp]: "lx_ok lx \<Longrightarrow> lx_view (lx_fwd n lx) = drop n (lx_view lx)"
proof -
  assume "lx_ok lx"
  then have "nat (jr_ptr (lx_reader lx) + int n + 1) = n + nat (jr_ptr (lx_reader lx) + 1)" by (simp add: lx_ok_def nat_plus_as_int)
  then show ?thesis by (simp add: lx_view_def lx_fwd_def add.commute)
qed

lemma lx_ok_fwd [simp]: "lx_ok lx \<Longrightarrow> n \<le> length (lx_view lx) \<Longrightarrow> lx_ok (lx_fwd n lx)"
  by (auto simp: lx_view_def lx_fwd_def lx_ok_def jr_eof_def)

lemma peekC_view: "lx_ok lx \<Longrightarrow> peekC lx = (case lx_view lx of [] \<Rightarrow> EOFC | c # s \<Rightarrow> c)"
proof (cases "lx_view lx")
  case (Cons c s)
  assume "lx_ok lx"
  moreover from Cons have "nat (jr_ptr (lx_reader lx) + 1) < length (jr_buffer (lx_reader lx))"
    by (metis drop_all list.distinct(1) not_le lx_view_def)
  ultimately show ?thesis
    using Cons nth_via_drop [of "nat (jr_ptr (lx_reader lx) + 1)" "jr_buffer (lx_reader lx)" c s]
    by (auto simp: peekC_def jr_peek_def jr_at_def lx_view_def lx_ok_def)
qed (auto simp: peekC_def jr_peek_def jr_at_def lx_view_def lx_ok_def)

lemma peekC_Cons [simp]: "lx_ok lx \<Longrightarrow> lx_view lx = c # s \<Longrightarrow> peekC lx = c"
  by (simp add: peekC_view)

lemma view_push [simp]: "lx_view (push_token t lx) = lx_view lx" "lx_ok (push_token t lx) = lx_ok lx"
  by (simp_all add: lx_view_def lx_ok_def push_token_def)

lemma push_fields [simp]:
  "lx_escape (push_token t lx) = lx_escape lx" "lx_tokens (push_token t lx) = lx_tokens lx @ [t]"
  by (simp_all add: push_token_def)

lemma push_token_eq [simp]: "push_token t lx = push_token t' lx \<longleftrightarrow> t = t'"
proof
  assume "push_token t lx = push_token t' lx"
  then have "lx_tokens (push_token t lx) = lx_tokens (push_token t' lx)" by simp
  then show "t = t'" by simp
qed simp

subsection \<open>The loops\<close>

text \<open>The body of a string literal: no quote, and a known character after each backslash.\<close>

fun str_body :: "string \<Rightarrow> bool" where
  "str_body [] = True"
| "str_body [c] = (c \<noteq> CHR 0x5C \<and> c \<noteq> CHR 0x22)"
| "str_body (c # d # s) = (if c = CHR 0x5C then is_valid_next_escape_character d \<and> str_body s else c \<noteq> CHR 0x22 \<and> str_body (d # s))"

lemma read_string_body:
  assumes "str_body q" and "lx_ok lx" and "c # lx_view lx = q @ CHR 0x22 # rest" and "length q < fuel"
  shows "read_string fuel sc c acc lx = Some (Inr (acc @ q, lx_fwd (length q) lx))"
  using assms
proof (induction q arbitrary: fuel c acc lx rule: str_body.induct)
  case 1
  then show ?case by (cases fuel) (auto simp: is_string_begin_end_def)
next
  case (2 a)
  then have q: "c = a" "lx_view lx = CHR 0x22 # rest" "c \<noteq> CHR 0x5C" "c \<noteq> CHR 0x22" by auto
  from 2(4) obtain f where "fuel = Suc (Suc f)" by (auto simp: less_iff_Suc_add)
  with 2 q show ?case by (simp add: is_string_begin_end_def getC_fwd)
next
  case (3 a b s)
  from 3(6) obtain f where f: "fuel = Suc f" "Suc (length s) < f" by (cases fuel) auto
  show ?case
  proof (cases "a = CHR 0x5C")
    case True
    with 3 have q: "c = CHR 0x5C" "lx_view lx = b # s @ CHR 0x22 # rest" "is_valid_next_escape_character b" "str_body s" by auto
    obtain e r where e: "s @ CHR 0x22 # rest = e # r" by (cases "s @ CHR 0x22 # rest") auto
    have "read_string f sc e (acc @ [c, b]) (lx_fwd 2 lx) = Some (Inr ((acc @ [c, b]) @ s, lx_fwd (length s) (lx_fwd 2 lx)))"
      using 3(1) [OF True q(4), of "lx_fwd 2 lx" e f] 3(4) q e f by (simp add: numeral_2_eq_2)
    moreover have "peekC lx = b" "peekC (lx_fwd 1 lx) = e" using q e 3(4) by simp_all
    ultimately show ?thesis
      using q f True by (simp add: is_string_begin_end_def getC_fwd Let_def numeral_2_eq_2)
  next
    case False
    with 3 have q: "c = a" "lx_view lx = b # s @ CHR 0x22 # rest" "c \<noteq> CHR 0x22" "str_body (b # s)" by auto
    have "read_string f sc b (acc @ [c]) (lx_fwd 1 lx) = Some (Inr ((acc @ [c]) @ b # s, lx_fwd (length (b # s)) (lx_fwd 1 lx)))"
      using 3(2) [OF False q(4), of "lx_fwd 1 lx" b f] 3(4) q f by simp
    with q False f 3(4) show ?thesis by (simp add: is_string_begin_end_def getC_fwd Let_def)
  qed
qed

lemma read_while_digits:
  assumes "\<forall>d \<in> set ds. P d" and "lx_ok lx" and "c # lx_view lx = ds @ rest" and "\<not> P (case rest of [] \<Rightarrow> EOFC | x # _ \<Rightarrow> x)" "ds \<noteq> []" and "length ds < fuel"
  shows "read_while fuel P c acc lx = Some (Inr (case rest of [] \<Rightarrow> EOFC | x # _ \<Rightarrow> x, acc @ ds, lx_fwd (length ds) lx))"
  using assms
proof (induction ds arbitrary: fuel c acc lx)
  case (Cons d ds)
  from Cons.prems(6) obtain f where f: "fuel = Suc f" "length ds < f" by (cases fuel) auto
  from Cons.prems have q: "c = d" "lx_view lx = ds @ rest" "P c" by auto
  show ?case
  proof (cases ds)
    case Nil
    with q Cons.prems(2) have "peekC lx = (case rest of [] \<Rightarrow> EOFC | x # _ \<Rightarrow> x)" by (simp add: peekC_view)
    moreover from f obtain f' where "f = Suc f'" by (cases f) auto
    ultimately show ?thesis using q f Nil Cons.prems(4) by (simp add: getC_fwd)
  next
    case (Cons x xs)
    then show ?thesis
      using Cons.IH [of "lx_fwd 1 lx" x f "acc @ [c]"] Cons.prems q f by (simp add: getC_fwd)
  qed
qed simp


subsection \<open>One token\<close>

definition tk_core :: "'d token \<Rightarrow> 'd token" where
  \<comment> \<open>a token without its position\<close>
  "tk_core t = t\<lparr>tk_line := 0, tk_col := 0, tk_len := 0\<rparr>"

definition json_blank :: "char \<Rightarrow> bool" where
  "json_blank c \<longleftrightarrow> json_isspace c \<or> isnewline c"

definition number_char :: "char \<Rightarrow> bool" where
  "number_char c \<longleftrightarrow> isnumber c \<or> c = CHR ''.'' \<or> isexponent c"

definition delimited :: "string \<Rightarrow> bool" where
  \<comment> \<open>what may follow a number\<close>
  "delimited s \<longleftrightarrow> (case s of [] \<Rightarrow> True | c # _ \<Rightarrow> \<not> number_char c)"

lemma core_simps [simp]:
  "tk_core (Token E tg l c n) = Token E tg 0 0 0"
  "tk_core (String E s l c n) = String E s 0 0 0"
  "tk_core (Number E i l c n) = Number E i 0 0 0"
  "tk_core (Identifier E tg s l c n) = Identifier E tg s 0 0 0"
  by (simp_all add: tk_core_def Token_def String_def Number_def Identifier_def)

lemma EOFC_plain [simp]: "\<not> json_isspace EOFC" "\<not> isnewline EOFC" "\<not> number_char EOFC" "\<not> isnumber EOFC"
  by (simp_all add: json_isspace_def isnewline_def number_char_def isnumber_def isexponent_def EOFC_def)

lemma skip_blank_stop:
  "lx_ok lx \<Longrightarrow> lx_view lx = c # s \<Longrightarrow> \<not> json_blank c \<Longrightarrow> skip_blank c0 lx = (c, lx_fwd 1 lx)"
  by (subst skip_blank.simps) (simp add: getC_fwd json_blank_def lx_ok_def)

lemma skip_blank_end: "lx_ok lx \<Longrightarrow> lx_view lx = [] \<Longrightarrow> skip_blank c0 lx = (EOFC, lx_fwd 1 lx)"
  by (subst skip_blank.simps) (simp add: getC_fwd lx_ok_def peekC_view)

definition lx_skip :: "char \<Rightarrow> 'd lexer \<Rightarrow> 'd lexer" where
  "lx_skip c lx = (if json_isspace c then lx_fwd 1 lx else (lx_fwd 1 lx)\<lparr>lx_col := 1, lx_line := lx_line lx + 1\<rparr>)"

lemma skip1_simps [simp]:
  "lx_ok lx \<Longrightarrow> lx_view (lx_skip c lx) = drop 1 (lx_view lx)" "lx_escape (lx_skip c lx) = lx_escape lx" "lx_tokens (lx_skip c lx) = lx_tokens lx"
  "lx_ok lx \<Longrightarrow> lx_view lx \<noteq> [] \<Longrightarrow> lx_ok (lx_skip c lx)"
proof -
  show "lx_escape (lx_skip c lx) = lx_escape lx" "lx_tokens (lx_skip c lx) = lx_tokens lx" by (simp_all add: lx_skip_def)
  have *: "lx_view (lx\<lparr>lx_col := a, lx_line := b\<rparr>) = lx_view lx" "lx_ok (lx\<lparr>lx_col := a, lx_line := b\<rparr>) = lx_ok lx" for a b and lx :: "'a lexer"
    by (simp_all add: lx_view_def lx_ok_def)
  show "lx_ok lx \<Longrightarrow> lx_view (lx_skip c lx) = drop 1 (lx_view lx)" by (simp add: lx_skip_def *)
  show "lx_ok lx \<Longrightarrow> lx_view lx \<noteq> [] \<Longrightarrow> lx_ok (lx_skip c lx)" by (cases "lx_view lx") (simp_all add: lx_skip_def *)
qed

lemma analysis_blank:
  assumes "lx_ok lx" and "lx_view lx = c # s" and "json_blank c"
  shows "analysis fuel E lx = analysis fuel E (lx_skip c lx)"
proof -
  have a: "lx_ok (lx_skip c lx)" using assms by simp
  have "skip_blank EOFC lx = skip_blank c (lx_skip c lx)"
    using assms by (subst skip_blank.simps) (auto simp: getC_fwd json_blank_def lx_ok_def lx_skip_def)
  also have "\<dots> = skip_blank EOFC (lx_skip c lx)"
    using a by (subst (1 2) skip_blank.simps) (simp add: lx_ok_def)
  finally show ?thesis by (simp add: analysis_def)
qed

lemma get_tokens_blank:
  assumes "lx_ok lx" and "lx_view lx = c # s" and "json_blank c"
  shows "get_tokens fuel E lx = get_tokens fuel E (lx_skip c lx)"
proof (cases fuel)
  case (Suc f)
  have "lx_ok (lx_skip c lx)" using assms by simp
  with Suc assms show ?thesis by (simp add: analysis_blank lx_ok_def)
qed simp

lemma get_tokens_end:
  assumes "lx_ok lx" and "lx_view lx = []"
  shows "get_tokens (Suc (Suc fuel)) E lx = Some (Inr (lx_fwd 1 lx))"
proof -
  have "analysis (Suc fuel) E lx = Some (Inr (lx_fwd 1 lx))"
    using assms by (simp add: analysis_def skip_blank_end EOFC_def isnumber_def)
  moreover have "jr_eof (lx_reader (lx_fwd 1 lx))"
    using assms by (auto simp: lx_ok_def lx_view_def jr_eof_def lx_fwd_def)
  ultimately show ?thesis using assms by (simp add: lx_ok_def)
qed

definition lx_piece :: "'d json_env \<Rightarrow> (string \<Rightarrow> bool) \<Rightarrow> string \<Rightarrow> 'd token \<Rightarrow> bool" where
  \<comment> \<open>\<open>w\<close> is the text of the token \<open>t\<close> where \<open>follow\<close> holds of the text behind it\<close>
  "lx_piece E follow w t \<longleftrightarrow> w \<noteq> [] \<and> (\<forall>lx fuel rest. lx_ok lx \<longrightarrow> lx_escape lx \<longrightarrow> lx_view lx = w @ rest \<longrightarrow> follow rest \<longrightarrow> length w \<le> fuel \<longrightarrow>
     (\<exists>t'. analysis fuel E lx = Some (Inr (push_token t' (lx_fwd (length w) lx))) \<and> tk_core t' = t))"

lemma pieceI:
  assumes "w \<noteq> []"
    and "\<And>lx fuel rest. lx_ok lx \<Longrightarrow> lx_escape lx \<Longrightarrow> lx_view lx = w @ rest \<Longrightarrow> follow rest \<Longrightarrow> length w \<le> fuel \<Longrightarrow>
      \<exists>t'. analysis fuel E lx = Some (Inr (push_token t' (lx_fwd (length w) lx))) \<and> tk_core t' = t"
  shows "lx_piece E follow w t"
  using assms by (simp add: lx_piece_def)

lemma analysis_punct:
  assumes "(c, tg) \<in> set [(CHR ''{'', JSON_OBJECT_BEGIN), (CHR ''}'', JSON_OBJECT_END), (CHR ''['', JSON_ARRAY_BEGIN),
     (CHR '']'', JSON_ARRAY_END), (CHR '':'', JSON_KEY_VALUE_SEP), (CHR '','', JSON_SEP)]"
    and "lx_ok lx" and "lx_view lx = c # rest"
  shows "analysis fuel E lx = lex_punct E tg (lx_fwd 1 lx)"
proof -
  have "c = CHR ''{'' \<and> tg = JSON_OBJECT_BEGIN \<or> c = CHR ''}'' \<and> tg = JSON_OBJECT_END \<or> c = CHR ''['' \<and> tg = JSON_ARRAY_BEGIN
    \<or> c = CHR '']'' \<and> tg = JSON_ARRAY_END \<or> c = CHR '':'' \<and> tg = JSON_KEY_VALUE_SEP \<or> c = CHR '','' \<and> tg = JSON_SEP"
    using assms(1) by simp
  moreover from this have "skip_blank EOFC lx = (c, lx_fwd 1 lx)"
    using assms(2,3) by (elim disjE) (simp_all add: skip_blank_stop json_blank_def json_isspace_def isnewline_def)
  ultimately show ?thesis by (elim disjE) (simp_all add: analysis_def)
qed

lemma piece_punct:
  assumes "(c, tg) \<in> set [(CHR ''{'', JSON_OBJECT_BEGIN), (CHR ''}'', JSON_OBJECT_END), (CHR ''['', JSON_ARRAY_BEGIN),
     (CHR '']'', JSON_ARRAY_END), (CHR '':'', JSON_KEY_VALUE_SEP), (CHR '','', JSON_SEP)]"
  shows "lx_piece E (\<lambda>_. True) [c] (Token E tg 0 0 0)"
proof (rule pieceI)
  fix lx :: "'a lexer" and fuel :: nat and rest
  assume "lx_ok lx" "lx_view lx = [c] @ rest"
  then have "analysis fuel E lx = lex_punct E tg (lx_fwd 1 lx)" by (simp add: analysis_punct [OF assms])
  then show "\<exists>t'. analysis fuel E lx = Some (Inr (push_token t' (lx_fwd (length [c]) lx))) \<and> tk_core t' = Token E tg 0 0 0"
    by (simp add: lex_punct_def)
qed simp

lemma jr_gets_ptr: "snd (jr_gets n r) = r\<lparr>jr_ptr := jr_ptr r + int n\<rparr>"
  by (induction n arbitrary: r) (simp_all add: jr_get_def Let_def split_beta algebra_simps)

lemma getS_view:
  "lx_ok lx \<Longrightarrow> lx_view lx = w @ rest \<Longrightarrow> getS (length w) lx = (w, lx_fwd (length w) lx)"
proof -
  have "lx_ok lx \<Longrightarrow> lx_view lx = w @ rest \<Longrightarrow> fst (jr_gets (length w) (lx_reader lx)) = w"
  proof (induction w arbitrary: lx)
    case (Cons c w)
    then have "fst (jr_gets (length w) (lx_reader (lx_fwd 1 lx))) = w" by simp
    moreover have "jr_get (lx_reader lx) = (c, lx_reader (lx_fwd 1 lx))"
      using peekC_Cons [OF Cons.prems(1), of c "w @ rest"] Cons.prems(2)
      by (auto simp: jr_get_def lx_fwd_def peekC_def jr_peek_def jr_at_def Let_def split: if_splits)
    ultimately show ?case by (simp add: split_beta)
  qed simp
  then show "lx_ok lx \<Longrightarrow> lx_view lx = w @ rest \<Longrightarrow> getS (length w) lx = (w, lx_fwd (length w) lx)"
    by (simp add: getS_def jr_gets_ptr lx_fwd_def split_beta)
qed

lemma analysis_word:
  assumes "(c # w, tg) \<in> set [(''true'', JSON_TRUE), (''false'', JSON_FALSE), (''null'', JSON_NULL)]"
    and "lx_ok lx" and "lx_view lx = c # rest"
  shows "analysis fuel E lx = lex_word E (c # w) tg c (lx_fwd 1 lx)"
proof -
  have "c = CHR ''t'' \<and> w = ''rue'' \<and> tg = JSON_TRUE \<or> c = CHR ''f'' \<and> w = ''alse'' \<and> tg = JSON_FALSE \<or> c = CHR ''n'' \<and> w = ''ull'' \<and> tg = JSON_NULL"
    using assms(1) by simp
  moreover from this have "skip_blank EOFC lx = (c, lx_fwd 1 lx)"
    using assms(2,3) by (elim disjE) (simp_all add: skip_blank_stop json_blank_def json_isspace_def isnewline_def)
  ultimately show ?thesis by (elim disjE) (simp_all add: analysis_def)
qed

lemma piece_word:
  assumes "(c # w, tg) \<in> set [(''true'', JSON_TRUE), (''false'', JSON_FALSE), (''null'', JSON_NULL)]"
  shows "lx_piece E (\<lambda>_. True) (c # w) (Identifier E tg (c # w) 0 0 0)"
proof (rule pieceI)
  fix lx :: "'a lexer" and fuel :: nat and rest
  assume lx: "lx_ok lx" "lx_view lx = (c # w) @ rest"
  then have "getS (length w) (lx_fwd 1 lx) = (w, lx_fwd (length (c # w)) lx)"
    using getS_view [of "lx_fwd 1 lx" w rest] by simp
  moreover have "analysis fuel E lx = lex_word E (c # w) tg c (lx_fwd 1 lx)" using lx by (simp add: analysis_word [OF assms])
  ultimately show "\<exists>t'. analysis fuel E lx = Some (Inr (push_token t' (lx_fwd (length (c # w)) lx))) \<and> tk_core t' = Identifier E tg (c # w) 0 0 0"
    by (simp add: lex_word_def)
qed simp


lemma unescape_character_cases:
  "unescape_character c = [c] \<and> c \<noteq> CHR 0x5C \<and> c \<noteq> CHR 0x22 \<or>
   (\<exists>d. unescape_character c = [CHR 0x5C, d] \<and> is_valid_next_escape_character d \<and> d \<noteq> CHR ''u'' \<and> d \<noteq> CHR ''x'' \<and> escape_character d = c)"
  by (simp add: unescape_character_def is_valid_next_escape_character_def escape_character_def)

lemma str_body_Cons: "c \<noteq> CHR 0x5C \<Longrightarrow> str_body (c # s) \<longleftrightarrow> c \<noteq> CHR 0x22 \<and> str_body s"
  by (cases s) auto

lemma unescape_string_Cons: "unescape_string (c # s) = unescape_character c @ unescape_string s"
  by (simp add: unescape_string_def)

lemma str_body_unescape: "str_body (unescape_string s)"
proof (induction s)
  case (Cons c s)
  from unescape_character_cases [of c] Cons show ?case
    by (auto simp: unescape_string_Cons str_body_Cons)
qed (simp add: unescape_string_def)

text \<open>Reading what was printed with escapes gives the string back.\<close>

lemma escape_unescape: "escape_string E (unescape_string s) = Inr s"
proof (induction s)
  case (Cons c s)
  from unescape_character_cases [of c] Cons show ?case
    by (auto simp: unescape_string_Cons)
qed (simp add: unescape_string_def)

lemma piece_string:
  assumes "str_body q" and "escape_string E q = Inr s"
  shows "lx_piece E (\<lambda>_. True) ([CHR 0x22] @ q @ [CHR 0x22]) (String E s 0 0 0)"
proof (rule pieceI)
  fix lx :: "'a lexer" and fuel :: nat and rest
  let ?w = "[CHR 0x22] @ q @ [CHR 0x22]"
  assume lx: "lx_ok lx" "lx_escape lx" "lx_view lx = ?w @ rest" and f: "length ?w \<le> fuel"
  obtain c r where c: "q @ CHR 0x22 # rest = c # r" by (cases "q @ CHR 0x22 # rest") auto
  have "skip_blank EOFC lx = (CHR 0x22, lx_fwd 1 lx)"
    using lx by (simp add: skip_blank_stop json_blank_def json_isspace_def isnewline_def)
  moreover have "peekC (lx_fwd 1 lx) = c" using lx c by simp
  moreover have "read_string fuel (lx_col (lx_fwd 1 lx)) c [] (lx_fwd 2 lx) = Some (Inr (q, lx_fwd (length q) (lx_fwd 2 lx)))"
    using read_string_body [OF assms(1), of "lx_fwd 2 lx" c rest fuel "lx_col (lx_fwd 1 lx)" "[]"] lx c f by (simp add: numeral_2_eq_2)
  ultimately show "\<exists>t'. analysis fuel E lx = Some (Inr (push_token t' (lx_fwd (length ?w) lx))) \<and> tk_core t' = String E s 0 0 0"
    using lx assms(2) by (simp add: analysis_def lex_string_def getC_fwd Let_def numeral_2_eq_2)
qed simp

lemma isnumber_digit: "k < 10 \<Longrightarrow> isnumber (char_of (48 + k :: nat))"
  by (simp add: isnumber_def)

lemma decimal_digits: "list_all isnumber (decimal n)"
proof (induction n rule: decimal.induct)
  case (1 n)
  have "isnumber (char_of (48 + n mod 10))" by (rule isnumber_digit) simp
  with 1 show ?case by (subst decimal.simps) (simp add: isnumber_digit)
qed

lemma decimal_no_zero: "decimal n = CHR ''0'' # s \<Longrightarrow> s = [] \<and> n = 0"
proof (induction n arbitrary: s rule: decimal.induct)
  case (1 n)
  show ?case
  proof (cases "n < 10")
    case True
    with "1.prems" have "char_of (48 + n) = CHR ''0''" "s = []" by (subst (asm) decimal.simps, simp)+
    then have "(of_char (char_of (48 + n) :: char) :: nat) = 48" "s = []" by simp_all
    with True show ?thesis by simp
  next
    case False
    then obtain c s' where d: "decimal (n div 10) = c # s'"
      by (cases "decimal (n div 10)") (auto simp: decimal.simps [of "n div 10"] split: if_splits)
    with False "1.prems" have "c = CHR ''0''" by (subst (asm) decimal.simps) simp
    with "1.IH" [OF False, of s'] d have "n div 10 = 0" by simp
    with False show ?thesis by (simp add: div_eq_0_iff)
  qed
qed

lemma int_decimal_shape:
  obtains c ds where "int_decimal i = c # ds" "isnumber c \<or> c = CHR ''-''" "\<forall>d \<in> set ds. isnumber d" "c = CHR ''0'' \<longrightarrow> ds = []"
proof (cases "i < 0")
  case True
  with decimal_digits [of "nat (- i)"] show ?thesis
    by (intro that [of "CHR ''-''" "decimal (nat (- i))"]) (simp_all add: int_decimal_def list_all_iff)
next
  case False
  obtain c ds where d: "decimal (nat i) = c # ds" by (cases "decimal (nat i)") (auto simp: decimal.simps [of "nat i"] split: if_splits)
  with False decimal_digits [of "nat i"] decimal_no_zero [of "nat i" ds] show ?thesis
    by (intro that [of c ds]) (auto simp: int_decimal_def list_all_iff)
qed

lemma number_char_analysis:
  assumes "isnumber c \<or> c = CHR ''-''" and "lx_ok lx" and "lx_view lx = c # rest"
  shows "analysis fuel E lx = lex_number fuel E c (lx_fwd 1 lx)"
proof -
  have c: "of_char c \<in> {48..57 :: nat} \<or> c = CHR ''-''" using assms(1) by (simp add: isnumber_def)
  then have "of_char c \<noteq> (of_char d :: nat)" if "d \<in> set '' tfn:,{[}]/'' \<union> {CHR 0x09, CHR 0x0B, CHR 0x0A, CHR 0x22}" for d
    using that by auto
  then have ne: "c \<noteq> d" if "d \<in> set '' tfn:,{[}]/'' \<union> {CHR 0x09, CHR 0x0B, CHR 0x0A, CHR 0x22}" for d using that by blast
  have "skip_blank EOFC lx = (c, lx_fwd 1 lx)"
    using assms(2,3) ne by (simp add: skip_blank_stop json_blank_def json_isspace_def isnewline_def)
  moreover have "isnumber c \<or> c = CHR ''-'' \<or> c = CHR ''+''" using assms(1) by blast
  ultimately show ?thesis using ne by (simp add: analysis_def)
qed

lemma piece_int:
  assumes "db_trunc E (db_parse E (int_decimal i)) = Some i"
  shows "lx_piece E delimited (int_decimal i) (Number E i 0 0 0)"
proof -
  obtain c ds where w: "int_decimal i = c # ds" "isnumber c \<or> c = CHR ''-''" "\<forall>d \<in> set ds. isnumber d" "c = CHR ''0'' \<longrightarrow> ds = []"
    by (rule int_decimal_shape [of i])
  show ?thesis unfolding w(1)
  proof (rule pieceI)
    fix lx :: "'a lexer" and fuel :: nat and rest
    assume lx: "lx_ok lx" "lx_view lx = (c # ds) @ rest" and del: "delimited rest" and f: "length (c # ds) \<le> fuel"
    define x where "x = (case rest of [] \<Rightarrow> EOFC | x # _ \<Rightarrow> x)"
    have x: "\<not> number_char x" using del by (auto simp: delimited_def x_def split: list.splits)
    obtain d ds' where d: "peekC (lx_fwd 1 lx) = d" "d = (case ds of [] \<Rightarrow> x | d # _ \<Rightarrow> d)"
      using lx by (auto simp: peekC_view x_def split: list.split)
    have "read_while fuel isnumber d [c] (lx_fwd 2 lx) = Some (Inr (x, c # ds, lx_fwd (length (c # ds) + 1) lx))"
    proof (cases ds)
      case Nil
      with d x f show ?thesis by (cases fuel) (auto simp: number_char_def numeral_2_eq_2)
    next
      case (Cons e es)
      then show ?thesis
        using read_while_digits [of ds isnumber "lx_fwd 2 lx" d rest fuel "[c]"] lx d x w(3) f
        by (simp add: number_char_def flip: x_def)
    qed
    moreover have "\<not> (c = CHR ''0'' \<and> isnumber (jr_peek (lx_reader (lx_fwd 1 lx))))"
      using d x w(4) by (auto simp: number_char_def peekC_def)
    ultimately show "\<exists>t'. analysis fuel E lx = Some (Inr (push_token t' (lx_fwd (length (c # ds)) lx))) \<and> tk_core t' = Number E i 0 0 0"
      using lx x d assms w(1,2)
      by (simp add: number_char_analysis lex_number_def getC_fwd Let_def number_char_def numeral_2_eq_2)
  qed simp
qed


subsection \<open>A text of tokens\<close>

text \<open>
  \<open>lexes E follow w toks\<close>: the lexer reads the tokens \<open>toks\<close> (up to their positions) from the
  text \<open>w\<close>, whatever stands before it, where \<open>follow\<close> holds of the text behind it. Fuel for one
  turn per character and two for the end is enough.
\<close>

definition lexes :: "'d json_env \<Rightarrow> (string \<Rightarrow> bool) \<Rightarrow> string \<Rightarrow> 'd token list \<Rightarrow> bool" where
  "lexes E follow w toks \<longleftrightarrow> length toks \<le> length w \<and> (\<forall>lx rest fuel. lx_ok lx \<longrightarrow> lx_escape lx \<longrightarrow> lx_view lx = w @ rest \<longrightarrow> follow rest \<longrightarrow> length (w @ rest) + 2 \<le> fuel \<longrightarrow>
     (\<exists>lx' fuel'. get_tokens fuel E lx = get_tokens fuel' E lx' \<and> lx_ok lx' \<and> lx_escape lx' \<and> lx_view lx' = rest \<and> length rest + 2 \<le> fuel'
        \<and> map tk_core (lx_tokens lx') = map tk_core (lx_tokens lx) @ toks))"

lemma lexesD:
  assumes "lexes E follow w toks" and "lx_ok lx" "lx_escape lx" "lx_view lx = w @ rest" "follow rest" "length (w @ rest) + 2 \<le> fuel"
  obtains lx' fuel' where "get_tokens fuel E lx = get_tokens fuel' E lx'" "lx_ok lx'" "lx_escape lx'" "lx_view lx' = rest" "length rest + 2 \<le> fuel'"
    "map tk_core (lx_tokens lx') = map tk_core (lx_tokens lx) @ toks"
  using assms unfolding lexes_def by blast

lemma lexes_Nil: "lexes E follow [] []"
  unfolding lexes_def by auto

lemma lexes_append:
  assumes 1: "lexes E f v ts" and 2: "lexes E g w us" and f: "\<And>rest. g rest \<Longrightarrow> f (w @ rest)"
  shows "lexes E g (v @ w) (ts @ us)"
  unfolding lexes_def
proof (intro conjI allI impI)
  show "length (ts @ us) \<le> length (v @ w)" using 1 2 by (simp add: lexes_def)
  fix lx :: "'a lexer" and rest fuel
  assume lx: "lx_ok lx" "lx_escape lx" "lx_view lx = (v @ w) @ rest" "g rest" "length ((v @ w) @ rest) + 2 \<le> fuel"
  then have "lx_view lx = v @ w @ rest" "length (v @ w @ rest) + 2 \<le> fuel" by simp_all
  from lexesD [OF 1 lx(1,2) this(1) f [OF lx(4)] this(2)] obtain lx1 fuel1
    where 1: "get_tokens fuel E lx = get_tokens fuel1 E lx1" "lx_ok lx1" "lx_escape lx1" "lx_view lx1 = w @ rest" "length (w @ rest) + 2 \<le> fuel1"
      "map tk_core (lx_tokens lx1) = map tk_core (lx_tokens lx) @ ts" .
  from lexesD [OF 2 1(2,3,4) lx(4) 1(5)] obtain lx2 fuel2
    where 2: "get_tokens fuel1 E lx1 = get_tokens fuel2 E lx2" "lx_ok lx2" "lx_escape lx2" "lx_view lx2 = rest" "length rest + 2 \<le> fuel2"
      "map tk_core (lx_tokens lx2) = map tk_core (lx_tokens lx1) @ us" .
  show "\<exists>lx' fuel'. get_tokens fuel E lx = get_tokens fuel' E lx' \<and> lx_ok lx' \<and> lx_escape lx' \<and> lx_view lx' = rest \<and> length rest + 2 \<le> fuel'
      \<and> map tk_core (lx_tokens lx') = map tk_core (lx_tokens lx) @ ts @ us"
    using 1 2 by (intro exI [of _ lx2] exI [of _ fuel2]) simp
qed

lemma lexes_blank: assumes "json_blank c" shows "lexes E follow [c] []"
  unfolding lexes_def
proof (intro conjI allI impI)
  fix lx :: "'a lexer" and rest fuel
  assume lx: "lx_ok lx" "lx_escape lx" "lx_view lx = [c] @ rest" "length ([c] @ rest) + 2 \<le> fuel"
  then show "\<exists>lx' fuel'. get_tokens fuel E lx = get_tokens fuel' E lx' \<and> lx_ok lx' \<and> lx_escape lx' \<and> lx_view lx' = rest \<and> length rest + 2 \<le> fuel'
      \<and> map tk_core (lx_tokens lx') = map tk_core (lx_tokens lx) @ []"
    using assms by (intro exI [of _ "lx_skip c lx"] exI [of _ fuel]) (simp add: get_tokens_blank)
qed simp

lemma lexes_piece:
  assumes "lx_piece E follow w t"
  shows "lexes E follow w [t]"
  unfolding lexes_def
proof (intro conjI allI impI)
  show "length [t] \<le> length w" using assms by (cases w) (simp_all add: lx_piece_def)
  fix lx :: "'a lexer" and rest fuel
  assume lx: "lx_ok lx" "lx_escape lx" "lx_view lx = w @ rest" "follow rest" and f: "length (w @ rest) + 2 \<le> fuel"
  then obtain n where n: "fuel = Suc n" "length w \<le> n" by (cases fuel) auto
  then obtain t' where "analysis n E lx = Some (Inr (push_token t' (lx_fwd (length w) lx)))" "tk_core t' = t"
    using assms lx unfolding lx_piece_def by blast
  moreover have "w \<noteq> []" using assms by (simp add: lx_piece_def)
  then have "length rest + 2 \<le> n" using n f by (cases w) auto
  ultimately show "\<exists>lx' fuel'. get_tokens fuel E lx = get_tokens fuel' E lx' \<and> lx_ok lx' \<and> lx_escape lx' \<and> lx_view lx' = rest \<and> length rest + 2 \<le> fuel'
      \<and> map tk_core (lx_tokens lx') = map tk_core (lx_tokens lx) @ [t]"
    using lx n by (intro exI [of _ "push_token t' (lx_fwd (length w) lx)"] exI [of _ n]) (simp add: lx_ok_def [of lx])
qed

lemma lexes_weaken: "lexes E (\<lambda>_. True) w toks \<Longrightarrow> lexes E follow w toks"
  unfolding lexes_def by blast

lemma lexes_then:
  \<comment> \<open>a text that may stand before any other\<close>
  "lexes E (\<lambda>_. True) v ts \<Longrightarrow> lexes E g w us \<Longrightarrow> lexes E g (v @ w) (ts @ us)"
  by (rule lexes_append) auto

lemma lexes_blanks: "\<forall>c \<in> set w. json_blank c \<Longrightarrow> lexes E follow w []"
proof (induction w)
  case (Cons c w)
  then show ?case using lexes_then [of E "[c]" "[]" follow w "[]"] by (simp add: lexes_blank)
qed (simp add: lexes_Nil)

lemma getTokens_lexes:
  assumes "lexes E follow w toks" and "follow []" and "length w + 2 \<le> fuel"
  shows "\<exists>ts. getTokens fuel E (lexer_new w True) = Some (Inr ts) \<and> map tk_core ts = toks \<and> length ts \<le> length w"
proof -
  let ?lx = "lexer_new w True"
  have "lx_ok ?lx" "lx_escape ?lx" "lx_view ?lx = w @ []" "lx_tokens ?lx = []"
    by (simp_all add: lexer_new_def set_buffer_def lx_ok_def lx_view_def jr_eof_def)
  moreover have "length (w @ []) + 2 \<le> fuel" using assms(3) by simp
  ultimately obtain lx' fuel'
    where l: "get_tokens fuel E ?lx = get_tokens fuel' E lx'" "lx_ok lx'" "lx_view lx' = []" "length ([] :: string) + 2 \<le> fuel'"
      "map tk_core (lx_tokens lx') = map tk_core [] @ toks"
    using lexesD [OF assms(1) _ _ _ assms(2)] by metis
  from l(4) obtain n where "fuel' = Suc (Suc n)" by (auto simp: le_iff_add)
  with l have "get_tokens fuel E ?lx = Some (Inr (lx_fwd 1 lx'))" using get_tokens_end by metis
  with l(5) assms(1) show ?thesis by (auto simp: getTokens_def lexes_def)
qed


subsection \<open>Literals that never end\<close>

lemma read_string_hangs:
  assumes "c \<noteq> CHR 0x22" "c \<noteq> CHR 0x5C" and "\<And>n. peekC (lx_fwd n lx) \<noteq> CHR 0x22 \<and> peekC (lx_fwd n lx) \<noteq> CHR 0x5C"
  shows "read_string fuel sc c acc lx = None"
  using assms
proof (induction fuel arbitrary: c acc lx)
  case (Suc fuel)
  have "peekC (lx_fwd n (lx_fwd 1 lx)) \<noteq> CHR 0x22 \<and> peekC (lx_fwd n (lx_fwd 1 lx)) \<noteq> CHR 0x5C" for n using Suc.prems(3) [of "n + 1"] by simp
  then have "read_string fuel sc (peekC lx) (acc @ [c]) (lx_fwd 1 lx) = None"
    using Suc.prems(3) [of 0] by (intro Suc.IH) simp_all
  then show ?case using Suc.prems(1,2) by (simp add: is_string_begin_end_def getC_fwd)
qed simp

lemma peekC_new: "peekC (lx_fwd n (lexer_new text escape)) = (if n < length text then text ! n else EOFC)"
  by (auto simp: peekC_def jr_peek_def jr_at_def lx_fwd_def lexer_new_def set_buffer_def nat_plus_as_int)


text \<open>An environment for concrete inputs: whole numbers in place of \<open>double\<close>, ASCII in place of UTF-8.\<close>

definition read_digits :: "string \<Rightarrow> int" where
  "read_digits s = foldl (\<lambda>n c. n * 10 + (int (of_char c) - 48)) 0 s"

definition read_int :: "string \<Rightarrow> int" where
  "read_int s = (case s of [] \<Rightarrow> 0 | c # t \<Rightarrow> if c = CHR ''-'' then - read_digits t else read_digits s)"

definition int_env :: "int json_env" where
  "int_env = \<lparr>db_zero = 0, db_parse = read_int, db_trunc = (\<lambda>i. if int_range i then Some i else None),
     db_str = int_decimal, to_bytes = (\<lambda>n. if n < 128 then Some [char_of n] else None)\<rparr>"

lemma read_digits_decimal: "read_digits (decimal n) = int n"
proof (induction n rule: decimal.induct)
  case (1 n)
  show ?case
  proof (cases "n < 10")
    case True
    then show ?thesis by (subst decimal.simps) (simp add: read_digits_def of_char_of)
  next
    case False
    then have "read_digits (decimal (n div 10)) = int (n div 10)" using 1 by simp
    moreover have "(of_char (char_of (48 + n mod 10) :: char) :: nat) = 48 + n mod 10" by (simp add: of_char_of)
    moreover have "int (n div 10) * 10 + int (n mod 10) = int n" by presburger
    ultimately show ?thesis using False by (subst decimal.simps) (simp add: read_digits_def)
  qed
qed

lemma read_int_decimal: "read_int (int_decimal i) = i"
proof (cases "i < 0")
  case True
  then show ?thesis by (simp add: read_int_def int_decimal_def read_digits_decimal)
next
  case False
  obtain c s where d: "decimal (nat i) = c # s" by (cases "decimal (nat i)") (auto simp: decimal.simps [of "nat i"] split: if_splits)
  with decimal_digits [of "nat i"] have "c \<noteq> CHR ''-''" by (auto simp: isnumber_def)
  with d False read_digits_decimal [of "nat i"] show ?thesis by (simp add: read_int_def int_decimal_def)
qed


end
