(* ===== verification/JsonParser.thy ===== *)
theory JsonParser
  imports JsonLexer
begin

text \<open>
  \<open>soc/libjson\<close>: JSON values (\<open>JsonValue.h\<close> and the classes derived from it) and the parser
  (\<open>JsonParser.h\<close>, \<open>JsonParser.cc\<close>). The parser keeps the tokens and an index; the model
  passes the tokens from the index on. A null \<open>shared_ptr<JsonValue>\<close> is \<open>Nullptr\<close>.
\<close>


section \<open>Values\<close>

datatype JsonType = JObjectType | JArrayType | JStringType | JNumberType | JBooleanType | JNullType

datatype 'd json =
    JsonObject "((string \<times> bool) \<times> 'd json) list"   \<comment> \<open>a key is a \<open>JsonString\<close>: its value and \<open>isEscaped\<close>\<close>
  | JsonArray "'d json list"
  | JsonString string bool
  | JsonInt int                                    \<comment> \<open>\<open>JsonNumber\<close> with \<open>integer\<close>\<close>
  | JsonFloat 'd                                   \<comment> \<open>\<open>JsonNumber\<close> without\<close>
  | JsonBoolean bool
  | JsonNull
  | Nullptr

fun json_type :: "'d json \<Rightarrow> JsonType res" where
  "json_type (JsonObject kvs) = Inr JObjectType"
| "json_type (JsonArray vs) = Inr JArrayType"
| "json_type (JsonString s e) = Inr JStringType"
| "json_type (JsonInt i) = Inr JNumberType"
| "json_type (JsonFloat d) = Inr JNumberType"
| "json_type (JsonBoolean b) = Inr JBooleanType"
| "json_type JsonNull = Inr JNullType"
| "json_type Nullptr = Inl NullPointer"

fun value_string :: "'d json \<Rightarrow> string res" where
  \<comment> \<open>\<open>value<std::string>()\<close>\<close>
  "value_string (JsonString s e) = Inr s"
| "value_string Nullptr = Inl NullPointer"
| "value_string _ = Inr []"

fun value_int :: "'d json \<Rightarrow> int res" where
  "value_int (JsonInt i) = Inr i"
| "value_int Nullptr = Inl NullPointer"
| "value_int _ = Inr 0"

fun value_bool :: "'d json \<Rightarrow> bool res" where
  "value_bool (JsonBoolean b) = Inr b"
| "value_bool Nullptr = Inl NullPointer"
| "value_bool _ = Inr False"

fun toJsonObject :: "'d json \<Rightarrow> ((string \<times> bool) \<times> 'd json) list option res" where
  \<comment> \<open>\<open>None\<close>: the null pointer\<close>
  "toJsonObject (JsonObject kvs) = Inr (Some kvs)"
| "toJsonObject Nullptr = Inl NullPointer"
| "toJsonObject _ = Inr None"

definition quoted :: "string \<Rightarrow> string" where
  "quoted s = [CHR 0x22] @ s @ [CHR 0x22]"

definition string_toString :: "'d json_env \<Rightarrow> bool \<Rightarrow> string \<times> bool \<Rightarrow> string res" where
  \<comment> \<open>\<open>JsonString::toString(bool escape)\<close>\<close>
  "string_toString E escape = (\<lambda>(s, isEscaped).
     res_map quoted (if escape then if \<not> isEscaped then escape_string E s else Inr s
                     else if isEscaped then Inr (unescape_string s) else Inr s))"

fun json_toString :: "'d json_env \<Rightarrow> 'd json \<Rightarrow> string res"
  and members_toString :: "'d json_env \<Rightarrow> ((string \<times> bool) \<times> 'd json) list \<Rightarrow> string res"
  and elems_toString :: "'d json_env \<Rightarrow> 'd json list \<Rightarrow> string res" where
  "json_toString E (JsonObject kvs) = res_map (\<lambda>s. ''{'' @ s @ ''}'') (members_toString E kvs)"
| "json_toString E (JsonArray vs) = res_map (\<lambda>s. ''['' @ s @ '']'') (elems_toString E vs)"
| "json_toString E (JsonString s e) = Inr (quoted s)"
| "json_toString E (JsonInt i) = Inr (int_decimal i)"
| "json_toString E (JsonFloat d) = Inr (db_str E d)"
| "json_toString E (JsonBoolean b) = Inr (if b then ''true'' else ''false'')"
| "json_toString E JsonNull = Inr ''null''"
| "json_toString E Nullptr = Inl NullPointer"
| "members_toString E [] = Inr []"
| "members_toString E ((k, v) # kvs) =
     res_bind (json_toString E v) (\<lambda>s. res_map (\<lambda>r. quoted (fst k) @ '':'' @ s @ (if kvs \<noteq> [] then '','' else []) @ r)
       (members_toString E kvs))"
| "elems_toString E [] = Inr []"
| "elems_toString E (v # vs) =
     res_bind (json_toString E v) (\<lambda>s. res_map (\<lambda>r. s @ (if vs \<noteq> [] then '','' else []) @ r) (elems_toString E vs))"

definition object_add :: "string \<times> bool \<Rightarrow> 'd json \<Rightarrow> ((string \<times> bool) \<times> 'd json) list \<Rightarrow> ((string \<times> bool) \<times> 'd json) list" where
  "object_add key value kvs = kvs @ [(key, value)]"

definition object_add_value :: "string \<Rightarrow> 'd json \<Rightarrow> ((string \<times> bool) \<times> 'd json) list \<Rightarrow> ((string \<times> bool) \<times> 'd json) list" where
  \<comment> \<open>a key given as a \<open>std::string\<close> has \<open>isEscaped\<close> set\<close>
  "object_add_value key value = object_add (key, True) value"

definition object_add_string :: "string \<Rightarrow> string \<Rightarrow> ((string \<times> bool) \<times> 'd json) list \<Rightarrow> ((string \<times> bool) \<times> 'd json) list" where
  "object_add_string key value = object_add (key, True) (JsonString value True)"

definition object_add_double :: "string \<Rightarrow> 'd \<Rightarrow> ((string \<times> bool) \<times> 'd json) list \<Rightarrow> ((string \<times> bool) \<times> 'd json) list" where
  "object_add_double key value = object_add (key, True) (JsonFloat value)"

definition object_add_int :: "string \<Rightarrow> int \<Rightarrow> ((string \<times> bool) \<times> 'd json) list \<Rightarrow> ((string \<times> bool) \<times> 'd json) list" where
  "object_add_int key value = object_add (key, True) (JsonInt value)"

definition object_add_null :: "string \<Rightarrow> ((string \<times> bool) \<times> 'd json) list \<Rightarrow> ((string \<times> bool) \<times> 'd json) list" where
  "object_add_null key = object_add (key, True) JsonNull"

definition object_add_bool :: "string \<Rightarrow> bool \<Rightarrow> ((string \<times> bool) \<times> 'd json) list \<Rightarrow> ((string \<times> bool) \<times> 'd json) list" where
  "object_add_bool key value = object_add (key, True) (JsonBoolean value)"

definition object_get :: "((string \<times> bool) \<times> 'd json) list \<Rightarrow> int \<Rightarrow> ((string \<times> bool) option \<times> 'd json)" where
  "object_get kvs i =
     (if i < 0 \<or> i \<ge> int (length kvs) then (None, Nullptr) else (Some (fst (kvs ! nat i)), snd (kvs ! nat i)))"

fun object_find :: "string \<Rightarrow> ((string \<times> bool) \<times> 'd json) list \<Rightarrow> 'd json" where
  "object_find key [] = Nullptr"
| "object_find key ((k, v) # kvs) = (if key = fst k then v else object_find key kvs)"

definition array_add :: "'d json \<Rightarrow> 'd json list \<Rightarrow> 'd json list" where
  "array_add v vs = vs @ [v]"

definition array_add_null :: "'d json list \<Rightarrow> 'd json list" where
  "array_add_null = array_add JsonNull"

definition array_add_int :: "int \<Rightarrow> 'd json list \<Rightarrow> 'd json list" where
  "array_add_int value = array_add (JsonInt value)"

definition array_add_double :: "'d \<Rightarrow> 'd json list \<Rightarrow> 'd json list" where
  "array_add_double value = array_add (JsonFloat value)"

definition array_add_bool :: "bool \<Rightarrow> 'd json list \<Rightarrow> 'd json list" where
  "array_add_bool value = array_add (JsonBoolean value)"

definition array_add_string :: "string \<Rightarrow> 'd json list \<Rightarrow> 'd json list" where
  "array_add_string value = array_add (JsonString value True)"

datatype 'd add_arg = AddInt int | AddDouble 'd | AddString string | AddBool bool | AddValue "'d json" | AddOther

fun add_value :: "'d add_arg \<Rightarrow> 'd json list \<Rightarrow> 'd json list" where
  \<comment> \<open>\<open>add_values\<close> of one argument, by its type; a value of another type is dropped\<close>
  "add_value (AddInt i) vs = array_add_int i vs"
| "add_value (AddDouble d) vs = array_add_double d vs"
| "add_value (AddString s) vs = array_add_string s vs"
| "add_value (AddBool b) vs = array_add_bool b vs"
| "add_value (AddValue v) vs = array_add v vs"
| "add_value AddOther vs = vs"

fun add_values :: "'d add_arg list \<Rightarrow> 'd json list \<Rightarrow> 'd json list" where
  "add_values [] vs = vs"
| "add_values (a # as) vs = add_values as (add_value a vs)"

definition array_get :: "'d json list \<Rightarrow> int \<Rightarrow> 'd json" where
  "array_get vs i = (if i < 0 \<or> i \<ge> int (length vs) then Nullptr else vs ! nat i)"


text \<open>A member is found under its key until one with the same key stands before it.\<close>

lemma object_find_add:
  "object_find key (object_add k v kvs) =
     (if \<exists>kv \<in> set kvs. fst (fst kv) = key then object_find key kvs else if key = fst k then v else Nullptr)"
  by (induction kvs) (fastforce simp: object_add_def)+

lemma object_get_add:
  "object_get (object_add k v kvs) (int (length kvs)) = (Some k, v)"
  "i < int (length kvs) \<Longrightarrow> object_get (object_add k v kvs) i = object_get kvs i"
  by (auto simp: object_get_def object_add_def nth_append nat_less_iff)

lemma array_get_add:
  "array_get (array_add v vs) (int (length vs)) = v" "i < int (length vs) \<Longrightarrow> array_get (array_add v vs) i = array_get vs i"
  by (auto simp: array_get_def array_add_def nth_append nat_less_iff)


section \<open>Checks of the parser\<close>

definition value_tag :: "tag \<Rightarrow> bool" where
  "value_tag t \<longleftrightarrow> t \<in> {JSON_NULL, JSON_NUMBER, JSON_FLOAT, JSON_STRING, JSON_TRUE, JSON_FALSE}"

fun what :: "cxx_error \<Rightarrow> string" where
  \<comment> \<open>\<open>JsonError::what\<close>; the text of the other exceptions is that of the standard library\<close>
  "what (JsonError msg) = msg"
| "what (JsonSyntaxError line col msg) =
     ''SyntaxError: ['' @ int_decimal line @ '','' @ int_decimal col @ ''] => ['' @ msg @ '']''"
| "what _ = []"

definition syntax_error :: "'d token \<Rightarrow> string \<Rightarrow> 'a res" where
  "syntax_error t m = Inl (JsonSyntaxError (tk_line t) (tk_col t) m)"

definition token_end_error :: "'d token \<Rightarrow> string \<Rightarrow> 'a res" where
  "token_end_error t m = Inl (JsonSyntaxError (tk_line t) (tk_col t + tk_len t - 1) m)"

definition handle_begin_end_mismatch :: "'d token list \<Rightarrow> unit res" where
  "handle_begin_end_mismatch ts =
     (case tk_tag (hd ts) of
        JSON_OBJECT_BEGIN \<Rightarrow> if tk_tag (last ts) \<noteq> JSON_OBJECT_END then syntax_error (last ts) ''object { missing } character'' else Inr ()
      | JSON_ARRAY_BEGIN \<Rightarrow> if tk_tag (last ts) \<noteq> JSON_ARRAY_END then syntax_error (last ts) ''array [ missing ] character'' else Inr ()
      | _ \<Rightarrow> Inr ())"

definition handle_after_object_array_closure :: "'d json_env \<Rightarrow> 'd token \<Rightarrow> 'd token list \<Rightarrow> unit res" where
  "handle_after_object_array_closure E cur ts =
     (case ts of [] \<Rightarrow> Inr ()
      | next # _ \<Rightarrow>
          if (value_tag (tk_tag next) \<or> tk_tag next \<in> {JSON_KEY_VALUE_SEP, JSON_OBJECT_BEGIN, JSON_ARRAY_BEGIN})
             \<and> tk_tag cur \<in> {JSON_ARRAY_END, JSON_OBJECT_END}
          then syntax_error next (''error syntax: ]/} '' @ token_toString E next) else Inr ())"

definition handle_after_object_array :: "'d json_env \<Rightarrow> 'd token \<Rightarrow> 'd token list \<Rightarrow> unit res" where
  "handle_after_object_array E cur ts =
     (case ts of [] \<Rightarrow> Inr ()
      | next # _ \<Rightarrow>
          if tk_tag next \<in> {JSON_SEP, JSON_KEY_VALUE_SEP}
             \<or> (tk_tag cur = JSON_OBJECT_BEGIN \<and> tk_tag next = JSON_ARRAY_END)
             \<or> (tk_tag cur = JSON_ARRAY_BEGIN \<and> tk_tag next = JSON_OBJECT_END)
          then syntax_error next (''after [ or { invalid character occurried '' @ token_toString E next) else Inr ())"

definition handle_missing_separator :: "'d json_env \<Rightarrow> 'd token \<Rightarrow> 'd token list \<Rightarrow> unit res" where
  "handle_missing_separator E cur ts =
     (if \<not> value_tag (tk_tag cur) then Inr ()
      else case ts of
        [] \<Rightarrow> token_end_error cur (''the json document missing final character before '' @ token_toString E cur)
      | next # _ \<Rightarrow>
          if tk_tag next \<in> {JSON_ARRAY_END, JSON_OBJECT_END, JSON_SEP} then Inr ()
          else token_end_error cur (''between '' @ token_toString E cur @ '' and '' @ token_toString E next @ '' missing end character ,/]/}. ''))"

definition handle_after_separators :: "'d json_env \<Rightarrow> 'd token list \<Rightarrow> unit res" where
  "handle_after_separators E ts =
     (case ts of [] \<Rightarrow> Inr ()
      | next # _ \<Rightarrow>
          if tk_tag next \<in> {JSON_SEP, JSON_OBJECT_END, JSON_ARRAY_END, JSON_KEY_VALUE_SEP}
          then syntax_error next (''after '' @ [CHR 0x27] @ '','' @ [CHR 0x27] @ '' some invalid characters occurried '' @ token_toString E next)
          else Inr ())"

definition handle_key_not_string :: "'d json_env \<Rightarrow> 'd token \<Rightarrow> unit res" where
  "handle_key_not_string E cur =
     (if tk_tag cur \<noteq> JSON_STRING then syntax_error cur (''object key is not string type '' @ token_toString E cur) else Inr ())"

definition handle_object_missing_separator :: "'d json_env \<Rightarrow> 'd token \<Rightarrow> 'd token list \<Rightarrow> unit res" where
  "handle_object_missing_separator E cur ts =
     (case ts of [] \<Rightarrow> Inr ()
      | next # _ \<Rightarrow>
          if tk_tag next \<noteq> JSON_KEY_VALUE_SEP
          then token_end_error cur (''between'' @ token_toString E cur @ '' and '' @ token_toString E next @ '' missing : separator'')
          else Inr ())"

definition handle_object_missing_value :: "'d json_env \<Rightarrow> 'd token list \<Rightarrow> unit res" where
  "handle_object_missing_value E ts =
     (case ts of [] \<Rightarrow> Inr ()
      | next # _ \<Rightarrow>
          if value_tag (tk_tag next) \<or> tk_tag next \<in> {JSON_OBJECT_BEGIN, JSON_ARRAY_BEGIN} then Inr ()
          else syntax_error next (''object missing a value before '' @ token_toString E next))"


section \<open>The parser\<close>

definition scalar_value :: "bool \<Rightarrow> 'd token \<Rightarrow> 'd json" where
  \<comment> \<open>the cases of the \<open>switch\<close> other than \<open>{\<close> and \<open>[\<close>\<close>
  "scalar_value escape t =
     (case tk_tag t of
        JSON_NUMBER \<Rightarrow> JsonInt (tk_int t)
      | JSON_FLOAT \<Rightarrow> JsonFloat (tk_double t)
      | JSON_STRING \<Rightarrow> JsonString (tk_string t) escape
      | JSON_NULL \<Rightarrow> JsonNull
      | JSON_TRUE \<Rightarrow> JsonBoolean (tk_bool t)
      | JSON_FALSE \<Rightarrow> JsonBoolean (tk_bool t)
      | _ \<Rightarrow> Nullptr)"

fun parseJsonObject :: "nat \<Rightarrow> 'd json_env \<Rightarrow> bool \<Rightarrow> ((string \<times> bool) \<times> 'd json) list \<Rightarrow> 'd token list
        \<Rightarrow> (((string \<times> bool) \<times> 'd json) list \<times> 'd token list) run"
  and parseJsonArray :: "nat \<Rightarrow> 'd json_env \<Rightarrow> bool \<Rightarrow> 'd json list \<Rightarrow> 'd token list \<Rightarrow> ('d json list \<times> 'd token list) run"
  and parseJsonValue :: "nat \<Rightarrow> 'd json_env \<Rightarrow> bool \<Rightarrow> 'd token \<Rightarrow> 'd token list \<Rightarrow> ('d json \<times> 'd token list) run" where
  "parseJsonObject 0 E escape kvs ts = None"
| "parseJsonObject (Suc fuel) E escape kvs ts =
     (case ts of [] \<Rightarrow> Some (Inr (kvs, []))
      | key # ts \<Rightarrow>
          if tk_tag key = JSON_OBJECT_END
          then Some (res_map (\<lambda>_. (kvs, ts)) (handle_after_object_array_closure E key ts))
          else if tk_tag key = JSON_SEP
          then run_bind (Some (handle_after_separators E ts)) (\<lambda>_. parseJsonObject fuel E escape kvs ts)
          else run_bind (Some (handle_key_not_string E key)) (\<lambda>_.
               run_bind (Some (handle_object_missing_separator E key ts)) (\<lambda>_.
               let ts = tl ts in
               run_bind (Some (handle_object_missing_value E ts)) (\<lambda>_.
               case ts of [] \<Rightarrow> Some (Inl OutOfBounds)
               | value # ts \<Rightarrow>
                   run_bind (Some (handle_missing_separator E value ts)) (\<lambda>_.
                   run_bind (parseJsonValue fuel E escape value ts) (\<lambda>(v, ts).
                     parseJsonObject fuel E escape (object_add (tk_string key, escape) v kvs) ts))))))"
| "parseJsonArray 0 E escape vs ts = None"
| "parseJsonArray (Suc fuel) E escape vs ts =
     (case ts of [] \<Rightarrow> Some (Inr (vs, []))
      | value # ts \<Rightarrow>
          if tk_tag value = JSON_ARRAY_END
          then Some (res_map (\<lambda>_. (vs, ts)) (handle_after_object_array_closure E value ts))
          else if tk_tag value = JSON_SEP
          then run_bind (Some (handle_after_separators E ts)) (\<lambda>_. parseJsonArray fuel E escape vs ts)
          else run_bind (Some (handle_missing_separator E value ts)) (\<lambda>_.
               run_bind (parseJsonValue fuel E escape value ts) (\<lambda>(v, ts). parseJsonArray fuel E escape (array_add v vs) ts)))"
| "parseJsonValue 0 E escape value ts = None"
| "parseJsonValue (Suc fuel) E escape value ts =
     (if tk_tag value = JSON_OBJECT_BEGIN
      then run_bind (Some (handle_after_object_array E value ts)) (\<lambda>_.
           run_bind (parseJsonObject fuel E escape [] ts) (\<lambda>(kvs, ts). Some (Inr (JsonObject kvs, ts))))
      else if tk_tag value = JSON_ARRAY_BEGIN
      then run_bind (Some (handle_after_object_array E value ts)) (\<lambda>_.
           run_bind (parseJsonArray fuel E escape [] ts) (\<lambda>(vs, ts). Some (Inr (JsonArray vs, ts))))
      else Some (Inr (scalar_value escape value, ts)))"

definition JsonValue_token :: "'d token \<Rightarrow> JsonType option \<times> string \<times> int \<times> 'd \<times> bool" where
  \<comment> \<open>\<open>JsonValue(Token *)\<close>; \<open>None\<close>: the type is not set\<close>
  "JsonValue_token t =
     (case tk_tag t of
        JSON_NUMBER \<Rightarrow> Some JNumberType | JSON_FLOAT \<Rightarrow> Some JNumberType
      | JSON_TRUE \<Rightarrow> Some JBooleanType | JSON_FALSE \<Rightarrow> Some JBooleanType
      | JSON_STRING \<Rightarrow> Some JStringType | JSON_NULL \<Rightarrow> Some JNullType | _ \<Rightarrow> None,
      tk_string t, tk_int t, tk_double t, tk_bool t)"

record 'd parsed =
  object_ptr :: "((string \<times> bool) \<times> 'd json) list option"
  array_ptr :: "'d json list option"
  value_ptr :: "(JsonType option \<times> string \<times> int \<times> 'd \<times> bool) option"   \<comment> \<open>a \<open>JsonValue\<close> made from a token\<close>

definition parsed_none :: "'d parsed" where
  "parsed_none = \<lparr>object_ptr = None, array_ptr = None, value_ptr = None\<rparr>"

definition parse :: "nat \<Rightarrow> 'd json_env \<Rightarrow> bool \<Rightarrow> 'd token list \<Rightarrow> 'd parsed run" where
  "parse fuel E escape tokens =
     (case tokens of [] \<Rightarrow> Some (Inr parsed_none)
      | token # ts \<Rightarrow>
          run_bind (Some (handle_begin_end_mismatch tokens)) (\<lambda>_.
          if tk_tag token = JSON_OBJECT_BEGIN
          then run_bind (Some (handle_after_object_array E token ts)) (\<lambda>_.
               run_bind (parseJsonObject fuel E escape [] ts) (\<lambda>(kvs, _). Some (Inr (parsed_none\<lparr>object_ptr := Some kvs\<rparr>))))
          else if tk_tag token = JSON_ARRAY_BEGIN
          then run_bind (Some (handle_after_object_array E token ts)) (\<lambda>_.
               run_bind (parseJsonArray fuel E escape [] ts) (\<lambda>(vs, _). Some (Inr (parsed_none\<lparr>array_ptr := Some vs\<rparr>))))
          else if ts = [] \<and> value_tag (tk_tag token) then Some (Inr (parsed_none\<lparr>value_ptr := Some (JsonValue_token token)\<rparr>))
          else Some (syntax_error token ''invalid token'')))"

definition JsonParser_parse :: "nat \<Rightarrow> 'd json_env \<Rightarrow> string \<Rightarrow> bool \<Rightarrow> 'd parsed run" where
  \<comment> \<open>\<open>JsonParser(json, escape)\<close> and \<open>parse()\<close>\<close>
  "JsonParser_parse fuel E json escape =
     run_bind (getTokens fuel E (lexer_new json escape)) (parse fuel E escape)"

definition JsonParser_parse_file :: "nat \<Rightarrow> 'd json_env \<Rightarrow> string \<Rightarrow> bool \<Rightarrow> 'd parsed run" where
  "JsonParser_parse_file fuel E content escape =
     run_bind (Some (lexer_open content escape)) (\<lambda>lx. run_bind (getTokens fuel E lx) (parse fuel E escape))"


section \<open>The parser json_returns\<close>

text \<open>
  A computation that returns, with a syntax error or with a value for which \<open>P\<close> holds.
\<close>

definition json_returns :: "('a \<Rightarrow> bool) \<Rightarrow> 'a run \<Rightarrow> bool" where
  "json_returns P m \<longleftrightarrow> (\<exists>x. m = Some (Inr x) \<and> P x) \<or> (\<exists>line col msg. m = Some (Inl (JsonSyntaxError line col msg)))"

lemma returns_bind:
  assumes "json_returns Q m" and "\<And>x. m = Some (Inr x) \<Longrightarrow> Q x \<Longrightarrow> json_returns P (f x)"
  shows "json_returns P (run_bind m f)"
  using assms by (auto simp: json_returns_def)

lemma returns_Inr [simp]: "json_returns P (Some (Inr x)) \<longleftrightarrow> P x"
  by (simp add: json_returns_def)

lemma returns_syntax_error [simp]: "json_returns P (Some (syntax_error t m))" "json_returns P (Some (token_end_error t m))"
  by (simp_all add: json_returns_def syntax_error_def token_end_error_def)

lemma returns_map: "json_returns P (Some m) \<Longrightarrow> (\<And>x. P x \<Longrightarrow> Q (f x)) \<Longrightarrow> json_returns Q (Some (res_map f m))"
  by (auto simp: json_returns_def)

lemmas handle_defs = handle_begin_end_mismatch_def handle_after_object_array_closure_def handle_after_object_array_def
  handle_missing_separator_def handle_after_separators_def handle_key_not_string_def
  handle_object_missing_separator_def handle_object_missing_value_def

lemma handle_returns:
  "json_returns (\<lambda>_. True) (Some (handle_begin_end_mismatch ts))"
  "json_returns (\<lambda>_. True) (Some (handle_after_object_array_closure E t ts))"
  "json_returns (\<lambda>_. True) (Some (handle_after_object_array E t ts))"
  "json_returns (\<lambda>_. True) (Some (handle_missing_separator E t ts))"
  "json_returns (\<lambda>_. True) (Some (handle_after_separators E ts))"
  "json_returns (\<lambda>_. True) (Some (handle_key_not_string E t))"
  "json_returns (\<lambda>_. True) (Some (handle_object_missing_separator E t ts))"
  "json_returns (\<lambda>_. True) (Some (handle_object_missing_value E ts))"
  by (simp_all add: handle_defs split: list.split tag.split)

lemma returns_after:
  \<comment> \<open>a check, then the rest\<close>
  assumes "json_returns (\<lambda>_. True) (Some m)" and "m = Inr () \<Longrightarrow> json_returns P (f ())"
  shows "json_returns P (run_bind (Some m) f)"
  using assms(1) by (rule returns_bind) (simp add: assms(2))

definition tk_closing :: "'d token list \<Rightarrow> bool" where
  \<comment> \<open>the last token closes an object or an array\<close>
  "tk_closing ts \<longleftrightarrow> ts \<noteq> [] \<longrightarrow> tk_tag (last ts) \<in> {JSON_OBJECT_END, JSON_ARRAY_END}"

definition suffix_of :: "'d token list \<Rightarrow> 'd token list \<Rightarrow> bool" where
  "suffix_of ts rest \<longleftrightarrow> (\<exists>us. ts = us @ rest)"

lemma suffix_closing: "suffix_of ts rest \<Longrightarrow> tk_closing ts \<Longrightarrow> tk_closing rest"
  by (auto simp: suffix_of_def tk_closing_def)

lemma suffix_length: "suffix_of ts rest \<Longrightarrow> length rest \<le> length ts"
  by (auto simp: suffix_of_def)

lemma suffix_refl [simp]: "suffix_of ts ts" "suffix_of ts []"
  by (auto simp: suffix_of_def)

lemma suffix_Cons: "suffix_of ts rest \<Longrightarrow> suffix_of (t # ts) rest"
  unfolding suffix_of_def by (metis append_Cons)

lemma suffix_trans: "suffix_of ts us \<Longrightarrow> suffix_of us vs \<Longrightarrow> suffix_of ts vs"
  by (auto simp: suffix_of_def)

lemma closing_tl: "tk_closing (t # ts) \<Longrightarrow> tk_closing ts"
  by (auto simp: tk_closing_def)

lemma closing_open: "tk_closing (t # ts) \<Longrightarrow> tk_tag t \<notin> {JSON_OBJECT_END, JSON_ARRAY_END} \<Longrightarrow> ts \<noteq> []"
  by (auto simp: tk_closing_def)

fun members_present :: "'d json \<Rightarrow> bool" where
  \<comment> \<open>no member of an object is null, at any depth\<close>
  "members_present (JsonObject kvs) \<longleftrightarrow> (\<forall>kv \<in> set kvs. snd kv \<noteq> Nullptr \<and> members_present (snd kv))"
| "members_present (JsonArray vs) \<longleftrightarrow> (\<forall>v \<in> set vs. members_present v)"
| "members_present _ \<longleftrightarrow> True"

definition value_start :: "tag \<Rightarrow> bool" where
  "value_start t \<longleftrightarrow> value_tag t \<or> t = JSON_OBJECT_BEGIN \<or> t = JSON_ARRAY_BEGIN"

lemma scalar_value_present: "members_present (scalar_value escape t)" "value_tag (tk_tag t) \<Longrightarrow> scalar_value escape t \<noteq> Nullptr"
  by (auto simp: scalar_value_def value_tag_def split: tag.split)

definition object_read :: "'d token list \<Rightarrow> ((string \<times> bool) \<times> 'd json) list \<times> 'd token list \<Rightarrow> bool" where
  "object_read ts = (\<lambda>(kvs, rest). suffix_of ts rest \<and> members_present (JsonObject kvs))"

definition array_read :: "'d token list \<Rightarrow> 'd json list \<times> 'd token list \<Rightarrow> bool" where
  "array_read ts = (\<lambda>(vs, rest). suffix_of ts rest \<and> members_present (JsonArray vs))"

definition value_read :: "'d token \<Rightarrow> 'd token list \<Rightarrow> 'd json \<times> 'd token list \<Rightarrow> bool" where
  "value_read t ts = (\<lambda>(v, rest). suffix_of ts rest \<and> members_present v \<and> (value_start (tk_tag t) \<longrightarrow> v \<noteq> Nullptr))"

definition object_returns :: "'d json_env \<Rightarrow> bool \<Rightarrow> nat \<Rightarrow> bool" where
  "object_returns E escape fuel \<longleftrightarrow> (\<forall>kvs ts. tk_closing ts \<longrightarrow> 2 * length ts + 1 \<le> fuel \<longrightarrow> members_present (JsonObject kvs) \<longrightarrow>
     json_returns (object_read ts) (parseJsonObject fuel E escape kvs ts))"

definition array_returns :: "'d json_env \<Rightarrow> bool \<Rightarrow> nat \<Rightarrow> bool" where
  "array_returns E escape fuel \<longleftrightarrow> (\<forall>vs ts. tk_closing ts \<longrightarrow> 2 * length ts + 1 \<le> fuel \<longrightarrow> members_present (JsonArray vs) \<longrightarrow>
     json_returns (array_read ts) (parseJsonArray fuel E escape vs ts))"

definition value_returns :: "'d json_env \<Rightarrow> bool \<Rightarrow> nat \<Rightarrow> bool" where
  "value_returns E escape fuel \<longleftrightarrow> (\<forall>t ts. tk_closing ts \<longrightarrow> 2 * length ts + 2 \<le> fuel \<longrightarrow>
     json_returns (value_read t ts) (parseJsonValue fuel E escape t ts))"

lemma returns_mono: "json_returns P m \<Longrightarrow> (\<And>x. P x \<Longrightarrow> Q x) \<Longrightarrow> json_returns Q m"
  by (auto simp: json_returns_def)

lemma read_suffix:
  "suffix_of ts us \<Longrightarrow> object_read us x \<Longrightarrow> object_read ts x"
  "suffix_of ts us \<Longrightarrow> array_read us y \<Longrightarrow> array_read ts y"
  by (auto simp: object_read_def array_read_def intro: suffix_trans)

lemma object_returnsD:
  assumes "object_returns E escape fuel" and "tk_closing ts" and "suffix_of ts us" and "2 * length us + 1 \<le> fuel" and "members_present (JsonObject kvs)"
  shows "json_returns (object_read ts) (parseJsonObject fuel E escape kvs us)"
  using assms suffix_closing [OF assms(3,2)] unfolding object_returns_def by (blast intro: returns_mono read_suffix)

lemma array_returnsD:
  assumes "array_returns E escape fuel" and "tk_closing ts" and "suffix_of ts us" and "2 * length us + 1 \<le> fuel" and "members_present (JsonArray vs)"
  shows "json_returns (array_read ts) (parseJsonArray fuel E escape vs us)"
  using assms suffix_closing [OF assms(3,2)] unfolding array_returns_def by (blast intro: returns_mono read_suffix)

lemma value_step:
  assumes "object_returns E escape fuel" and "array_returns E escape fuel"
  shows "value_returns E escape (Suc fuel)"
  unfolding value_returns_def
proof (intro allI impI)
  fix t :: "'a token" and ts :: "'a token list"
  assume ts: "tk_closing ts" "2 * length ts + 2 \<le> Suc fuel"
  have o: "json_returns (value_read t ts) (run_bind (parseJsonObject fuel E escape [] ts) (\<lambda>(kvs, ts). Some (Inr (JsonObject kvs, ts))))"
    using ts by (intro returns_bind [OF object_returnsD [OF assms(1) ts(1)]]) (auto simp: object_read_def value_read_def)
  have a: "json_returns (value_read t ts) (run_bind (parseJsonArray fuel E escape [] ts) (\<lambda>(vs, ts). Some (Inr (JsonArray vs, ts))))"
    using ts by (intro returns_bind [OF array_returnsD [OF assms(2) ts(1)]]) (auto simp: array_read_def value_read_def)
  have "tk_tag t \<noteq> JSON_OBJECT_BEGIN \<Longrightarrow> tk_tag t \<noteq> JSON_ARRAY_BEGIN \<Longrightarrow> value_read t ts (scalar_value escape t, ts)"
    by (auto simp: value_read_def value_start_def scalar_value_present)
  with o a show "json_returns (value_read t ts) (parseJsonValue (Suc fuel) E escape t ts)"
    by (simp add: returns_after [OF handle_returns(3)])
qed

lemma array_step:
  assumes "array_returns E escape fuel" and "value_returns E escape fuel"
  shows "array_returns E escape (Suc fuel)"
  unfolding array_returns_def
proof (intro allI impI)
  fix vs :: "'a json list" and ts :: "'a token list"
  assume ts: "tk_closing ts" "2 * length ts + 1 \<le> Suc fuel" and vs: "members_present (JsonArray vs)"
  show "json_returns (array_read ts) (parseJsonArray (Suc fuel) E escape vs ts)"
  proof (cases ts)
    case (Cons t us)
    have us: "tk_closing us" "suffix_of ts us" using ts Cons by (auto intro: closing_tl suffix_Cons)
    have done1: "array_read ts (vs, us)" using us vs by (simp add: array_read_def)
    have more: "json_returns (array_read ts) (parseJsonArray fuel E escape vs us)"
      using array_returnsD [OF assms(1) ts(1) us(2) _ vs] ts Cons by simp
    have "json_returns (value_read t us) (parseJsonValue fuel E escape t us)"
      using assms(2) us(1) ts Cons by (simp add: value_returns_def)
    then have "json_returns (array_read ts) (run_bind (parseJsonValue fuel E escape t us) (\<lambda>(v, us). parseJsonArray fuel E escape (array_add v vs) us))"
    proof (rule returns_bind)
      fix x assume "value_read t us x"
      then obtain v r where x: "x = (v, r)" "suffix_of us r" "members_present v" by (cases x) (auto simp: value_read_def)
      have "2 * length r + 1 \<le> fuel" using suffix_length [OF x(2)] ts Cons by simp
      with x vs show "json_returns (array_read ts) (case x of (v, us) \<Rightarrow> parseJsonArray fuel E escape (array_add v vs) us)"
        using array_returnsD [OF assms(1) ts(1) suffix_trans [OF us(2) x(2)]] by (simp add: array_add_def ball_Un)
    qed
    with done1 more Cons show ?thesis
      by (auto intro!: returns_after [OF handle_returns(4)] returns_after [OF handle_returns(5)] returns_map [OF handle_returns(2)])
  qed (use vs in \<open>simp add: array_read_def\<close>)
qed

lemma member_shape:
  assumes "tk_closing (key # us)" and "tk_tag key = JSON_STRING"
    and "handle_object_missing_separator E key us = Inr ()" and "handle_object_missing_value E (tl us) = Inr ()"
  obtains sep val vs where "us = sep # val # vs" "value_start (tk_tag val)"
proof -
  from closing_open [OF assms(1)] assms(2) obtain sep vs where us: "us = sep # vs" by (cases us) auto
  with assms(3) have "tk_tag sep = JSON_KEY_VALUE_SEP"
    by (simp add: handle_object_missing_separator_def token_end_error_def split: if_splits)
  moreover from assms(1) us have "tk_closing (sep # vs)" using closing_tl by blast
  ultimately obtain val ws where vs: "vs = val # ws" using closing_open [of sep vs] by (cases vs) auto
  with assms(4) us have "value_start (tk_tag val)"
    by (auto simp: handle_object_missing_value_def syntax_error_def value_start_def split: if_splits)
  with us vs that show ?thesis by simp
qed

lemma object_step:
  assumes "object_returns E escape fuel" and "value_returns E escape fuel"
  shows "object_returns E escape (Suc fuel)"
  unfolding object_returns_def
proof (intro allI impI)
  fix kvs :: "((string \<times> bool) \<times> 'a json) list" and ts :: "'a token list"
  assume ts: "tk_closing ts" "2 * length ts + 1 \<le> Suc fuel" and kvs: "members_present (JsonObject kvs)"
  show "json_returns (object_read ts) (parseJsonObject (Suc fuel) E escape kvs ts)"
  proof (cases ts)
    case (Cons key us)
    have us: "tk_closing us" "suffix_of ts us" using ts Cons by (auto intro: closing_tl suffix_Cons)
    have done1: "object_read ts (kvs, us)" using us kvs by (simp add: object_read_def)
    have more: "json_returns (object_read ts) (parseJsonObject fuel E escape kvs us)"
      using object_returnsD [OF assms(1) ts(1) us(2) _ kvs] ts Cons by simp
    have member: "json_returns (object_read ts) (case tl us of [] \<Rightarrow> Some (Inl OutOfBounds) | value # vs \<Rightarrow>
        run_bind (Some (handle_missing_separator E value vs)) (\<lambda>_. run_bind (parseJsonValue fuel E escape value vs)
          (\<lambda>(v, ws). parseJsonObject fuel E escape (object_add (tk_string key, escape) v kvs) ws)))"
      if key: "tk_tag key = JSON_STRING" "handle_object_missing_separator E key us = Inr ()" "handle_object_missing_value E (tl us) = Inr ()"
    proof -
      obtain sep val vs where v: "us = sep # val # vs" "value_start (tk_tag val)"
        using member_shape [OF _ key] ts(1) Cons by blast
      have "suffix_of us vs" using v by (simp add: suffix_Cons)
      then have vs: "tk_closing vs" "suffix_of ts vs"
        using us by (auto intro: suffix_closing suffix_trans)
      have "json_returns (value_read val vs) (parseJsonValue fuel E escape val vs)"
        using assms(2) vs(1) ts Cons v by (simp add: value_returns_def)
      then have "json_returns (object_read ts) (run_bind (parseJsonValue fuel E escape val vs)
          (\<lambda>(v, ws). parseJsonObject fuel E escape (object_add (tk_string key, escape) v kvs) ws))"
      proof (rule returns_bind)
        fix x assume "value_read val vs x"
        then obtain w r where x: "x = (w, r)" "suffix_of vs r" "members_present w" "w \<noteq> Nullptr"
          using v(2) by (cases x) (auto simp: value_read_def)
        have "2 * length r + 1 \<le> fuel" using suffix_length [OF x(2)] ts Cons v by simp
        with x kvs show "json_returns (object_read ts) (case x of (v, ws) \<Rightarrow> parseJsonObject fuel E escape (object_add (tk_string key, escape) v kvs) ws)"
          using object_returnsD [OF assms(1) ts(1) suffix_trans [OF vs(2) x(2)]] by (simp add: object_add_def ball_Un)
      qed
      then show ?thesis using v by (auto intro!: returns_after [OF handle_returns(4)])
    qed
    have key: "handle_key_not_string E key = Inr () \<Longrightarrow> tk_tag key = JSON_STRING"
      by (simp add: handle_key_not_string_def syntax_error_def split: if_splits)
    show ?thesis using done1 more member key Cons
      by (auto simp: Let_def intro!: returns_after [OF handle_returns(6)] returns_after [OF handle_returns(7)]
          returns_after [OF handle_returns(8)] returns_after [OF handle_returns(5)] returns_map [OF handle_returns(2)])
  qed (use kvs in \<open>simp add: object_read_def\<close>)
qed

lemma all_return: "object_returns E escape fuel \<and> array_returns E escape fuel \<and> value_returns E escape fuel"
proof (induction fuel)
  case (Suc fuel)
  then show ?case by (simp add: object_step array_step value_step)
qed (simp add: object_returns_def array_returns_def value_returns_def)

fun parsed_members_present :: "'d parsed \<Rightarrow> bool" where
  "parsed_members_present p \<longleftrightarrow>
     (case object_ptr p of None \<Rightarrow> True | Some kvs \<Rightarrow> members_present (JsonObject kvs)) \<and>
     (case array_ptr p of None \<Rightarrow> True | Some vs \<Rightarrow> members_present (JsonArray vs))"

lemma begin_end_closing:
  assumes "handle_begin_end_mismatch (t # ts) = Inr ()" and "tk_tag t = JSON_OBJECT_BEGIN \<or> tk_tag t = JSON_ARRAY_BEGIN"
  shows "tk_closing ts"
  using assms by (auto simp: handle_begin_end_mismatch_def tk_closing_def syntax_error_def split: if_splits)

text \<open>
  C39. \<open>JsonParser::parse\<close> ends on every list of tokens, never reads outside the list, and either
  throws a syntax error or gives a value in which no member of an object is a null pointer, at any
  depth. (\<open>json_returns\<close> excludes every other error and running out of fuel; two turns per token are
  enough.)
\<close>

theorem parse_returns:
  assumes "2 * length tokens \<le> fuel"
  shows "json_returns parsed_members_present (parse fuel E escape tokens)"
proof (cases tokens)
  case (Cons t ts)
  have f: "2 * length ts + 1 \<le> fuel" using assms Cons by simp
  have o: "tk_closing ts \<Longrightarrow> json_returns parsed_members_present
      (run_bind (parseJsonObject fuel E escape [] ts) (\<lambda>(kvs, _). Some (Inr (parsed_none\<lparr>object_ptr := Some kvs\<rparr>))))"
    using all_return [of E escape fuel] f
    by (intro returns_bind [OF object_returnsD]) (auto simp: object_read_def parsed_none_def)
  have a: "tk_closing ts \<Longrightarrow> json_returns parsed_members_present
      (run_bind (parseJsonArray fuel E escape [] ts) (\<lambda>(vs, _). Some (Inr (parsed_none\<lparr>array_ptr := Some vs\<rparr>))))"
    using all_return [of E escape fuel] f
    by (intro returns_bind [OF array_returnsD]) (auto simp: array_read_def parsed_none_def)
  show ?thesis
    using o a begin_end_closing [of t ts] Cons
    by (auto simp: parse_def parsed_none_def intro!: returns_after [OF handle_returns(1)] returns_after [OF handle_returns(3)])
qed (simp add: parse_def parsed_none_def)


section \<open>The tokens of a value\<close>

text \<open>
  \<open>value_tokens\<close> is the sequence of tokens that stands for a value; positions are left out. A value is
  \<open>json_plain\<close> when it has no null element and no floating point number, its integers are of type \<open>int\<close> and its strings hold the
  characters themselves (\<open>isEscaped\<close>).
\<close>

fun value_tokens :: "'d json_env \<Rightarrow> 'd json \<Rightarrow> 'd token list"
  and member_tokens :: "'d json_env \<Rightarrow> ((string \<times> bool) \<times> 'd json) list \<Rightarrow> 'd token list"
  and elem_tokens :: "'d json_env \<Rightarrow> 'd json list \<Rightarrow> 'd token list" where
  "value_tokens E (JsonObject kvs) = [Token E JSON_OBJECT_BEGIN 0 0 0] @ member_tokens E kvs @ [Token E JSON_OBJECT_END 0 0 0]"
| "value_tokens E (JsonArray vs) = [Token E JSON_ARRAY_BEGIN 0 0 0] @ elem_tokens E vs @ [Token E JSON_ARRAY_END 0 0 0]"
| "value_tokens E (JsonString s e) = [String E s 0 0 0]"
| "value_tokens E (JsonInt i) = [Number E i 0 0 0]"
| "value_tokens E (JsonBoolean b) = [if b then Identifier E JSON_TRUE ''true'' 0 0 0 else Identifier E JSON_FALSE ''false'' 0 0 0]"
| "value_tokens E JsonNull = [Identifier E JSON_NULL ''null'' 0 0 0]"
| "value_tokens E (JsonFloat d) = [Float E d 0 0 0]"
| "value_tokens E Nullptr = []"
| "member_tokens E [] = []"
| "member_tokens E ((k, v) # kvs) =
     [String E (fst k) 0 0 0, Token E JSON_KEY_VALUE_SEP 0 0 0] @ value_tokens E v @ (if kvs \<noteq> [] then [Token E JSON_SEP 0 0 0] else []) @ member_tokens E kvs"
| "elem_tokens E [] = []"
| "elem_tokens E (v # vs) = value_tokens E v @ (if vs \<noteq> [] then [Token E JSON_SEP 0 0 0] else []) @ elem_tokens E vs"

fun json_plain :: "'d json \<Rightarrow> bool" where
  "json_plain (JsonObject kvs) \<longleftrightarrow> (\<forall>kv \<in> set kvs. snd (fst kv) \<and> json_plain (snd kv))"
| "json_plain (JsonArray vs) \<longleftrightarrow> (\<forall>v \<in> set vs. json_plain v)"
| "json_plain (JsonString s e) \<longleftrightarrow> e"
| "json_plain (JsonInt i) \<longleftrightarrow> int_range i"
| "json_plain (JsonFloat d) \<longleftrightarrow> False"
| "json_plain Nullptr \<longleftrightarrow> False"
| "json_plain _ \<longleftrightarrow> True"

definition tk_closes :: "'d token list \<Rightarrow> bool" where
  "tk_closes ts \<longleftrightarrow> (case ts of [] \<Rightarrow> True | t # _ \<Rightarrow> tk_tag t \<in> {JSON_SEP, JSON_ARRAY_END, JSON_OBJECT_END})"

lemma core_fields [simp]:
  "tk_tag (tk_core t) = tk_tag t" "tk_string (tk_core t) = tk_string t" "tk_int (tk_core t) = tk_int t" "tk_bool (tk_core t) = tk_bool t"
  "tk_double (tk_core t) = tk_double t"
  by (simp_all add: tk_core_def)

lemma token_fields [simp]:
  "tk_tag (Token E tg l c n) = tg" "tk_tag (String E s l c n) = JSON_STRING" "tk_string (String E s l c n) = s"
  "tk_tag (Number E i l c n) = JSON_NUMBER" "tk_int (Number E i l c n) = i" "tk_tag (Identifier E tg s l c n) = tg"
  "tk_bool (Identifier E tg s l c n) = (tg = JSON_TRUE)"
  by (simp_all add: Token_def String_def Number_def Identifier_def)

lemma core_Token: "tk_core t = Token E tg 0 0 0 \<Longrightarrow> tk_tag t = tg" "Token E tg 0 0 0 = tk_core t \<Longrightarrow> tk_tag t = tg"
  by (metis core_fields(1) token_fields(1))+

lemma core_String: "tk_core t = String E s 0 0 0 \<Longrightarrow> tk_tag t = JSON_STRING \<and> tk_string t = s"
  by (metis core_fields(1,2) token_fields(2,3))

definition reads_value :: "'d json_env \<Rightarrow> 'd json \<Rightarrow> bool" where
  "reads_value E v \<longleftrightarrow> (\<forall>t ts rest fuel. map tk_core (t # ts) = value_tokens E v \<longrightarrow> rest \<noteq> [] \<longrightarrow> tk_closes rest \<longrightarrow> 2 * length (ts @ rest) + 2 \<le> fuel \<longrightarrow>
     value_start (tk_tag t) \<and> handle_missing_separator E t (ts @ rest) = Inr () \<and> parseJsonValue fuel E True t (ts @ rest) = Some (Inr (v, rest)))"

definition reads_members :: "'d json_env \<Rightarrow> ((string \<times> bool) \<times> 'd json) list \<Rightarrow> bool" where
  "reads_members E kvs \<longleftrightarrow> (\<forall>ts e rest acc fuel. map tk_core ts = member_tokens E kvs \<longrightarrow> tk_tag e = JSON_OBJECT_END \<longrightarrow> tk_closes rest \<longrightarrow>
     2 * length (ts @ e # rest) + 1 \<le> fuel \<longrightarrow> parseJsonObject fuel E True acc (ts @ e # rest) = Some (Inr (acc @ kvs, rest)))"

definition reads_elems :: "'d json_env \<Rightarrow> 'd json list \<Rightarrow> bool" where
  "reads_elems E vs \<longleftrightarrow> (\<forall>ts e rest acc fuel. map tk_core ts = elem_tokens E vs \<longrightarrow> tk_tag e = JSON_ARRAY_END \<longrightarrow> tk_closes rest \<longrightarrow>
     2 * length (ts @ e # rest) + 1 \<le> fuel \<longrightarrow> parseJsonArray fuel E True acc (ts @ e # rest) = Some (Inr (acc @ vs, rest)))"

lemma closure_ok: "tk_closes rest \<Longrightarrow> handle_after_object_array_closure E t rest = Inr ()"
  by (auto simp: handle_after_object_array_closure_def tk_closes_def value_tag_def split: list.split)

lemma value_tokens_Cons:
  assumes "json_plain v"
  obtains t ts where "value_tokens E v = t # ts" "value_start (tk_tag t)"
  using assms by (cases v) (auto simp: value_start_def value_tag_def)

lemma member_first: "map tk_core (w # ws) = member_tokens E kvs \<Longrightarrow> tk_tag w = JSON_STRING"
  by (cases kvs) (auto dest: core_String)

lemma elem_first:
  assumes "map tk_core (w # ws) = elem_tokens E vs" and "\<forall>v \<in> set vs. json_plain v"
  shows "value_start (tk_tag w)"
proof (cases vs)
  case (Cons v vs')
  obtain t ts where "value_tokens E v = t # ts" "value_start (tk_tag t)"
    using assms(2) Cons by (auto elim: value_tokens_Cons [of v E])
  with assms(1) Cons show ?thesis by auto
qed (use assms in simp)

lemma map_core_split:
  assumes "map tk_core ts = us @ vs"
  obtains x y where "ts = x @ y" "map tk_core x = us" "map tk_core y = vs"
  using assms by (auto simp: map_eq_append_conv)

lemma scalar_value_core: "scalar_value escape (tk_core t) = scalar_value escape t"
  by (cases "tk_tag t") (simp_all add: scalar_value_def)

lemma reads_scalar:
  assumes "value_tokens E v = [u]" and "value_tag (tk_tag u)" and "scalar_value True u = v"
  shows "reads_value E v"
  unfolding reads_value_def
proof (intro allI impI)
  fix t :: "'a token" and ts rest :: "'a token list" and fuel
  assume a: "map tk_core (t # ts) = value_tokens E v" "rest \<noteq> []" "tk_closes rest" "2 * length (ts @ rest) + 2 \<le> fuel"
  then obtain f where f: "fuel = Suc f" by (cases fuel) auto
  from a(1) assms(1) have t: "tk_core t = u" "ts = []" "tk_tag t = tk_tag u" by auto
  from a(2,3) have "handle_missing_separator E t rest = Inr ()"
    by (auto simp: handle_missing_separator_def tk_closes_def split: list.split)
  with t f assms(2,3) scalar_value_core [of True t] show "value_start (tk_tag t) \<and> handle_missing_separator E t (ts @ rest) = Inr () \<and> parseJsonValue fuel E True t (ts @ rest) = Some (Inr (v, rest))"
    by (auto simp: value_start_def value_tag_def)
qed

lemma reads_object:
  assumes "reads_members E kvs"
  shows "reads_value E (JsonObject kvs)"
  unfolding reads_value_def
proof (intro allI impI)
  fix t :: "'a token" and ts rest :: "'a token list" and fuel
  assume a: "map tk_core (t # ts) = value_tokens E (JsonObject kvs)" "rest \<noteq> []" "tk_closes rest" "2 * length (ts @ rest) + 2 \<le> fuel"
  then obtain f where f: "fuel = Suc f" "2 * length (ts @ rest) + 1 \<le> f" by (cases fuel) auto
  from a(1) obtain us e where ts: "ts = us @ [e]" "map tk_core us = member_tokens E kvs" "tk_tag e = JSON_OBJECT_END" "tk_tag t = JSON_OBJECT_BEGIN"
    by (auto simp: map_eq_append_conv dest!: core_Token)
  have "parseJsonObject f E True [] (ts @ rest) = Some (Inr (kvs, rest))"
    using assms ts f a(3) unfolding reads_members_def by simp
  moreover have "handle_after_object_array E t (ts @ rest) = Inr ()"
    using ts member_first [of "hd us" "tl us" E kvs] by (cases us) (auto simp: handle_after_object_array_def)
  ultimately show "value_start (tk_tag t) \<and> handle_missing_separator E t (ts @ rest) = Inr () \<and> parseJsonValue fuel E True t (ts @ rest) = Some (Inr (JsonObject kvs, rest))"
    using ts f by (simp add: value_start_def handle_missing_separator_def value_tag_def)
qed

lemma reads_array:
  assumes "reads_elems E vs" and "\<forall>v \<in> set vs. json_plain v"
  shows "reads_value E (JsonArray vs)"
  unfolding reads_value_def
proof (intro allI impI)
  fix t :: "'a token" and ts rest :: "'a token list" and fuel
  assume a: "map tk_core (t # ts) = value_tokens E (JsonArray vs)" "rest \<noteq> []" "tk_closes rest" "2 * length (ts @ rest) + 2 \<le> fuel"
  then obtain f where f: "fuel = Suc f" "2 * length (ts @ rest) + 1 \<le> f" by (cases fuel) auto
  from a(1) obtain us e where ts: "ts = us @ [e]" "map tk_core us = elem_tokens E vs" "tk_tag e = JSON_ARRAY_END" "tk_tag t = JSON_ARRAY_BEGIN"
    by (auto simp: map_eq_append_conv dest!: core_Token)
  have "parseJsonArray f E True [] (ts @ rest) = Some (Inr (vs, rest))"
    using assms ts f a(3) unfolding reads_elems_def by simp
  moreover have "handle_after_object_array E t (ts @ rest) = Inr ()"
    using ts elem_first [of "hd us" "tl us" E vs] assms(2) by (cases us) (auto simp: handle_after_object_array_def value_start_def value_tag_def)
  ultimately show "value_start (tk_tag t) \<and> handle_missing_separator E t (ts @ rest) = Inr () \<and> parseJsonValue fuel E True t (ts @ rest) = Some (Inr (JsonArray vs, rest))"
    using ts f by (simp add: value_start_def handle_missing_separator_def value_tag_def)
qed

lemma reads_members_rest:
  assumes "reads_members E kvs" and "map tk_core sep = (if kvs \<noteq> [] then [Token E JSON_SEP 0 0 0] else [])" and "map tk_core ws = member_tokens E kvs"
    and "tk_tag e = JSON_OBJECT_END" and "tk_closes rest" and "2 * length (sep @ ws @ e # rest) + 1 \<le> fuel"
  shows "parseJsonObject fuel E True acc (sep @ ws @ e # rest) = Some (Inr (acc @ kvs, rest))"
proof (cases sep)
  case Nil
  with assms show ?thesis unfolding reads_members_def by simp
next
  case (Cons s ss)
  with assms(2) have s: "sep = [s]" "tk_tag s = JSON_SEP" "kvs \<noteq> []" by (auto split: if_splits dest!: core_Token)
  then obtain w ws' where w: "ws = w # ws'" using assms(3) by (cases kvs) auto
  then have "tk_tag w = JSON_STRING" using assms(3) member_first [of w ws'] by simp
  then have "handle_after_separators E (ws @ e # rest) = Inr ()" using w by (simp add: handle_after_separators_def)
  moreover obtain f where f: "fuel = Suc f" "2 * length (ws @ e # rest) + 1 \<le> f" using assms(6) s by (cases fuel) auto
  moreover have "parseJsonObject f E True acc (ws @ e # rest) = Some (Inr (acc @ kvs, rest))"
    using assms(1,3,4,5) f(2) unfolding reads_members_def by blast
  ultimately show ?thesis using s by simp
qed

lemma reads_elems_rest:
  assumes "reads_elems E vs" and "map tk_core sep = (if vs \<noteq> [] then [Token E JSON_SEP 0 0 0] else [])" and "map tk_core ws = elem_tokens E vs"
    and "tk_tag e = JSON_ARRAY_END" and "tk_closes rest" and "2 * length (sep @ ws @ e # rest) + 1 \<le> fuel" and "\<forall>v \<in> set vs. json_plain v"
  shows "parseJsonArray fuel E True acc (sep @ ws @ e # rest) = Some (Inr (acc @ vs, rest))"
proof (cases sep)
  case Nil
  with assms show ?thesis unfolding reads_elems_def by simp
next
  case (Cons s ss)
  with assms(2) have s: "sep = [s]" "tk_tag s = JSON_SEP" "vs \<noteq> []" by (auto split: if_splits dest!: core_Token)
  then obtain v vs' where "vs = v # vs'" "json_plain v" using assms(7) by (cases vs) auto
  with assms(3) obtain w ws' where w: "ws = w # ws'" by (cases ws) (auto elim: value_tokens_Cons [of _ E])
  then have "value_start (tk_tag w)" using assms(3,7) elem_first [of w ws'] by simp
  then have "handle_after_separators E (ws @ e # rest) = Inr ()"
    using w by (auto simp: handle_after_separators_def value_start_def value_tag_def)
  moreover obtain f where f: "fuel = Suc f" "2 * length (ws @ e # rest) + 1 \<le> f" using assms(6) s by (cases fuel) auto
  moreover have "parseJsonArray f E True acc (ws @ e # rest) = Some (Inr (acc @ vs, rest))"
    using assms(1,3,4,5) f(2) unfolding reads_elems_def by blast
  ultimately show ?thesis using s by simp
qed

lemma follows_closes:
  assumes "map tk_core sep = (if b then [Token E JSON_SEP 0 0 0] else [])" and "ws \<noteq> [] \<Longrightarrow> b" and "tk_tag e \<in> {JSON_OBJECT_END, JSON_ARRAY_END}"
  shows "tk_closes (sep @ ws @ e # rest)"
  using assms by (cases ws) (auto simp: tk_closes_def split: if_splits dest!: core_Token)

lemma reads_members_Cons:
  assumes "reads_value E v" and "json_plain v" and "reads_members E kvs" and "snd k"
  shows "reads_members E ((k, v) # kvs)"
  unfolding reads_members_def
proof (intro allI impI)
  fix ts rest :: "'a token list" and e :: "'a token" and acc fuel
  assume a: "map tk_core ts = member_tokens E ((k, v) # kvs)" "tk_tag e = JSON_OBJECT_END" "tk_closes rest" "2 * length (ts @ e # rest) + 1 \<le> fuel"
  obtain t0 us0 where v: "value_tokens E v = t0 # us0" by (rule value_tokens_Cons [OF assms(2), of E])
  from a(1) obtain key col t us sep ws where ts: "ts = key # col # t # us @ sep @ ws" "tk_core key = String E (fst k) 0 0 0"
    "tk_core col = Token E JSON_KEY_VALUE_SEP 0 0 0" "map tk_core (t # us) = value_tokens E v"
    "map tk_core sep = (if kvs \<noteq> [] then [Token E JSON_SEP 0 0 0] else [])" "map tk_core ws = member_tokens E kvs"
    by (simp only: member_tokens.simps) (elim map_core_split, auto simp: v map_eq_Cons_conv)
  define r where "r = sep @ ws @ e # rest"
  have "ws \<noteq> [] \<Longrightarrow> kvs \<noteq> []" using ts(6) by auto
  then have r: "tk_closes r" "r \<noteq> []" using follows_closes [OF ts(5)] a(2) by (auto simp: r_def)
  obtain f where f: "fuel = Suc f" "2 * length (us @ r) + 2 \<le> f" "2 * length r + 1 \<le> f" using a(4) ts(1) by (cases fuel) (auto simp: r_def)
  have "value_start (tk_tag t)" "handle_missing_separator E t (us @ r) = Inr ()" "parseJsonValue f E True t (us @ r) = Some (Inr (v, r))"
    using assms(1) ts(4) r f(2) unfolding reads_value_def by blast+
  moreover have "parseJsonObject f E True (acc @ [(k, v)]) r = Some (Inr ((acc @ [(k, v)]) @ kvs, rest))"
    unfolding r_def using reads_members_rest [OF assms(3) ts(5,6) a(2,3)] f(3) by (simp add: r_def)
  moreover have "tk_tag key = JSON_STRING" "tk_string key = fst k" "tk_tag col = JSON_KEY_VALUE_SEP" "(fst k, True) = k"
    using core_String [OF ts(2)] core_Token(1) [OF ts(3)] assms(4) by (auto simp: prod_eq_iff)
  ultimately show "parseJsonObject fuel E True acc (ts @ e # rest) = Some (Inr (acc @ (k, v) # kvs, rest))"
    using f(1) ts(1) by (simp add: r_def handle_key_not_string_def handle_object_missing_separator_def handle_object_missing_value_def
        object_add_def value_start_def)
qed

lemma reads_elems_Cons:
  assumes "reads_value E v" and "json_plain v" and "reads_elems E vs" and "\<forall>v \<in> set vs. json_plain v"
  shows "reads_elems E (v # vs)"
  unfolding reads_elems_def
proof (intro allI impI)
  fix ts rest :: "'a token list" and e :: "'a token" and acc fuel
  assume a: "map tk_core ts = elem_tokens E (v # vs)" "tk_tag e = JSON_ARRAY_END" "tk_closes rest" "2 * length (ts @ e # rest) + 1 \<le> fuel"
  obtain t0 us0 where v: "value_tokens E v = t0 # us0" by (rule value_tokens_Cons [OF assms(2), of E])
  from a(1) obtain t us sep ws where ts: "ts = t # us @ sep @ ws" "map tk_core (t # us) = value_tokens E v"
    "map tk_core sep = (if vs \<noteq> [] then [Token E JSON_SEP 0 0 0] else [])" "map tk_core ws = elem_tokens E vs"
    by (simp only: elem_tokens.simps) (elim map_core_split, auto simp: v map_eq_Cons_conv)
  define r where "r = sep @ ws @ e # rest"
  have "ws \<noteq> [] \<Longrightarrow> vs \<noteq> []" using ts(4) by auto
  then have r: "tk_closes r" "r \<noteq> []" using follows_closes [OF ts(3)] a(2) by (auto simp: r_def)
  obtain f where f: "fuel = Suc f" "2 * length (us @ r) + 2 \<le> f" "2 * length r + 1 \<le> f" using a(4) ts(1) by (cases fuel) (auto simp: r_def)
  have "value_start (tk_tag t)" "handle_missing_separator E t (us @ r) = Inr ()" "parseJsonValue f E True t (us @ r) = Some (Inr (v, r))"
    using assms(1) ts(2) r f(2) unfolding reads_value_def by blast+
  moreover have "parseJsonArray f E True (acc @ [v]) r = Some (Inr ((acc @ [v]) @ vs, rest))"
    unfolding r_def using reads_elems_rest [OF assms(3) ts(3,4) a(2,3) _ assms(4)] f(3) by (simp add: r_def)
  ultimately show "parseJsonArray fuel E True acc (ts @ e # rest) = Some (Inr (acc @ v # vs, rest))"
    using f(1) ts(1) by (auto simp: r_def array_add_def value_start_def value_tag_def)
qed

lemma reads_plain:
  "json_plain v \<Longrightarrow> reads_value E v"
  "\<forall>kv \<in> set kvs. snd (fst kv) \<and> json_plain (snd kv) \<Longrightarrow> reads_members E kvs"
  "\<forall>v \<in> set vs. json_plain v \<Longrightarrow> reads_elems E vs"
proof (induction E v and E kvs and E vs rule: value_tokens_member_tokens_elem_tokens.induct)
  case (9 E)
  show ?case unfolding reads_members_def
  proof (intro allI impI)
    fix ts rest :: "'a token list" and e :: "'a token" and acc fuel
    assume "map tk_core ts = member_tokens E []" "tk_tag e = JSON_OBJECT_END" "tk_closes rest" "2 * length (ts @ e # rest) + 1 \<le> fuel"
    then show "parseJsonObject fuel E True acc (ts @ e # rest) = Some (Inr (acc @ [], rest))" by (cases fuel) (simp_all add: closure_ok)
  qed
next
  case (11 E)
  show ?case unfolding reads_elems_def
  proof (intro allI impI)
    fix ts rest :: "'a token list" and e :: "'a token" and acc fuel
    assume "map tk_core ts = elem_tokens E []" "tk_tag e = JSON_ARRAY_END" "tk_closes rest" "2 * length (ts @ e # rest) + 1 \<le> fuel"
    then show "parseJsonArray fuel E True acc (ts @ e # rest) = Some (Inr (acc @ [], rest))" by (cases fuel) (simp_all add: closure_ok)
  qed
next
  case (3 E s e)
  then show ?case by (intro reads_scalar) (auto simp: value_tag_def scalar_value_def)
next
  case (4 E i)
  show ?case by (intro reads_scalar) (auto simp: value_tag_def scalar_value_def)
next
  case (5 E b)
  show ?case by (cases b; intro reads_scalar) (auto simp: value_tag_def scalar_value_def)
next
  case (6 E)
  show ?case by (intro reads_scalar) (auto simp: value_tag_def scalar_value_def)
qed (simp_all add: reads_object reads_array reads_members_Cons reads_elems_Cons)


lemma parse_object_tokens:
  assumes "json_plain (JsonObject kvs)" and "map tk_core tokens = value_tokens E (JsonObject kvs)" and "2 * length tokens \<le> fuel"
  shows "parse fuel E True tokens = Some (Inr (parsed_none\<lparr>object_ptr := Some kvs\<rparr>))"
proof -
  from assms(2) obtain t us e where ts: "tokens = t # us @ [e]" "map tk_core us = member_tokens E kvs" "tk_tag e = JSON_OBJECT_END" "tk_tag t = JSON_OBJECT_BEGIN"
    by (auto simp: map_eq_append_conv map_eq_Cons_conv dest!: core_Token)
  have "reads_members E kvs" using assms(1) by (simp add: reads_plain)
  then have "parseJsonObject fuel E True [] (us @ e # []) = Some (Inr ([] @ kvs, []))"
    using ts assms(3) unfolding reads_members_def tk_closes_def by simp
  moreover have "handle_after_object_array E t (us @ [e]) = Inr ()"
    using ts member_first [of "hd us" "tl us" E kvs] by (cases us) (auto simp: handle_after_object_array_def)
  moreover have "handle_begin_end_mismatch tokens = Inr ()" using ts by (simp add: handle_begin_end_mismatch_def)
  ultimately show ?thesis using ts by (simp add: parse_def)
qed

end
