(* ===== verification/JsonFormatter.thy ===== *)
theory JsonFormatter
  imports JsonParser
begin

text \<open>
  \<open>soc/libjson/include/JsonFormatter.h\<close>, \<open>src/JsonFormatter.cc\<close>: printing a value with
  indentation.
\<close>

text \<open>
  \<open>None\<close> is the null pointer. The constructor does not set the two pointers: \<open>format\<close> has to come
  after a \<open>set_source\<close>, which sets both.
\<close>

record 'd json_formatter =
  jf_indent :: int
  jf_escape :: bool
  jf_object :: "((string \<times> bool) \<times> 'd json) list option"
  jf_array :: "'d json list option"

definition set_source_object :: "((string \<times> bool) \<times> 'd json) list \<Rightarrow> 'd json_formatter \<Rightarrow> 'd json_formatter" where
  "set_source_object kvs jf = jf\<lparr>jf_object := Some kvs, jf_array := None\<rparr>"

definition set_source_array :: "'d json list \<Rightarrow> 'd json_formatter \<Rightarrow> 'd json_formatter" where
  "set_source_array vs jf = jf\<lparr>jf_array := Some vs, jf_object := None\<rparr>"

definition append_space_character :: "int \<Rightarrow> string" where
  "append_space_character n = replicate (nat n) (CHR '' '')"

definition NEWLINE :: string where
  "NEWLINE = [CHR 0x0A]"

text \<open>
  The text each call of \<open>recursive_formatter\<close> appends to the stream: \<open>fmt_members\<close> and
  \<open>fmt_elems\<close> are the turns of its loops, \<open>once\<close> being set after the first, and \<open>fmt_closed\<close>
  is the text around them.
\<close>

definition fmt_closed :: "string \<Rightarrow> string \<Rightarrow> int \<Rightarrow> int \<Rightarrow> bool \<Rightarrow> string \<Rightarrow> string" where
  "fmt_closed l r indent depth is_empty s =
     l @ s @ (if \<not> is_empty then append_space_character ((depth - 1) * indent) else []) @ r"

definition fmt_turn :: "int \<Rightarrow> int \<Rightarrow> bool \<Rightarrow> string \<Rightarrow> bool \<Rightarrow> string" where
  \<comment> \<open>what a turn prints around the text \<open>s\<close> of its member or element\<close>
  "fmt_turn indent depth once s sep =
     (if \<not> once then NEWLINE else []) @ append_space_character (depth * indent) @ s @ (if sep then '','' else []) @ NEWLINE"

fun fmt_value :: "'d json_env \<Rightarrow> int \<Rightarrow> bool \<Rightarrow> int \<Rightarrow> 'd json \<Rightarrow> string res"
  and fmt_members :: "'d json_env \<Rightarrow> int \<Rightarrow> bool \<Rightarrow> int \<Rightarrow> bool \<Rightarrow> ((string \<times> bool) \<times> 'd json) list \<Rightarrow> string res"
  and fmt_elems :: "'d json_env \<Rightarrow> int \<Rightarrow> bool \<Rightarrow> int \<Rightarrow> bool \<Rightarrow> 'd json list \<Rightarrow> string res" where
  "fmt_value E indent escape depth (JsonObject kvs) =
     res_map (fmt_closed ''{'' ''}'' indent (depth + 1) (kvs = [])) (fmt_members E indent escape (depth + 1) False kvs)"
| "fmt_value E indent escape depth (JsonArray vs) =
     res_map (fmt_closed ''['' '']'' indent (depth + 1) (vs = [])) (fmt_elems E indent escape (depth + 1) False vs)"
| "fmt_value E indent escape depth (JsonString s e) = string_toString E escape (s, e)"
| "fmt_value E indent escape depth (JsonInt i) = json_toString E (JsonInt i)"
| "fmt_value E indent escape depth (JsonFloat d) = json_toString E (JsonFloat d)"
| "fmt_value E indent escape depth (JsonBoolean b) = json_toString E (JsonBoolean b)"
| "fmt_value E indent escape depth JsonNull = json_toString E JsonNull"
| "fmt_value E indent escape depth Nullptr = Inl NullPointer"
| "fmt_members E indent escape depth once [] = Inr []"
| "fmt_members E indent escape depth once ((k, v) # kvs) =
     res_bind (string_toString E escape k) (\<lambda>key.
     res_bind (fmt_value E indent escape depth v) (\<lambda>s.
     res_map (\<lambda>r. fmt_turn indent depth once (key @ '': '' @ s) (kvs \<noteq> []) @ r) (fmt_members E indent escape depth True kvs)))"
| "fmt_elems E indent escape depth once [] = Inr []"
| "fmt_elems E indent escape depth once (v # vs) =
     res_bind (fmt_value E indent escape depth v) (\<lambda>s.
     res_map (\<lambda>r. fmt_turn indent depth once s (vs \<noteq> []) @ r) (fmt_elems E indent escape depth True vs))"

definition fmt_object :: "'d json_env \<Rightarrow> int \<Rightarrow> bool \<Rightarrow> int \<Rightarrow> ((string \<times> bool) \<times> 'd json) list \<Rightarrow> bool \<Rightarrow> string res" where
  "fmt_object E indent escape depth kvs is_empty =
     res_map (fmt_closed ''{'' ''}'' indent depth is_empty) (fmt_members E indent escape depth False kvs)"

definition fmt_array :: "'d json_env \<Rightarrow> int \<Rightarrow> bool \<Rightarrow> int \<Rightarrow> 'd json list \<Rightarrow> bool \<Rightarrow> string res" where
  "fmt_array E indent escape depth vs is_empty =
     res_map (fmt_closed ''['' '']'' indent depth is_empty) (fmt_elems E indent escape depth False vs)"

definition json_format :: "'d json_env \<Rightarrow> 'd json_formatter \<Rightarrow> string res" where
  "json_format E jf =
     (case jf_object jf of
        Some kvs \<Rightarrow>
          if jf_indent jf \<le> 0 then json_toString E (JsonObject kvs)
          else fmt_object E (jf_indent jf) (jf_escape jf) 1 kvs False
      | None \<Rightarrow>
          (case jf_array jf of
             Some vs \<Rightarrow>
               if jf_indent jf \<le> 0 then json_toString E (JsonArray vs)
               else fmt_array E (jf_indent jf) (jf_escape jf) 1 vs False
           | None \<Rightarrow> Inl (JsonError ''the source of JsonObject or JsonArray is null'')))"


section \<open>Reading what was printed\<close>

definition exact_ints :: "'d json_env \<Rightarrow> bool" where
  \<comment> \<open>reading the decimal digits of an \<open>int\<close> as a \<open>double\<close> and converting it back gives the \<open>int\<close>\<close>
  "exact_ints E \<longleftrightarrow> (\<forall>i. int_range i \<longrightarrow> db_trunc E (db_parse E (int_decimal i)) = Some i)"

lemma NEWLINE_blank: "\<forall>c \<in> set NEWLINE. json_blank c"
  by (simp add: NEWLINE_def json_blank_def isnewline_def)

lemma spaces_blank: "\<forall>c \<in> set (append_space_character n). json_blank c"
  by (simp add: append_space_character_def json_blank_def json_isspace_def)

lemma lexes_quoted: "lexes E follow (quoted (unescape_string s)) [String E s 0 0 0]"
  unfolding quoted_def by (rule lexes_weaken [OF lexes_piece [OF piece_string [OF str_body_unescape escape_unescape]]])

lemma lexes_punct:
  "lexes E follow ''{'' [Token E JSON_OBJECT_BEGIN 0 0 0]" "lexes E follow ''}'' [Token E JSON_OBJECT_END 0 0 0]"
  "lexes E follow ''['' [Token E JSON_ARRAY_BEGIN 0 0 0]" "lexes E follow '']'' [Token E JSON_ARRAY_END 0 0 0]"
  "lexes E follow '':'' [Token E JSON_KEY_VALUE_SEP 0 0 0]" "lexes E follow '','' [Token E JSON_SEP 0 0 0]"
  by (rule lexes_weaken [OF lexes_piece [OF piece_punct]], simp)+

lemma lexes_closed:
  assumes "lexes E (\<lambda>_. True) w toks"
  shows "lexes E follow (fmt_closed ''{'' ''}'' indent depth b w) ([Token E JSON_OBJECT_BEGIN 0 0 0] @ toks @ [Token E JSON_OBJECT_END 0 0 0])"
    and "lexes E follow (fmt_closed ''['' '']'' indent depth b w) ([Token E JSON_ARRAY_BEGIN 0 0 0] @ toks @ [Token E JSON_ARRAY_END 0 0 0])"
proof -
  have *: "lexes E follow ((if \<not> b then append_space_character n else []) @ r) [t]" if "lexes E follow r [t]" for n r t
    using lexes_then [OF lexes_blanks [OF spaces_blank] that] that by simp
  show "lexes E follow (fmt_closed ''{'' ''}'' indent depth b w) ([Token E JSON_OBJECT_BEGIN 0 0 0] @ toks @ [Token E JSON_OBJECT_END 0 0 0])"
    unfolding fmt_closed_def by (intro lexes_then [OF lexes_punct(1)] lexes_then [OF assms] * lexes_punct)
  show "lexes E follow (fmt_closed ''['' '']'' indent depth b w) ([Token E JSON_ARRAY_BEGIN 0 0 0] @ toks @ [Token E JSON_ARRAY_END 0 0 0])"
    unfolding fmt_closed_def by (intro lexes_then [OF lexes_punct(3)] lexes_then [OF assms] * lexes_punct)
qed

lemma lexes_turn:
  assumes "lexes E delimited w toks"
  shows "lexes E (\<lambda>_. True) (fmt_turn indent depth once w sep) (toks @ (if sep then [Token E JSON_SEP 0 0 0] else []))"
proof -
  have n: "lexes E (\<lambda>_. True) NEWLINE []" by (simp add: lexes_blanks NEWLINE_blank)
  have "lexes E (\<lambda>_. True) ((if sep then '','' else []) @ NEWLINE) ((if sep then [Token E JSON_SEP 0 0 0] else []) @ [])"
    by (intro lexes_then n) (simp add: lexes_punct lexes_Nil)
  then have "lexes E (\<lambda>_. True) (w @ (if sep then '','' else []) @ NEWLINE) (toks @ (if sep then [Token E JSON_SEP 0 0 0] else []) @ [])"
    by (rule lexes_append [OF assms])
      (simp add: delimited_def NEWLINE_def number_char_def isnumber_def isexponent_def)
  then have "lexes E (\<lambda>_. True) (append_space_character (depth * indent) @ w @ (if sep then '','' else []) @ NEWLINE) ([] @ toks @ (if sep then [Token E JSON_SEP 0 0 0] else []) @ [])"
    by (rule lexes_then [OF lexes_blanks [OF spaces_blank]])
  then have "lexes E (\<lambda>_. True) ((if \<not> once then NEWLINE else []) @ append_space_character (depth * indent) @ w @ (if sep then '','' else []) @ NEWLINE)
      ([] @ [] @ toks @ (if sep then [Token E JSON_SEP 0 0 0] else []) @ [])"
    by (rule lexes_then [rotated]) (simp add: n lexes_Nil)
  then show ?thesis by (simp add: fmt_turn_def)
qed

lemma lexes_member:
  assumes "lexes E delimited w toks"
  shows "lexes E delimited (quoted (unescape_string s) @ '': '' @ w) ([String E s 0 0 0, Token E JSON_KEY_VALUE_SEP 0 0 0] @ toks)"
proof -
  have "lexes E delimited ('' '' @ w) ([] @ toks)" by (rule lexes_then [OF lexes_blanks assms]) (simp add: json_blank_def json_isspace_def)
  from lexes_then [OF lexes_quoted lexes_then [OF lexes_punct(5) this], of s] show ?thesis by simp
qed

lemma lexes_words:
  "lexes E follow ''true'' [Identifier E JSON_TRUE ''true'' 0 0 0]" "lexes E follow ''false'' [Identifier E JSON_FALSE ''false'' 0 0 0]"
  "lexes E follow ''null'' [Identifier E JSON_NULL ''null'' 0 0 0]"
  by (rule lexes_weaken [OF lexes_piece [OF piece_word]], simp)+

lemma fmt_lexes:
  assumes "exact_ints E"
  shows "json_plain v \<Longrightarrow> \<exists>w. fmt_value E indent False depth v = Inr w \<and> lexes E delimited w (value_tokens E v)"
    and "\<forall>kv \<in> set kvs. snd (fst kv) \<and> json_plain (snd kv) \<Longrightarrow>
      \<exists>w. fmt_members E indent False depth once kvs = Inr w \<and> lexes E (\<lambda>_. True) w (member_tokens E kvs)"
    and "\<forall>v \<in> set vs. json_plain v \<Longrightarrow>
      \<exists>w. fmt_elems E indent False depth once vs = Inr w \<and> lexes E (\<lambda>_. True) w (elem_tokens E vs)"
  using assms
proof (induction E indent "False" depth v and E indent "False" depth once kvs and E indent "False" depth once vs
    rule: fmt_value_fmt_members_fmt_elems.induct)
  case (1 E indent depth kvs)
  then show ?case using lexes_closed(1) by fastforce
next
  case (2 E indent depth vs)
  then show ?case using lexes_closed(2) by fastforce
next
  case (3 E indent depth s e)
  then show ?case by (simp add: string_toString_def lexes_quoted)
next
  case (4 E indent depth i)
  then show ?case by (simp add: exact_ints_def lexes_piece piece_int)
next
  case (10 E indent depth once k v kvs)
  have k: "string_toString E False k = Inr (quoted (unescape_string (fst k)))" using 10 by (simp add: string_toString_def split_beta)
  from 10 k obtain s where s: "fmt_value E indent False depth v = Inr s" "lexes E delimited s (value_tokens E v)" by auto
  from 10(2) [OF k s(1)] 10(3,4) obtain r where r: "fmt_members E indent False depth True kvs = Inr r" "lexes E (\<lambda>_. True) r (member_tokens E kvs)" by auto
  show ?case using lexes_then [OF lexes_turn [OF lexes_member [OF s(2)]] r(2), of indent depth once "fst k" "kvs \<noteq> []"] k s(1) r(1)
    by (cases "kvs = []") simp_all
next
  case (12 E indent depth once v vs)
  then obtain s r where "fmt_value E indent False depth v = Inr s" "lexes E delimited s (value_tokens E v)"
    "fmt_elems E indent False depth True vs = Inr r" "lexes E (\<lambda>_. True) r (elem_tokens E vs)" by auto
  with lexes_then [OF lexes_turn] show ?case by fastforce
qed (simp_all add: lexes_words lexes_Nil)


lemma lexed_object_parses:
  assumes "json_plain (JsonObject kvs)" and "lexes E delimited text (value_tokens E (JsonObject kvs))" and "2 * length text + 2 \<le> fuel"
  shows "JsonParser_parse fuel E text True = Some (Inr (parsed_none\<lparr>object_ptr := Some kvs\<rparr>))"
proof -
  obtain ts where ts: "getTokens fuel E (lexer_new text True) = Some (Inr ts)" "map tk_core ts = value_tokens E (JsonObject kvs)" "length ts \<le> length text"
    using getTokens_lexes [OF assms(2), of fuel] assms(3) by (auto simp: delimited_def)
  with parse_object_tokens [OF assms(1) ts(2), of fuel] assms(3) show ?thesis by (simp add: JsonParser_parse_def)
qed

text \<open>
  The contract of a reader for a printed object: what is printed for a value that is \<open>valid\<close> is read
  as that value, within two units of fuel per character and two for the end.
\<close>

locale object_codec =
  fixes valid :: "'v \<Rightarrow> bool"
    and print :: "'v \<Rightarrow> string res"
    and read :: "nat \<Rightarrow> string \<Rightarrow> 'r run"
    and result :: "'v \<Rightarrow> 'r"
  assumes read_print: "valid v \<Longrightarrow> \<exists>t. print v = Inr t \<and> (\<forall>fuel \<ge> 2 * length t + 2. read fuel t = Some (Inr (result v)))"
    and result_inj: "result v = result w \<Longrightarrow> v = w"
begin

lemma printed:
  assumes "valid v" and "print v = Inr t" and "2 * length t + 2 \<le> fuel"
  shows "read fuel t = Some (Inr (result v))"
  using read_print [OF assms(1)] assms(2,3) by auto

lemma print_inj:
  assumes "valid v" and "valid w" and "print v = print w"
  shows "v = w"
proof -
  obtain t where "print v = Inr t" "print w = Inr t" using read_print [OF assms(1)] assms(3) by auto
  with printed [OF assms(1), of t "2 * length t + 2"] printed [OF assms(2), of t "2 * length t + 2"]
  show ?thesis by (intro result_inj) simp
qed

end

definition print_object :: "'d json_env \<Rightarrow> int \<Rightarrow> ((string \<times> bool) \<times> 'd json) list \<Rightarrow> string res" where
  \<comment> \<open>\<open>JsonFormatter(indent, false)\<close>, \<open>set_source\<close> and \<open>format()\<close>\<close>
  "print_object E indent kvs = json_format E (set_source_object kvs \<lparr>jf_indent = indent, jf_escape = False, jf_object = None, jf_array = None\<rparr>)"

lemma print_object_text:
  assumes "exact_ints E" and "json_plain (JsonObject kvs)" and "0 < indent"
  obtains w where "fmt_members E indent False 1 False kvs = Inr w" "lexes E (\<lambda>_. True) w (member_tokens E kvs)"
    "print_object E indent kvs = Inr (fmt_closed ''{'' ''}'' indent 1 False w)"
proof -
  obtain w where "fmt_members E indent False 1 False kvs = Inr w" "lexes E (\<lambda>_. True) w (member_tokens E kvs)"
    using fmt_lexes(2) [OF assms(1)] assms(2) by fastforce
  moreover from this(1) have "print_object E indent kvs = Inr (fmt_closed ''{'' ''}'' indent 1 False w)"
    using assms(3) by (simp add: print_object_def set_source_object_def json_format_def fmt_object_def)
  ultimately show ?thesis using that by blast
qed

interpretation text_codec: object_codec "\<lambda>kvs. exact_ints E \<and> json_plain (JsonObject kvs) \<and> 0 < indent" "print_object E indent"
  "\<lambda>fuel text. JsonParser_parse fuel E text True" "\<lambda>kvs. parsed_none\<lparr>object_ptr := Some kvs\<rparr>" for E indent
proof unfold_locales
  fix kvs :: "((string \<times> bool) \<times> 'a json) list"
  assume a: "exact_ints E \<and> json_plain (JsonObject kvs) \<and> 0 < indent"
  then obtain w where w: "lexes E (\<lambda>_. True) w (member_tokens E kvs)" "print_object E indent kvs = Inr (fmt_closed ''{'' ''}'' indent 1 False w)"
    by (auto elim: print_object_text)
  have "lexes E delimited (fmt_closed ''{'' ''}'' indent 1 False w) (value_tokens E (JsonObject kvs))" using lexes_closed(1) [OF w(1)] by simp
  with w(2) a show "\<exists>t. print_object E indent kvs = Inr t \<and>
      (\<forall>fuel \<ge> 2 * length t + 2. JsonParser_parse fuel E t True = Some (Inr (parsed_none\<lparr>object_ptr := Some kvs\<rparr>)))"
    using lexed_object_parses by blast
qed (simp add: parsed_none_def)


lemma exact_ints_int_env: "exact_ints int_env"
  by (simp add: exact_ints_def int_env_def read_int_decimal)

definition demo_members :: "((string \<times> bool) \<times> int json) list" where
  "demo_members = [((''a'', True), JsonArray [JsonInt (-12), JsonString (CHR 0x22 # ''b c'' @ [CHR 0x0A]) True, JsonNull]),
     ((''d'', True), JsonObject [((''e'', True), JsonBoolean False), ((''f'', True), JsonArray [])])]"


theorem parse_returns_witness:
  "2 * length [Token int_env JSON_ARRAY_BEGIN 1 2 1, Number int_env 1 1 3 1, Token int_env JSON_OBJECT_END 1 4 1, Token int_env JSON_ARRAY_END 1 5 1] \<le> (8 :: nat) \<and>
   json_returns parsed_members_present (parse 8 int_env True
     [Token int_env JSON_ARRAY_BEGIN 1 2 1, Number int_env 1 1 3 1, Token int_env JSON_OBJECT_END 1 4 1, Token int_env JSON_ARRAY_END 1 5 1])"
  using parse_returns [of "[Token int_env JSON_ARRAY_BEGIN 1 2 1, Number int_env 1 1 3 1, Token int_env JSON_OBJECT_END 1 4 1, Token int_env JSON_ARRAY_END 1 5 1]" 8 int_env True]
  by simp

lemma mismatched_bracket_gives_null:
  "parse 8 E True [Token E JSON_ARRAY_BEGIN 1 2 1, Number E 1 1 3 1, Token E JSON_OBJECT_END 1 4 1, Token E JSON_ARRAY_END 1 5 1]
     = Some (Inr (parsed_none\<lparr>array_ptr := Some [JsonInt 1, Nullptr]\<rparr>))"
  by (simp add: parse_def handle_defs eval_nat_numeral scalar_value_def array_add_def value_tag_def)

end
