(* ===== verification/AppConfig.thy ===== *)
theory AppConfig
  imports JsonFormatter
begin

text \<open>
  \<open>soc/utility\<close> (\<open>AppConfig.h\<close>, \<open>AppConfig.cc\<close>): the configuration, a map of sections read
  once from a JSON file. The argument \<open>content\<close> is what the stream gives, empty when the file cannot be
  opened.
\<close>

datatype Values = VString string | VInt int | VBool bool | VStrings "string list"

type_synonym ConfigMp = "string \<rightharpoonup> string \<rightharpoonup> Values"

definition config_set :: "string \<Rightarrow> string \<Rightarrow> Values \<Rightarrow> ConfigMp \<Rightarrow> ConfigMp" where
  \<comment> \<open>\<open>config_[key][subkey] = v\<close>\<close>
  "config_set key subkey v m = m(key \<mapsto> (case m key of None \<Rightarrow> Map.empty | Some s \<Rightarrow> s)(subkey \<mapsto> v))"

fun array_strings :: "'d json list \<Rightarrow> string list res" where
  "array_strings [] = Inr []"
| "array_strings (v # vs) = res_bind (value_string v) (\<lambda>s. res_map (\<lambda>r. s # r) (array_strings vs))"

fun toJsonArray :: "'d json \<Rightarrow> 'd json list res" where
  "toJsonArray (JsonArray vs) = Inr vs"
| "toJsonArray _ = Inl NullPointer"

definition config_subvalue :: "string \<Rightarrow> ConfigMp \<Rightarrow> (string \<times> bool) \<times> 'd json \<Rightarrow> ConfigMp res" where
  "config_subvalue key m = (\<lambda>(subkey, v).
     res_bind (json_type v) (\<lambda>t. case t of
        JStringType \<Rightarrow> res_map (\<lambda>s. config_set key (fst subkey) (VString s) m) (value_string v)
      | JNumberType \<Rightarrow> res_map (\<lambda>i. config_set key (fst subkey) (VInt i) m) (value_int v)
      | JBooleanType \<Rightarrow> res_map (\<lambda>b. config_set key (fst subkey) (VBool b) m) (value_bool v)
      | JArrayType \<Rightarrow> res_bind (toJsonArray v) (\<lambda>vs. res_map (\<lambda>ss. config_set key (fst subkey) (VStrings ss) m) (array_strings vs))
      | _ \<Rightarrow> Inr m))"

definition config_section :: "ConfigMp \<Rightarrow> (string \<times> bool) \<times> 'd json \<Rightarrow> ConfigMp res" where
  "config_section m = (\<lambda>(key, v).
     res_bind (toJsonObject v) (\<lambda>p. case p of
        None \<Rightarrow> Inl NullPointer
      | Some kvs \<Rightarrow> res_fold (config_subvalue (fst key)) kvs m))"

definition config_new :: "nat \<Rightarrow> 'd json_env \<Rightarrow> string \<Rightarrow> ConfigMp run" where
  \<comment> \<open>the constructor\<close>
  "config_new fuel E content =
     run_bind (JsonParser_parse_file fuel E content True) (\<lambda>p.
       Some (case object_ptr p of None \<Rightarrow> Inl NullPointer | Some kvs \<Rightarrow> res_fold config_section kvs Map.empty))"

definition config_get :: "ConfigMp \<Rightarrow> string \<Rightarrow> string \<Rightarrow> Values res" where
  "config_get m key subkey =
     (case m key of None \<Rightarrow> Inl OutOfRange
      | Some s \<Rightarrow> (case s subkey of None \<Rightarrow> Inl OutOfRange | Some v \<Rightarrow> Inr v))"

definition config_exist :: "ConfigMp \<Rightarrow> string \<Rightarrow> string \<Rightarrow> bool" where
  "config_exist m key subkey \<longleftrightarrow> m key \<noteq> None \<and> the (m key) subkey \<noteq> None"

definition GET_CONFIG :: "(Values \<Rightarrow> 'a option) \<Rightarrow> ConfigMp \<Rightarrow> string \<Rightarrow> string \<Rightarrow> 'a res" where
  \<comment> \<open>\<open>std::get<T>\<close> of the value: \<open>sel\<close> is \<open>None\<close> for a value of another type\<close>
  "GET_CONFIG sel m key subkey =
     res_bind (config_get m key subkey) (\<lambda>v. case sel v of None \<Rightarrow> Inl BadVariantAccess | Some x \<Rightarrow> Inr x)"

definition as_string :: "Values \<Rightarrow> string option" where
  "as_string v = (case v of VString s \<Rightarrow> Some s | _ \<Rightarrow> None)"

definition as_int :: "Values \<Rightarrow> int option" where
  "as_int v = (case v of VInt i \<Rightarrow> Some i | _ \<Rightarrow> None)"

definition as_bool :: "Values \<Rightarrow> bool option" where
  "as_bool v = (case v of VBool b \<Rightarrow> Some b | _ \<Rightarrow> None)"

definition as_strings :: "Values \<Rightarrow> string list option" where
  "as_strings v = (case v of VStrings ss \<Rightarrow> Some ss | _ \<Rightarrow> None)"

lemma GET_CONFIG_eq [res_simps]:
  "GET_CONFIG as_string m key subkey = Inr s \<longleftrightarrow> config_get m key subkey = Inr (VString s)"
  "GET_CONFIG as_int m key subkey = Inr i \<longleftrightarrow> config_get m key subkey = Inr (VInt i)"
  "GET_CONFIG as_bool m key subkey = Inr b \<longleftrightarrow> config_get m key subkey = Inr (VBool b)"
  "GET_CONFIG as_strings m key subkey = Inr ss \<longleftrightarrow> config_get m key subkey = Inr (VStrings ss)"
  by (cases "config_get m key subkey";
      auto simp: GET_CONFIG_def as_string_def as_int_def as_bool_def as_strings_def split: Values.split)+



section \<open>What a configuration holds\<close>

text \<open>The value a member is stored as; null and object members are left out.\<close>

fun config_value :: "'d json \<Rightarrow> Values option" where
  "config_value (JsonString s e) = Some (VString s)"
| "config_value (JsonInt i) = Some (VInt i)"
| "config_value (JsonFloat d) = Some (VInt 0)"
| "config_value (JsonBoolean b) = Some (VBool b)"
| "config_value (JsonArray vs) = Some (VStrings (map (\<lambda>v. case v of JsonString s e \<Rightarrow> s | _ \<Rightarrow> []) vs))"
| "config_value _ = None"

definition section_entries :: "string \<Rightarrow> ((string \<times> bool) \<times> 'd json) list \<Rightarrow> ((string \<times> string) \<times> Values) list" where
  "section_entries key kvs = concat (map (\<lambda>(k, v). case config_value v of None \<Rightarrow> [] | Some x \<Rightarrow> [((key, fst k), x)]) kvs)"

definition config_entries :: "((string \<times> bool) \<times> 'd json) list \<Rightarrow> ((string \<times> string) \<times> Values) list" where
  "config_entries kvs = concat (map (\<lambda>(k, v). case v of JsonObject sub \<Rightarrow> section_entries (fst k) sub | _ \<Rightarrow> []) kvs)"

fun null_free :: "'d json \<Rightarrow> bool" where
  "null_free (JsonArray vs) \<longleftrightarrow> Nullptr \<notin> set vs"
| "null_free Nullptr \<longleftrightarrow> False"
| "null_free _ \<longleftrightarrow> True"

definition config_shape :: "((string \<times> bool) \<times> 'd json) list \<Rightarrow> bool" where
  \<comment> \<open>every member is an object, and none of their members is or has a null pointer\<close>
  "config_shape kvs \<longleftrightarrow> (\<forall>kv \<in> set kvs. case snd kv of JsonObject sub \<Rightarrow> \<forall>s \<in> set sub. null_free (snd s) | _ \<Rightarrow> False)"

definition config_lookup :: "ConfigMp \<Rightarrow> string \<times> string \<Rightarrow> Values option" where
  "config_lookup m = (\<lambda>(key, subkey). case m key of None \<Rightarrow> None | Some s \<Rightarrow> s subkey)"

lemma config_lookup_set: "config_lookup (config_set key subkey v m) = (config_lookup m)((key, subkey) \<mapsto> v)"
  by (rule ext) (auto simp: config_lookup_def config_set_def split: option.splits if_splits)

lemma array_strings_ok: "Nullptr \<notin> set vs \<Longrightarrow> array_strings vs = Inr (map (\<lambda>v. case v of JsonString s e \<Rightarrow> s | _ \<Rightarrow> []) vs)"
proof (induction vs)
  case (Cons v vs)
  then show ?case by (cases v) auto
qed simp

lemma config_subvalue_ok:
  assumes "null_free v"
  shows "\<exists>m'. config_subvalue key m (k, v) = Inr m' \<and>
     config_lookup m' = config_lookup m ++ map_of (case config_value v of None \<Rightarrow> [] | Some x \<Rightarrow> [((key, fst k), x)])"
  using assms by (cases v) (auto simp: config_subvalue_def config_lookup_set array_strings_ok)

lemma section_ok:
  assumes "\<forall>s \<in> set sub. null_free (snd s)"
  shows "\<exists>m'. res_fold (config_subvalue key) sub m = Inr m' \<and> config_lookup m' = config_lookup m ++ map_of (rev (section_entries key sub))"
  using assms
proof (induction sub arbitrary: m)
  case (Cons s sub)
  obtain k v where s: "s = (k, v)" by (cases s)
  with Cons.prems config_subvalue_ok [of v key m k] obtain m1 where m1: "config_subvalue key m s = Inr m1"
    "config_lookup m1 = config_lookup m ++ map_of (case config_value v of None \<Rightarrow> [] | Some x \<Rightarrow> [((key, fst k), x)])" by auto
  from Cons.IH [of m1] Cons.prems obtain m2 where "res_fold (config_subvalue key) sub m1 = Inr m2"
    "config_lookup m2 = config_lookup m1 ++ map_of (rev (section_entries key sub))" by auto
  with m1 s show ?case by (cases "config_value v") (auto simp: section_entries_def)
qed (simp add: section_entries_def)

lemma config_ok:
  assumes "config_shape kvs"
  shows "\<exists>m'. res_fold config_section kvs m = Inr m' \<and> config_lookup m' = config_lookup m ++ map_of (rev (config_entries kvs))"
  using assms
proof (induction kvs arbitrary: m)
  case (Cons kv kvs)
  obtain k sub where kv: "kv = (k, JsonObject sub)" "\<forall>s \<in> set sub. null_free (snd s)" and sh: "config_shape kvs"
    using Cons.prems by (cases kv; cases "snd kv") (auto simp: config_shape_def)
  obtain m1 where m1: "config_section m kv = Inr m1" "config_lookup m1 = config_lookup m ++ map_of (rev (section_entries (fst k) sub))"
    using section_ok [OF kv(2)] kv(1) by (fastforce simp: config_section_def)
  from Cons.IH [OF sh, of m1] obtain m2 where "res_fold config_section kvs m1 = Inr m2"
    "config_lookup m2 = config_lookup m1 ++ map_of (rev (config_entries kvs))" by auto
  with m1 kv show ?case by (auto simp: config_entries_def)
qed (simp add: config_entries_def)

lemma config_get_lookup:
  "config_get m key subkey = (case config_lookup m (key, subkey) of None \<Rightarrow> Inl OutOfRange | Some v \<Rightarrow> Inr v)"
  "config_exist m key subkey \<longleftrightarrow> config_lookup m (key, subkey) \<noteq> None"
  by (auto simp: config_get_def config_exist_def config_lookup_def split: option.split)

section \<open>Reading a file\<close>

abbreviation strip :: "string \<Rightarrow> string" where
  "strip \<equiv> filter (\<lambda>c. \<not> stream_space c)"

fun spaceless :: "'d json \<Rightarrow> bool" where
  \<comment> \<open>no string has a blank or a vertical tab, the white space that has no escape\<close>
  "spaceless (JsonObject kvs) \<longleftrightarrow> (\<forall>kv \<in> set kvs. CHR '' '' \<notin> set (fst (fst kv)) \<and> CHR 0x0B \<notin> set (fst (fst kv)) \<and> spaceless (snd kv))"
| "spaceless (JsonArray vs) \<longleftrightarrow> (\<forall>v \<in> set vs. spaceless v)"
| "spaceless (JsonString s e) \<longleftrightarrow> CHR '' '' \<notin> set s \<and> CHR 0x0B \<notin> set s"
| "spaceless _ \<longleftrightarrow> True"

lemma strip_id: "\<forall>c \<in> set s. \<not> stream_space c \<Longrightarrow> strip s = s"
  by simp

lemma unescape_character_space:
  "d \<noteq> CHR '' '' \<Longrightarrow> d \<noteq> CHR 0x0B \<Longrightarrow> c \<in> set (unescape_character d) \<Longrightarrow> \<not> stream_space c"
  by (auto simp: unescape_character_def stream_space_def split: if_splits)

lemma strip_unescape:
  assumes "CHR '' '' \<notin> set s" and "CHR 0x0B \<notin> set s"
  shows "strip (quoted (unescape_string s)) = quoted (unescape_string s)"
proof (rule strip_id, rule ballI)
  fix c assume c: "c \<in> set (quoted (unescape_string s))"
  then consider "c = CHR 0x22" | d where "d \<in> set s" "c \<in> set (unescape_character d)" by (auto simp: quoted_def unescape_string_def)
  then show "\<not> stream_space c"
  proof cases
    case (2 d)
    with assms show ?thesis using unescape_character_space [of d c] by auto
  qed (simp add: stream_space_def)
qed

lemma strip_int_decimal: "strip (int_decimal i) = int_decimal i"
proof (rule strip_id)
  obtain c ds where "int_decimal i = c # ds" "isnumber c \<or> c = CHR ''-''" "\<forall>d \<in> set ds. isnumber d" "c = CHR ''0'' \<longrightarrow> ds = []"
    by (rule int_decimal_shape)
  then show "\<forall>c \<in> set (int_decimal i). \<not> stream_space c" by (auto simp: stream_space_def isnumber_def)
qed

lemma strip_turn: "strip (fmt_turn indent depth once w sep) = strip w @ (if sep then '','' else [])"
  by (simp add: fmt_turn_def NEWLINE_def append_space_character_def stream_space_def)

lemma strip_closed: "\<forall>c \<in> set (l @ r). \<not> stream_space c \<Longrightarrow> strip (fmt_closed l r indent depth b w) = l @ strip w @ r"
  by (simp add: fmt_closed_def append_space_character_def stream_space_def)

lemma bracket_space [simp]:
  "\<not> stream_space CHR ''{''" "\<not> stream_space CHR ''}''" "\<not> stream_space CHR ''[''" "\<not> stream_space CHR '']''"
  "\<not> stream_space CHR '':''" "stream_space CHR '' ''"
  by (simp_all add: stream_space_def)

lemma lexes_separated:
  assumes "lexes E delimited w toks" and "lexes E delimited r us" and "\<not> sep \<longrightarrow> r = []"
  shows "lexes E delimited (w @ (if sep then '','' else []) @ r) (toks @ (if sep then [Token E JSON_SEP 0 0 0] else []) @ us)"
proof -
  have "lexes E delimited ((if sep then '','' else []) @ r) ((if sep then [Token E JSON_SEP 0 0 0] else []) @ us)"
    using assms(2) lexes_then [OF lexes_punct(6) assms(2)] by simp
  then show ?thesis using assms(3)
    by (intro lexes_append [OF assms(1)]) (auto simp: delimited_def number_char_def isnumber_def isexponent_def)
qed

lemma lexes_bracket:
  assumes "lexes E delimited w toks" and "(l, r, a, b) \<in> {(''{'', ''}'', JSON_OBJECT_BEGIN, JSON_OBJECT_END), (''['', '']'', JSON_ARRAY_BEGIN, JSON_ARRAY_END)}"
  shows "lexes E delimited (l @ w @ r) ([Token E a 0 0 0] @ toks @ [Token E b 0 0 0])"
proof -
  have "lexes E delimited (w @ r) (toks @ [Token E b 0 0 0])"
    using assms(2) lexes_punct(2,4) [of E delimited]
    by (intro lexes_append [OF assms(1)]) (auto simp: delimited_def number_char_def isnumber_def isexponent_def)
  moreover have "lexes E (\<lambda>_. True) l [Token E a 0 0 0]" using assms(2) lexes_punct(1,3) by auto
  ultimately show ?thesis by (rule lexes_then [rotated])
qed

lemma strip_lexes:
  assumes "exact_ints E"
  shows "json_plain v \<Longrightarrow> spaceless v \<Longrightarrow> fmt_value E indent False depth v = Inr w \<Longrightarrow> lexes E delimited (strip w) (value_tokens E v)"
    and "json_plain (JsonObject kvs) \<Longrightarrow> spaceless (JsonObject kvs) \<Longrightarrow> fmt_members E indent False depth once kvs = Inr w \<Longrightarrow>
       lexes E delimited (strip w) (member_tokens E kvs)"
    and "json_plain (JsonArray vs) \<Longrightarrow> spaceless (JsonArray vs) \<Longrightarrow> fmt_elems E indent False depth once vs = Inr w \<Longrightarrow>
       lexes E delimited (strip w) (elem_tokens E vs)"
  using assms
proof (induction E indent "False" depth v and E indent "False" depth once kvs and E indent "False" depth once vs
    arbitrary: w and w and w rule: fmt_value_fmt_members_fmt_elems.induct)
  case (1 E indent depth kvs)
  then obtain r where "fmt_members E indent False (depth + 1) False kvs = Inr r" "w = fmt_closed ''{'' ''}'' indent (depth + 1) (kvs = []) r"
    by (auto simp: res_map_eq_Inr)
  with 1 show ?case using lexes_bracket [of E "strip r" "member_tokens E kvs" "''{''" "''}''"] by (simp add: strip_closed)
next
  case (2 E indent depth vs)
  then obtain r where "fmt_elems E indent False (depth + 1) False vs = Inr r" "w = fmt_closed ''['' '']'' indent (depth + 1) (vs = []) r"
    by (auto simp: res_map_eq_Inr)
  with 2 show ?case using lexes_bracket [of E "strip r" "elem_tokens E vs" "''[''" "'']''"] by (simp add: strip_closed)
next
  case (3 E indent depth s e)
  then show ?case by (auto simp: string_toString_def lexes_quoted strip_unescape)
next
  case (4 E indent depth i)
  then show ?case by (auto simp: exact_ints_def lexes_piece piece_int strip_int_decimal)
next
  case (10 E indent depth once k v kvs)
  have k: "string_toString E False k = Inr (quoted (unescape_string (fst k)))" using 10 by (simp add: string_toString_def split_beta)
  obtain s r where sr: "fmt_value E indent False depth v = Inr s" "fmt_members E indent False depth True kvs = Inr r"
    "w = fmt_turn indent depth once (quoted (unescape_string (fst k)) @ '': '' @ s) (kvs \<noteq> []) @ r"
    using "10.prems"(3) k by (auto simp: res_bind_eq_Inr res_map_eq_Inr)
  have "lexes E delimited (strip s) (value_tokens E v)" using 10(1) [OF k _ _ sr(1)] 10 by simp
  from lexes_then [OF lexes_quoted lexes_then [OF lexes_punct(5) this], of "fst k"]
  have m: "lexes E delimited (quoted (unescape_string (fst k)) @ '':'' @ strip s)
      ([String E (fst k) 0 0 0] @ [Token E JSON_KEY_VALUE_SEP 0 0 0] @ value_tokens E v)" .
  have r: "lexes E delimited (strip r) (member_tokens E kvs)" using 10(2) [OF k sr(1) _ _ sr(2)] 10 by simp
  have "kvs = [] \<longrightarrow> strip r = []" using sr(2) by auto
  with lexes_separated [OF m r, of "kvs \<noteq> []"] sr(3) 10 show ?case
    by (cases "kvs = []") (simp_all add: strip_turn strip_unescape)
next
  case (12 E indent depth once v vs)
  obtain s r where sr: "fmt_value E indent False depth v = Inr s" "fmt_elems E indent False depth True vs = Inr r"
    "w = fmt_turn indent depth once s (vs \<noteq> []) @ r"
    using "12.prems"(3) by (auto simp: res_bind_eq_Inr res_map_eq_Inr)
  have m: "lexes E delimited (strip s) (value_tokens E v)" using 12 sr(1) by simp
  have r: "lexes E delimited (strip r) (elem_tokens E vs)" using 12(2) [OF sr(1) _ _ sr(2)] 12 by simp
  have "vs = [] \<longrightarrow> strip r = []" using sr(2) by auto
  with lexes_separated [OF m r, of "vs \<noteq> []"] sr(3) show ?case
    by (cases "vs = []") (simp_all add: strip_turn)
qed (auto simp: lexes_words lexes_Nil stream_space_def)


lemma config_lookup_empty: "config_lookup Map.empty = Map.empty"
  by (rule ext) (simp add: config_lookup_def split_beta)

lemma file_parses:
  assumes "json_plain (JsonObject kvs)" and "lexes E delimited (strip text) (value_tokens E (JsonObject kvs))" and "2 * length text + 2 \<le> fuel"
  shows "JsonParser_parse_file fuel E text True = Some (Inr (parsed_none\<lparr>object_ptr := Some kvs\<rparr>))"
proof -
  have "strip text \<noteq> []" using assms(2) by (auto simp: lexes_def)
  moreover have "2 * length (strip text) + 2 \<le> fuel" using assms(3) length_filter_le [of "\<lambda>c. \<not> stream_space c" "text"] by linarith
  ultimately show ?thesis using lexed_object_parses [OF assms(1,2)]
    by (simp add: JsonParser_parse_file_def JsonParser_parse_def lexer_open_def read_stream_def Let_def)
qed

interpretation file_codec: object_codec "\<lambda>kvs. exact_ints E \<and> json_plain (JsonObject kvs) \<and> spaceless (JsonObject kvs) \<and> 0 < indent" "print_object E indent"
  "\<lambda>fuel content. JsonParser_parse_file fuel E content True" "\<lambda>kvs. parsed_none\<lparr>object_ptr := Some kvs\<rparr>" for E indent
proof unfold_locales
  fix kvs :: "((string \<times> bool) \<times> 'a json) list"
  assume a: "exact_ints E \<and> json_plain (JsonObject kvs) \<and> spaceless (JsonObject kvs) \<and> 0 < indent"
  then obtain w where w: "fmt_members E indent False 1 False kvs = Inr w" "print_object E indent kvs = Inr (fmt_closed ''{'' ''}'' indent 1 False w)"
    by (auto elim: print_object_text)
  have "lexes E delimited (strip (fmt_closed ''{'' ''}'' indent 1 False w)) (value_tokens E (JsonObject kvs))"
    using lexes_bracket [OF strip_lexes(2) [OF _ _ _ w(1)], of "''{''" "''}''"] a by (simp add: strip_closed)
  with w(2) a show "\<exists>t. print_object E indent kvs = Inr t \<and>
      (\<forall>fuel \<ge> 2 * length t + 2. JsonParser_parse_file fuel E t True = Some (Inr (parsed_none\<lparr>object_ptr := Some kvs\<rparr>)))"
    using file_parses by blast
qed (simp add: parsed_none_def)

lemma config_file_lookup:
  assumes "exact_ints E" and "json_plain (JsonObject kvs)" and "spaceless (JsonObject kvs)" and "config_shape kvs" and "0 < indent"
  shows "\<exists>content m. print_object E indent kvs = Inr content \<and>
     (\<forall>fuel \<ge> 2 * length content + 2. config_new fuel E content = Some (Inr m)) \<and>
     config_lookup m = map_of (rev (config_entries kvs))"
proof -
  obtain t where t: "print_object E indent kvs = Inr t"
    "\<forall>fuel \<ge> 2 * length t + 2. JsonParser_parse_file fuel E t True = Some (Inr (parsed_none\<lparr>object_ptr := Some kvs\<rparr>))"
    using file_codec.read_print [of E kvs indent] assms by blast
  moreover obtain m where "res_fold config_section kvs Map.empty = Inr m" "config_lookup m = map_of (rev (config_entries kvs))"
    using config_ok [OF assms(4), of Map.empty] by (auto simp: config_lookup_empty)
  ultimately show ?thesis
    by (intro exI [of _ t] exI [of _ m]) (simp add: config_new_def parsed_none_def)
qed

text \<open>
  C38. A configuration written by \<open>JsonFormatter\<close> is what \<open>AppConfig\<close> holds after reading the file:
  \<open>exist\<close> is true exactly for the keys with a string, number, boolean or array value, and \<open>get\<close>
  returns the value of the last member with that key and throws \<open>out_of_range\<close> for every other key.
  The strings must not hold blanks: reading the file drops white space inside literals too.
\<close>

theorem config_file_read_back:
  assumes "exact_ints E" and "json_plain (JsonObject kvs)" and "spaceless (JsonObject kvs)" and "config_shape kvs" and "0 < indent"
  shows "\<exists>content m. print_object E indent kvs = Inr content \<and>
     (\<forall>fuel \<ge> 2 * length content + 2. config_new fuel E content = Some (Inr m)) \<and>
     (\<forall>key subkey. config_exist m key subkey = (map_of (rev (config_entries kvs)) (key, subkey) \<noteq> None) \<and>
        config_get m key subkey = (case map_of (rev (config_entries kvs)) (key, subkey) of None \<Rightarrow> Inl OutOfRange | Some v \<Rightarrow> Inr v))"
proof -
  from config_file_lookup [OF assms] obtain content m where "print_object E indent kvs = Inr content"
    "\<forall>fuel \<ge> 2 * length content + 2. config_new fuel E content = Some (Inr m)" "config_lookup m = map_of (rev (config_entries kvs))" by blast
  then show ?thesis by (intro exI [of _ content] exI [of _ m]) (simp add: config_get_lookup)
qed

definition demo_config :: "((string \<times> bool) \<times> int json) list" where
  "demo_config = [((''server'', True), JsonObject [((''listen_port'', True), JsonInt 5555), ((''https'', True), JsonBoolean False)]),
     ((''mime'', True), JsonObject [((''types'', True), JsonArray [JsonString ''html'' True, JsonString ''css'' True])])]"

theorem config_file_read_back_witness:
  "exact_ints int_env \<and> json_plain (JsonObject demo_config) \<and> spaceless (JsonObject demo_config) \<and> config_shape demo_config \<and>
   (\<exists>content m. print_object int_env 4 demo_config = Inr content \<and>
     (\<forall>fuel \<ge> 2 * length content + 2. config_new fuel int_env content = Some (Inr m)) \<and>
     config_get m ''server'' ''listen_port'' = Inr (VInt 5555) \<and> config_get m ''mime'' ''types'' = Inr (VStrings [''html'', ''css'']) \<and>
     \<not> config_exist m ''server'' ''types'')"
proof -
  have h: "json_plain (JsonObject demo_config)" "spaceless (JsonObject demo_config)" "config_shape demo_config"
    by (simp_all add: demo_config_def int_range_def config_shape_def)
  have "config_entries demo_config = [((''server'', ''listen_port''), VInt 5555), ((''server'', ''https''), VBool False), ((''mime'', ''types''), VStrings [''html'', ''css''])]"
    by (simp add: demo_config_def config_entries_def section_entries_def)
  with h exact_ints_int_env config_file_read_back [of int_env demo_config 4] show ?thesis by fastforce
qed

end
