(* ===== verification/TcpServerRun.thy ===== *)
theory TcpServerRun
  imports TcpServer ServerSocket ServerSsl AppConfig
begin

text \<open>
  The life of a \<open>TcpServer\<close> (\<open>soc/net/src/TcpServer.cc\<close>): its constructor, the setters, \<open>setCertificate\<close>,
  \<open>start\<close> with its loop, \<open>quit\<close> and the destructor. The descriptors the kernel hands out in the constructor
  are in the configuration record of the server.
\<close>

section \<open>State\<close>

record ('c, 'a) tcp =
  tc_config :: "('c, 'a) config"
  tc_server :: "('c, 'a) server"
  tc_kernel :: kernel
  tc_evcount :: "64 word"                \<comment> \<open>the counter of the eventfd\<close>
  tc_ssl :: "ssl_ctx option"             \<comment> \<open>\<open>ssl_\<close>; \<open>None\<close>: \<open>nullptr\<close>\<close>
  tc_alarm :: "itimerspec option"        \<comment> \<open>what \<open>timerfd_settime\<close> was last asked for\<close>

definition TcpServer_new :: "ConfigMp \<Rightarrow> ('c, 'a) config \<Rightarrow> 'a \<Rightarrow> kernel \<Rightarrow> ('c, 'a) tcp res" where
  \<comment> \<open>the eventfd is created non-blocking and is no socket of the table\<close>
  "TcpServer_new m cfg app k =
     (let (fd, k) = createNBSocket (cf_listenfd cfg) k
      in res_map (\<lambda>sf.
           let k = enableReuseAddr True fd k; k = enableReusePort True fd k; k = setNonBlocking (cf_evfd cfg) k;
               p = addEvent (cf_evfd cfg) (EPOLLIN OR kConnectionEvent) Map.empty; p = addEvent (cf_timerfd cfg) EPOLLIN p
           in \<lparr>tc_config = cfg\<lparr>cf_sendfile := sf\<rparr>,
               tc_server = \<lparr>sr_net = \<lparr>nt_conns = \<lambda>_. TcpConnection_new 0, nt_poller = p, nt_app = app\<rparr>,
                            sr_timer = theap_new, sr_pool = pool_new, sr_quit = False, sr_batch = []\<rparr>,
               tc_kernel = k, tc_evcount = 0, tc_ssl = None, tc_alarm = None\<rparr>)
         (GET_CONFIG as_bool m ''server'' ''enable_sendfile''))"

definition tcp_setIdleTime :: "int \<Rightarrow> ('c, 'a) tcp \<Rightarrow> ('c, 'a) tcp" where
  "tcp_setIdleTime millsecond t = t\<lparr>tc_config := (tc_config t)\<lparr>cf_idle := millsecond\<rparr>\<rparr>"

definition setNewConnectionCallback :: "('c connection \<Rightarrow> 'a \<Rightarrow> 'c connection \<times> 'a) \<Rightarrow> ('c, 'a) tcp \<Rightarrow> ('c, 'a) tcp" where
  "setNewConnectionCallback cb t = t\<lparr>tc_config := (tc_config t)\<lparr>cf_new_conn := Some cb\<rparr>\<rparr>"

definition setMessageCallback :: "('c connection \<Rightarrow> 'a \<Rightarrow> (bool \<times> 'c connection \<times> 'a) run) \<Rightarrow> ('c, 'a) tcp \<Rightarrow> ('c, 'a) tcp" where
  "setMessageCallback cb t = t\<lparr>tc_config := (tc_config t)\<lparr>cf_msg := cb\<rparr>\<rparr>"

definition setClosedConnectionCallback :: "('c connection \<Rightarrow> 'a \<Rightarrow> 'c connection \<times> 'a) \<Rightarrow> ('c, 'a) tcp \<Rightarrow> ('c, 'a) tcp" where
  "setClosedConnectionCallback cb t = t\<lparr>tc_config := (tc_config t)\<lparr>cf_closed := Some cb\<rparr>\<rparr>"

definition getInetAddress :: "('c, 'a) tcp \<Rightarrow> sockaddr_in option" where
  "getInetAddress t = getSockName (cf_listenfd (tc_config t)) (tc_kernel t)"

definition tcp_setCertificate :: "openssl \<Rightarrow> string \<Rightarrow> string \<Rightarrow> string \<Rightarrow> ('c, 'a) tcp \<Rightarrow> ('c, 'a) tcp res" where
  "tcp_setCertificate ox cert_file privatekey_file password t =
     (if tc_ssl t \<noteq> None then Inr t
      else res_map (\<lambda>ctx. t\<lparr>tc_ssl := Some ctx\<rparr>) (ServerSsl_new ox cert_file privatekey_file password))"


section \<open>\<open>start\<close> and \<open>quit\<close>\<close>

record start_env =
  se_bind :: int                         \<comment> \<open>the results of \<open>bind\<close> and \<open>listen\<close>\<close>
  se_listen :: int
  se_clock :: timespec

definition start_open :: "start_env \<Rightarrow> sockaddr_in \<Rightarrow> ('c, 'a) tcp \<Rightarrow> ('c, 'a) tcp res" where
  \<comment> \<open>\<open>start\<close> up to its loop\<close>
  "start_open e address t =
     (let cfg = tc_config t; fd = cf_listenfd cfg
      in res_bind (socket_bind (se_bind e) address fd (tc_kernel t)) (\<lambda>k.
         res_bind (socket_listen (se_listen e) fd k) (\<lambda>k.
         let s = tc_server t; n = sr_net s; n = n\<lparr>nt_poller := addEvent fd (EPOLLIN OR kServerEvent) (nt_poller n)\<rparr>
         in res_map (\<lambda>period. t\<lparr>tc_kernel := k, tc_server := s\<lparr>sr_net := n\<rparr>, tc_alarm := Some (runEvery (se_clock e) period)\<rparr>)
              (of_millsecond (cf_idle cfg)))))"

text \<open>
  Between two calls of \<open>poll\<close> the workers run: they take tasks from the queue and finish them. A turn of the
  loop is what they do before the call, and what \<open>epoll_wait\<close> and the kernel answer during it.
\<close>

datatype work = Take | Finish task "(string option \<times> int) list" "(int \<times> int) list"

fun do_work :: "('c, 'a) config \<Rightarrow> work \<Rightarrow> ('c, 'a) server \<Rightarrow> ('c, 'a) server run" where
  "do_work cfg Take s = Some (Inr (case pool_take (sr_pool s) of None \<Rightarrow> s | Some p \<Rightarrow> s\<lparr>sr_pool := p\<rparr>))"
| "do_work cfg (Finish t rs ws) s =
     (if t \<in> set (tp_taken (sr_pool s))
      then run_bind (run_task cfg rs ws t (sr_net s)) (\<lambda>(out, n).
             Some (Inr (s\<lparr>sr_pool := (sr_pool s)\<lparr>tp_taken := remove1 t (tp_taken (sr_pool s))\<rparr>, sr_net := n\<rparr>)))
      else Some (Inr s))"

fun do_works :: "('c, 'a) config \<Rightarrow> work list \<Rightarrow> ('c, 'a) server \<Rightarrow> ('c, 'a) server run" where
  "do_works cfg [] s = Some (Inr s)"
| "do_works cfg (w # ws) s = run_bind (do_work cfg w s) (do_works cfg ws)"

type_synonym turn = "work list \<times> ((int \<times> events) list \<times> answer list) option"

definition loop_turn :: "('c, 'a) config \<Rightarrow> turn \<Rightarrow> ('c, 'a) server \<Rightarrow> ('c, 'a) server run" where
  "loop_turn cfg turn s = run_bind (do_works cfg (fst turn) s) (\<lambda>s. Some (res_map snd (poll cfg (snd turn) s)))"

fun loop_turns :: "('c, 'a) config \<Rightarrow> turn list \<Rightarrow> ('c, 'a) server \<Rightarrow> ('c, 'a) server run" where
  \<comment> \<open>the state after the given turns, or at the end of the loop\<close>
  "loop_turns cfg [] s = Some (Inr s)"
| "loop_turns cfg (turn # turns) s = (if sr_quit s then Some (Inr s) else run_bind (loop_turn cfg turn s) (loop_turns cfg turns))"

definition start_loop :: "('c, 'a) config \<Rightarrow> turn list \<Rightarrow> ('c, 'a) server \<Rightarrow> ('c, 'a) server run" where
  \<comment> \<open>\<open>None\<close>: the loop is still waiting after these turns\<close>
  "start_loop cfg turns s = run_bind (loop_turns cfg turns s) (\<lambda>s. if sr_quit s then Some (Inr s) else None)"

definition tcp_start :: "start_env \<Rightarrow> sockaddr_in \<Rightarrow> turn list \<Rightarrow> ('c, 'a) tcp \<Rightarrow> ('c, 'a) tcp run" where
  "tcp_start e address turns t =
     (case start_open e address t of Inl err \<Rightarrow> Some (Inl err)
      | Inr t \<Rightarrow> run_bind (start_loop (tc_config t) turns (tc_server t)) (\<lambda>s. Some (Inr (t\<lparr>tc_server := s\<rparr>))))"

definition wakeUp :: "('c, 'a) tcp \<Rightarrow> ('c, 'a) tcp" where
  \<comment> \<open>\<open>write\<close> of 1 to the eventfd; it fails, and the counter stays, at the largest value\<close>
  "wakeUp t = (if tc_evcount t = 0xfffffffffffffffe then t else t\<lparr>tc_evcount := tc_evcount t + 1\<rparr>)"

definition tcp_quit :: "('c, 'a) tcp \<Rightarrow> ('c, 'a) tcp" where
  "tcp_quit t = wakeUp t"

definition evfd_readable :: "('c, 'a) tcp \<Rightarrow> bool" where
  "evfd_readable t \<longleftrightarrow> tc_evcount t \<noteq> 0"

definition handleWakeup :: "('c, 'a) tcp \<Rightarrow> ('c, 'a) tcp" where
  \<comment> \<open>\<open>read\<close> resets the counter\<close>
  "handleWakeup t = t\<lparr>tc_evcount := 0, tc_server := (tc_server t)\<lparr>sr_quit := True\<rparr>\<rparr>"


section \<open>The destructor\<close>

definition removeAndCloseEvent :: "int \<Rightarrow> poller \<Rightarrow> sys_call list \<times> poller" where
  "removeAndCloseEvent fd p = ([CloseFd fd], removeEvent fd p)"

definition conn_delete :: "'c connection \<Rightarrow> sys_call list" where
  "conn_delete c = (case cn_channel c of None \<Rightarrow> [] | Some ch \<Rightarrow> channel_delete ch)"

definition TcpServer_delete :: "bool \<Rightarrow> int list \<Rightarrow> ('c, 'a) tcp \<Rightarrow> sys_call list \<times> poller" where
  \<comment> \<open>the first argument says whether there is a session timer, the second is the order in which \<open>conns_\<close> is
      traversed and destroyed; then the members are destroyed in the reverse order of their declaration. The
      destructors of the timers and of \<open>EPoller\<close> close nothing\<close>
  "TcpServer_delete session fds t =
     (let cfg = tc_config t; n = sr_net (tc_server t);
          (c1, p) = removeAndCloseEvent (cf_evfd cfg) (nt_poller n);
          (c2, p) = removeAndCloseEvent (cf_listenfd cfg) p;
          (c3, p) = removeAndCloseEvent (cf_timerfd cfg) p;
          (c4, p) = (if session then removeAndCloseEvent (cf_sessionfd cfg) p else ([], p));
          p = fold (\<lambda>fd p. if \<not> disconnected (nt_conns n fd) then removeEvent fd p else p) fds p
      in (c1 @ c2 @ c3 @ c4 @ concat (map (\<lambda>fd. conn_delete (nt_conns n fd)) fds) @ ServerSsl_delete (tc_ssl t) @
          [CloseFd (cf_listenfd cfg)], p))"


section \<open>Starting\<close>

text \<open>
  The server either ends with \<open>exit\<close> because the address cannot be bound, or an idle time whose number of
  microseconds is no \<open>int\<close> is undefined, or its loop begins in the state \<open>server_new\<close>.
\<close>

definition opened :: "('c, 'a) config \<Rightarrow> sockaddr_in \<Rightarrow> kernel \<Rightarrow> bool" where
  \<comment> \<open>the socket of the server listens at the address, does not block, and may reuse address and port\<close>
  "opened cfg address k \<longleftrightarrow>
     (\<exists>so. k (cf_listenfd cfg) = Some so \<and> so_listening so \<and> so_name so = address \<and> so_reuseaddr so \<and> so_reuseport so) \<and>
     nonblocking k (cf_listenfd cfg)"

lemma start_open_ok:
  assumes "TcpServer_new m cfg app k = Inr t"
    and "cf_listenfd cfg' = cf_listenfd cfg" and "cf_evfd cfg' = cf_evfd cfg" and "cf_timerfd cfg' = cf_timerfd cfg"
    and "int_range (cf_idle cfg' * 1000)" and "0 \<le> cf_listenfd cfg" and "0 \<le> se_bind e" and "0 \<le> se_listen e"
  shows "\<exists>t'. start_open e address (t\<lparr>tc_config := cfg', tc_ssl := ssl\<rparr>) = Inr t' \<and> tc_config t' = cfg' \<and>
     tc_server t' = server_new cfg' app \<and> opened cfg' address (tc_kernel t') \<and> getInetAddress t' = Some address \<and> tc_ssl t' = ssl"
  using assms
  by (auto simp: TcpServer_new_def createNBSocket_def start_open_def socket_bind_def socket_listen_def of_millsecond_def chk_int_def Let_def
      enableReuseAddr_def enableReusePort_def server_new_def getInetAddress_def getSockName_def nonblocking_def setNonBlocking_def
      opened_def res_simps)

lemma start_open_exit: "se_bind e < 0 \<or> se_listen e < 0 \<Longrightarrow> start_open e address t = Inl Exit"
  by (auto simp: start_open_def socket_bind_def socket_listen_def Let_def)


section \<open>When the loop ends\<close>

definition wake_event :: "('c, 'a) config \<Rightarrow> int \<times> events \<Rightarrow> bool" where
  "wake_event cfg = (\<lambda>(fd, revents). fd = cf_evfd cfg \<and> revents AND (EPOLLERR OR EPOLLRDHUP OR EPOLLHUP) = 0 \<and> revents AND EPOLLIN \<noteq> 0)"

definition wakes :: "('c, 'a) config \<Rightarrow> turn \<Rightarrow> bool" where
  "wakes cfg turn \<longleftrightarrow> (case snd turn of None \<Rightarrow> False | Some (evs, ans) \<Rightarrow> \<exists>e \<in> set evs. wake_event cfg e)"

definition turn_ok :: "('c, 'a) config \<Rightarrow> turn \<Rightarrow> ('c, 'a) server \<Rightarrow> bool" where
  \<comment> \<open>\<open>epoll_wait\<close> reports what it can, and the kernel and the clock behave during each event\<close>
  "turn_ok cfg turn s \<longleftrightarrow>
     (case (do_works cfg (fst turn) s, snd turn) of
        (Some (Inr s), Some (evs, ans)) \<Rightarrow> reportable evs s \<and> length evs \<le> length ans \<and> calm_run cfg ans (wait_events evs s)
      | _ \<Rightarrow> True)"

fun turns_ok :: "('c, 'a) config \<Rightarrow> turn list \<Rightarrow> ('c, 'a) server \<Rightarrow> bool" where
  "turns_ok cfg [] s \<longleftrightarrow> True"
| "turns_ok cfg (turn # turns) s \<longleftrightarrow> sr_quit s \<or>
     turn_ok cfg turn s \<and> (case loop_turn cfg turn s of Some (Inr s) \<Rightarrow> turns_ok cfg turns s | _ \<Rightarrow> True)"

lemma server_handleTimeout_keeps:
  "server_handleTimeout cfg now fd s = Inr s' \<Longrightarrow> sr_quit s' = sr_quit s \<and> sr_batch s' = sr_batch s"
  by (auto simp: server_handleTimeout_def res_simps split: if_splits)

lemma handleConnected_keeps:
  "handleConnected cfg now fd ch s = Inr s' \<Longrightarrow> sr_quit s' = sr_quit s \<and> sr_batch s' = sr_batch s"
  by (auto simp: handleConnected_def res_simps Let_def)

lemma dispatch_quit:
  assumes "dispatch cfg an fd revents s = Inr s'" and "cf_evfd cfg \<noteq> cf_listenfd cfg"
  shows "sr_quit s' = (sr_quit s \<or> wake_event cfg (fd, revents)) \<and> sr_batch s' = sr_batch s"
  using assms
  by (auto simp: dispatch_def handleRead_def handleServerAccept_def handleConnectionRead_def handleConnectionWrite_def wake_event_def
      Let_def res_simps split: if_splits dest!: server_handleTimeout_keeps handleConnected_keeps)

lemma poll_events_quit:
  assumes "poll_events cfg ans s = Inr s'" and "length (sr_batch s) \<le> length ans" and "cf_evfd cfg \<noteq> cf_listenfd cfg"
  shows "sr_quit s' = (sr_quit s \<or> (\<exists>e \<in> set (sr_batch s). wake_event cfg e)) \<and> sr_batch s' = []"
  using assms
proof (induction cfg ans s rule: poll_events.induct)
  case (2 cfg an ans s)
  show ?case
  proof (cases "sr_batch s")
    case (Cons e evs)
    obtain fd revents where e: "e = (fd, revents)" by (cases e)
    from "2.prems"(1) Cons e obtain s1 where s1: "dispatch cfg an fd revents (s\<lparr>sr_batch := evs\<rparr>) = Inr s1" "poll_events cfg ans s1 = Inr s'"
      by (auto simp: res_simps)
    note d = dispatch_quit [OF s1(1) "2.prems"(3)]
    from "2.IH" [OF Cons e [symmetric] s1 _ "2.prems"(3)] d "2.prems"(2) Cons e show ?thesis by simp
  qed (use 2 in simp)
qed simp

lemma do_work_keeps: "do_work cfg w s = Some (Inr s') \<Longrightarrow> sr_quit s' = sr_quit s \<and> sr_batch s' = sr_batch s"
  by (cases w) (auto simp: res_simps split: option.splits if_splits)

lemma do_works_keeps: "do_works cfg ws s = Some (Inr s') \<Longrightarrow> sr_quit s' = sr_quit s \<and> sr_batch s' = sr_batch s"
  by (induction ws arbitrary: s) (auto simp: res_simps dest!: do_work_keeps)

lemma loop_turn_quit:
  assumes "loop_turn cfg turn s = Some (Inr s')" and "turn_ok cfg turn s" and "cf_evfd cfg \<noteq> cf_listenfd cfg" and "sr_batch s = []"
  shows "sr_quit s' = (sr_quit s \<or> wakes cfg turn)" "sr_batch s' = []"
proof -
  obtain ws r where t: "turn = (ws, r)" by (cases turn)
  from assms(1) t obtain s1 b where s1: "do_works cfg ws s = Some (Inr s1)" "poll cfg r s1 = Inr (b, s')"
    by (auto simp: loop_turn_def res_simps)
  note k = do_works_keeps [OF s1(1)]
  have "sr_quit s' = (sr_quit s \<or> wakes cfg turn) \<and> sr_batch s' = []"
  proof (cases r)
    case (Some x)
    obtain evs ans where x: "x = (evs, ans)" by (cases x)
    have "length evs \<le> length ans" using assms(2) t s1 Some x by (simp add: turn_ok_def)
    then show ?thesis using poll_events_quit [of cfg ans "wait_events evs s1" s'] s1(2) k Some x t assms(3)
      by (auto simp: poll_def wakes_def wait_events_def res_simps)
  qed (use s1 k t assms(4) in \<open>simp add: poll_def wakes_def\<close>)
  then show "sr_quit s' = (sr_quit s \<or> wakes cfg turn)" "sr_batch s' = []" by simp_all
qed

lemma loop_turns_quit:
  assumes "loop_turns cfg turns s = Some (Inr s')" and "turns_ok cfg turns s" and "cf_evfd cfg \<noteq> cf_listenfd cfg" and "sr_batch s = []"
    and "\<not> sr_quit s"
  shows "(sr_quit s' \<longleftrightarrow> (\<exists>turn \<in> set turns. wakes cfg turn)) \<and> sr_batch s' = []"
  using assms
proof (induction turns arbitrary: s)
  case (Cons turn turns)
  then obtain s1 where s1: "loop_turn cfg turn s = Some (Inr s1)" "loop_turns cfg turns s1 = Some (Inr s')" by (auto simp: res_simps)
  with Cons.prems have ok: "turn_ok cfg turn s" "turns_ok cfg turns s1" by auto
  note q = loop_turn_quit [OF s1(1) ok(1) Cons.prems(3,4)]
  show ?case
  proof (cases "sr_quit s1")
    case True
    then have "s' = s1" using s1(2) by (cases turns) auto
    then show ?thesis using True q Cons.prems(5) by simp
  next
    case False
    then show ?thesis using Cons.IH [OF s1(2) ok(2) Cons.prems(3) q(2) False] q(1) by simp
  qed
qed simp

lemma do_works_reachable: "do_works cfg ws s = Some (Inr s') \<Longrightarrow> reachable cfg app s \<Longrightarrow> reachable cfg app s'"
proof (induction ws arbitrary: s)
  case (Cons w ws)
  then obtain s1 where s1: "do_work cfg w s = Some (Inr s1)" "do_works cfg ws s1 = Some (Inr s')" by (auto simp: res_simps)
  have "reachable cfg app s1"
  proof (cases w)
    case Take
    then show ?thesis using s1(1) Cons.prems(2) by (cases "pool_take (sr_pool s)") (auto intro: reachable_step step_take)
  next
    case (Finish t rs os)
    then show ?thesis using s1(1) Cons.prems(2) by (auto simp: res_simps intro: reachable_step step_task split: if_splits)
  qed
  then show ?case by (rule Cons.IH [OF s1(2)])
qed simp

lemma loop_turn_reachable:
  assumes "loop_turn cfg turn s = Some (Inr s')" and "turn_ok cfg turn s" and "reachable cfg app s" and "\<not> sr_quit s" and "sr_batch s = []"
  shows "reachable cfg app s'"
proof -
  obtain ws r where t: "turn = (ws, r)" by (cases turn)
  from assms(1) t obtain s1 b where s1: "do_works cfg ws s = Some (Inr s1)" "poll cfg r s1 = Inr (b, s')"
    by (auto simp: loop_turn_def res_simps)
  have reach: "reachable cfg app s1" "\<not> sr_quit s1" "sr_batch s1 = []"
    using do_works_reachable [OF s1(1) assms(3)] do_works_keeps [OF s1(1)] assms(4,5) by simp_all
  show ?thesis
  proof (cases r)
    case (Some x)
    obtain evs ans where x: "x = (evs, ans)" by (cases x)
    show ?thesis using assms(2) t s1 Some x by (intro poll_reachable [OF reach, of evs ans b]) (simp_all add: turn_ok_def)
  qed (use s1(2) reach(1) in \<open>simp add: poll_def\<close>)
qed

lemma loop_turns_reachable:
  assumes "loop_turns cfg turns s = Some (Inr s')" and "turns_ok cfg turns s" and "reachable cfg app s" and "sr_batch s = []"
    and "cf_evfd cfg \<noteq> cf_listenfd cfg"
  shows "reachable cfg app s'"
  using assms
proof (induction turns arbitrary: s)
  case (Cons turn turns)
  show ?case
  proof (cases "sr_quit s")
    case False
    with Cons.prems obtain s1 where s1: "loop_turn cfg turn s = Some (Inr s1)" "loop_turns cfg turns s1 = Some (Inr s')"
      by (auto simp: res_simps)
    with Cons.prems False have ok: "turn_ok cfg turn s" "turns_ok cfg turns s1" by auto
    show ?thesis using Cons.IH [OF s1(2) ok(2) loop_turn_reachable [OF s1(1) ok(1) Cons.prems(3) False Cons.prems(4)]]
        loop_turn_quit(2) [OF s1(1) ok(1) Cons.prems(5,4)] Cons.prems(5) by simp
  qed (use Cons in simp)
qed simp


context tcp_callbacks
begin

lemma poll_events_ok:
  assumes "server_inv cfg s" and "calm_run cfg ans s" and "cf_sessionfd cfg \<notin> fst ` set (sr_batch s)" and "cf_evfd cfg \<noteq> cf_listenfd cfg"
  shows "\<exists>s'. poll_events cfg ans s = Inr s'"
  using assms
proof (induction ans arbitrary: s)
  case (Cons an ans)
  show ?case
  proof (cases "sr_batch s")
    case (Cons e evs)
    obtain fd revents where e: "e = (fd, revents)" by (cases e)
    with Cons.prems Cons have c: "calm cfg an fd (s\<lparr>sr_batch := evs\<rparr>)" "fd \<noteq> cf_sessionfd cfg" by auto
    from dispatch_inv [OF Cons.prems(1) _ c(1)] Cons e c(2) obtain s1 where
      s1: "dispatch cfg an fd revents (s\<lparr>sr_batch := evs\<rparr>) = Inr s1" "server_inv cfg s1" by blast
    have "sr_batch s1 = evs" using dispatch_quit [OF s1(1) Cons.prems(4)] by simp
    then have "\<exists>s'. poll_events cfg ans s1 = Inr s'" using Cons.IH [OF s1(2)] Cons.prems Cons e s1(1) by auto
    then show ?thesis using Cons e s1(1) by simp
  qed simp
qed simp

text \<open>A turn in which the eventfd is reported is the last one, and it does not fail.\<close>

lemma woken_turn:
  assumes "reachable cfg app s" and "\<not> sr_quit s" and "sr_batch s = []" and "turn_ok cfg (ws, Some (evs, ans)) s"
    and "do_works cfg ws s = Some (Inr s1)" and "wakes cfg (ws, Some (evs, ans))" and "cf_sessionfd cfg \<notin> fst ` set evs"
    and "cf_evfd cfg \<noteq> cf_listenfd cfg"
  shows "\<exists>s'. loop_turn cfg (ws, Some (evs, ans)) s = Some (Inr s') \<and> sr_quit s' \<and> sr_batch s' = [] \<and> reachable cfg app s'"
proof -
  note k = do_works_keeps [OF assms(5)]
  have ok: "reportable evs s1" "calm_run cfg ans (wait_events evs s1)" using assms(4,5) by (simp_all add: turn_ok_def)
  have "server_inv cfg (wait_events evs s1)"
    using wait_inv [OF reachable_inv [OF do_works_reachable [OF assms(5,1)]] _ ok(1)] k assms(3) by simp
  then obtain s2 where "poll_events cfg ans (wait_events evs s1) = Inr s2"
    using poll_events_ok ok(2) assms(7,8) by (fastforce simp: wait_events_def)
  then have l: "loop_turn cfg (ws, Some (evs, ans)) s = Some (Inr s2)" using assms(5) by (simp add: loop_turn_def poll_def)
  from loop_turn_quit [OF l assms(4,8,3)] loop_turn_reachable [OF l assms(4,1-3)] l assms(6) show ?thesis by blast
qed

lemma loop_turns_woken:
  assumes "loop_turns cfg pre s = Some (Inr s1)" and "\<not> sr_quit s1" and "loop_turn cfg turn s1 = Some (Inr s')" and "sr_quit s'"
  shows "loop_turns cfg (pre @ turn # rest) s = Some (Inr s')"
  using assms
proof (induction pre arbitrary: s)
  case Nil
  then show ?case by (cases rest) auto
qed (auto simp: res_simps)

lemma turns_ok_append:
  assumes "loop_turns cfg pre s = Some (Inr s1)" and "\<not> sr_quit s1"
  shows "turns_ok cfg (pre @ turns) s \<longleftrightarrow> turns_ok cfg pre s \<and> turns_ok cfg turns s1"
  using assms by (induction pre arbitrary: s) (auto simp: res_simps split: if_splits)

lemma start_loop_woken:
  assumes "cf_evfd cfg \<noteq> cf_listenfd cfg" and "loop_turns cfg pre (server_new cfg app) = Some (Inr s)"
    and "turns_ok cfg (pre @ [(ws, Some (evs, ans))]) (server_new cfg app)" and "\<forall>turn \<in> set pre. \<not> wakes cfg turn"
    and "do_works cfg ws s = Some (Inr s1)" and "\<exists>e \<in> set evs. wake_event cfg e" and "cf_sessionfd cfg \<notin> fst ` set evs"
  shows "start_loop cfg pre (server_new cfg app) = None \<and>
    (\<exists>s'. (\<forall>rest. start_loop cfg (pre @ (ws, Some (evs, ans)) # rest) (server_new cfg app) = Some (Inr s')) \<and>
       sr_batch s' = [] \<and> reachable cfg app s')"
proof -
  have new: "sr_batch (server_new cfg app) = []" "\<not> sr_quit (server_new cfg app)" by (simp_all add: server_new_def)
  have oks: "turns_ok cfg pre (server_new cfg app)"
  proof -
    have "turns_ok cfg (xs @ ys) x \<Longrightarrow> turns_ok cfg xs x" for xs ys x
      by (induction xs arbitrary: x) (auto split: option.splits sum.splits)
    then show ?thesis using assms(3) .
  qed
  have q: "\<not> sr_quit s" "sr_batch s = []" using loop_turns_quit [OF assms(2) oks assms(1) new] assms(4) by auto
  have r: "reachable cfg app s" using loop_turns_reachable [OF assms(2) oks reachable_start new(1) assms(1)] .
  have "turn_ok cfg (ws, Some (evs, ans)) s" using turns_ok_append [OF assms(2) q(1)] assms(3) q(1) by simp
  from woken_turn [OF r q this assms(5) _ assms(7,1)] assms(6) obtain s' where
    s': "loop_turn cfg (ws, Some (evs, ans)) s = Some (Inr s')" "sr_quit s'" "sr_batch s' = []" "reachable cfg app s'"
    by (auto simp: wakes_def)
  from loop_turns_woken [OF assms(2) q(1) s'(1,2)] s' q(1) assms(2) show ?thesis by (simp add: start_loop_def)
qed

end


section \<open>What is given back\<close>

text \<open>
  The destructor closes the listening socket, and the destructor of \<open>ServerSocket\<close> closes the same descriptor
  again, when another thread may have been given its number.
\<close>

lemma listener_closed_twice:
  "2 \<le> count_list (fst (TcpServer_delete session fds t)) (CloseFd (cf_listenfd (tc_config t)))"
  by (simp add: TcpServer_delete_def removeAndCloseEvent_def Let_def split_beta)

text \<open>
  A connection that is closed while a file is left to \<open>sendfile\<close> closes its socket, but not the file: the
  descriptor is lost. A response that was sent completely resets the channel before, which closes the file.
\<close>

lemma close_loses_file:
  assumes "cn_channel conn = Some ch" and "sfile_obj ch = Some f" and "sf_infd f \<noteq> ch_fd ch"
  shows "CloseFd (sf_infd f) \<notin> set (conn_delete conn)" "CloseFd (sf_infd f) \<in> set (reset_release ch)"
  using assms channel_delete_keeps_body [of ch] by (auto simp: conn_delete_def reset_releases_file)

lemma conn_closed_once:
  assumes "cn_channel conn = Some (Channel_new ty fd sf)"
  shows "count_list (conn_delete conn) (CloseFd fd) = 1"
  using assms by (cases ty) (simp_all add: conn_delete_def channel_delete_new)


section \<open>Accepting a connection\<close>

fun run_call :: "sys_call \<Rightarrow> kernel \<Rightarrow> kernel" where
  "run_call (CloseFd fd) k = close_fd fd k"
| "run_call _ k = k"

definition tcp_connected :: "timestamp \<Rightarrow> int \<Rightarrow> channel \<Rightarrow> ('c, 'a) tcp \<Rightarrow> ('c, 'a) tcp res" where
  \<comment> \<open>\<open>handleConnected\<close>, which first makes the socket non-blocking\<close>
  "tcp_connected now fd ch t =
     (let t = t\<lparr>tc_kernel := setNonBlocking fd (tc_kernel t)\<rparr>
      in res_map (\<lambda>s. t\<lparr>tc_server := s\<rparr>) (handleConnected (tc_config t) now fd ch (tc_server t)))"

definition tcp_accept :: "answer \<Rightarrow> sockaddr_in \<Rightarrow> ('c, 'a) tcp \<Rightarrow> ('c, 'a) tcp res" where
  \<comment> \<open>\<open>handleServerAccept\<close> with the sockets and the TLS context; deleting the channel closes the socket\<close>
  "tcp_accept an peer t =
     (let cfg = tc_config t; ((fd, _), k) = socket_accept (an_accept an) peer (cf_listenfd cfg) (tc_kernel t); t = t\<lparr>tc_kernel := k\<rparr>
      in if fd \<le> 0 then Inr t
         else if cf_https cfg then
           (if tc_ssl t = None then Inl NullPointer
            else let ch = createSslChannel fd
                 in res_bind (ssl_accept (an_ssl an) ch) (\<lambda>ret.
                      if ret < 1 then Inr (t\<lparr>tc_kernel := fold run_call (channel_delete ch) (tc_kernel t)\<rparr>)
                      else tcp_connected (an_now an) fd ch t))
         else tcp_connected (an_now an) fd (Channel_new Raw fd (cf_sendfile cfg)) t)"

text \<open>
  C8. Accepting a connection does on the sockets what \<open>handleServerAccept\<close> needs: the server's state changes as
  described there, an accepted connection is a non-blocking socket of its peer, a connection whose TLS
  handshake fails is closed again, and no other descriptor changes. With HTTPS the certificate must have been
  set.
\<close>

theorem accept_refines:
  assumes "tc_kernel t (cf_listenfd (tc_config t)) = Some so" and "cf_https (tc_config t) \<longrightarrow> tc_ssl t \<noteq> None"
  shows "res_map tc_server (tcp_accept an peer t) = handleServerAccept (tc_config t) an (tc_server t) \<and>
     (\<forall>t'. tcp_accept an peer t = Inr t' \<longrightarrow>
        (\<forall>fd. fd \<noteq> an_accept an \<longrightarrow> tc_kernel t' fd = tc_kernel t fd) \<and>
        (0 < an_accept an \<longrightarrow>
           (if cf_https (tc_config t) \<and> an_ssl an < 1 then tc_kernel t' (an_accept an) = None
            else nonblocking (tc_kernel t') (an_accept an) \<and> getPeerName (an_accept an) (tc_kernel t') = Some peer)))"
proof -
  let ?fd = "an_accept an" and ?cfg = "tc_config t"
  define k where "k = snd (socket_accept ?fd peer (cf_listenfd ?cfg) (tc_kernel t))"
  have acc: "socket_accept ?fd peer (cf_listenfd ?cfg) (tc_kernel t) = ((?fd, if ?fd < 0 then None else Some peer), k)"
    using assms(1) by (auto simp: socket_accept_def k_def)
  have other: "k fd = tc_kernel t fd" if "fd \<noteq> ?fd" for fd using that assms(1) by (simp add: socket_accept_def k_def)
  have new: "nonblocking (setNonBlocking ?fd k) ?fd" "getPeerName ?fd (setNonBlocking ?fd k) = Some peer" if "0 < ?fd"
  proof -
    have "k ?fd \<noteq> None" "getPeerName ?fd k = Some peer" using that assms(1) by (simp_all add: socket_accept_def k_def getPeerName_def)
    then show "nonblocking (setNonBlocking ?fd k) ?fd" "getPeerName ?fd (setNonBlocking ?fd k) = Some peer"
      by (auto simp: setNonBlocking_nonblocking, auto simp: getPeerName_def setNonBlocking_def Let_def split: option.splits)
  qed
  have keep: "setNonBlocking ?fd k fd = tc_kernel t fd" if "fd \<noteq> ?fd" for fd using other [OF that] that by (simp add: setNonBlocking_def)
  show ?thesis
  proof (cases "?fd \<le> 0")
    case True
    then show ?thesis using acc other by (simp add: tcp_accept_def handleServerAccept_def)
  next
    case False
    note defs = tcp_accept_def handleServerAccept_def tcp_connected_def createSslChannel_ready
    show ?thesis
    proof (cases "cf_https ?cfg \<and> an_ssl an < 1")
      case True
      then show ?thesis using False acc other assms(2) by (auto simp: defs Let_def close_fd_def)
    next
      case ok: False
      then have a: "tcp_accept an peer t = res_map (\<lambda>s. t\<lparr>tc_kernel := setNonBlocking ?fd k, tc_server := s\<rparr>)
          (handleServerAccept ?cfg an (tc_server t))"
        using False acc assms(2) by (auto simp: defs Let_def) (auto simp: createSslChannel_def)
      show ?thesis unfolding a using ok False keep new
        by (cases "handleServerAccept ?cfg an (tc_server t)") auto
    qed
  qed
qed

definition plain_tcp :: "(unit, unit) tcp" where
  "plain_tcp = \<lparr>tc_config = plain_config, tc_server = server_new plain_config (),
     tc_kernel = snd (createNBSocket (cf_listenfd plain_config) Map.empty), tc_evcount = 0, tc_ssl = None, tc_alarm = None\<rparr>"

definition plain_answer :: answer where
  "plain_answer = \<lparr>an_now = TimeStamp 5, an_accept = 9, an_ssl = 0\<rparr>"

lemma plain_accepts: "\<exists>s. handleServerAccept plain_config plain_answer (server_new plain_config ()) = Inr s"
proof -
  have ts: "nowMsecond (TimeStamp 5) 1000 = Inr (TimeStamp 1000005)"
    by (simp add: nowMsecond_def of_millsecond_def chk_int_def int_range_def ts_plus_def)
  from push_ok [OF theap_inv_new, of "\<lparr>tm_fd = 9, tm_ts = TimeStamp 1000005, tm_cb = Some (9 :: int)\<rparr>"] obtain h :: "int theap" where
    "push theap_new \<lparr>tm_fd = 9, tm_ts = TimeStamp 1000005, tm_cb = Some 9\<rparr> = Inr h" by (auto simp: th_room_def theap_new_def)
  then show ?thesis
    by (simp add: handleServerAccept_def handleConnected_def plain_answer_def plain_config_def ts server_new_def tq_add_def Let_def)
qed

theorem accept_refines_witness:
  "\<exists>t'. tcp_accept plain_answer (InetAddress_any 80) plain_tcp = Inr t' \<and>
     handleServerAccept (tc_config plain_tcp) plain_answer (tc_server plain_tcp) = Inr (tc_server t') \<and>
     tc_kernel t' 4 = tc_kernel plain_tcp 4 \<and> nonblocking (tc_kernel t') 9 \<and> getPeerName 9 (tc_kernel t') = Some (InetAddress_any 80)"
proof -
  have "\<not> cf_https plain_config" "0 \<le> cf_listenfd plain_config" by (simp_all add: plain_config_def)
  then obtain so where "tc_kernel plain_tcp (cf_listenfd (tc_config plain_tcp)) = Some so" "\<not> cf_https (tc_config plain_tcp)"
    by (simp add: plain_tcp_def createNBSocket_def)
  note r = accept_refines [of plain_tcp so plain_answer "InetAddress_any 80", OF this(1)] this(2)
  obtain s where "handleServerAccept (tc_config plain_tcp) plain_answer (tc_server plain_tcp) = Inr s"
    using plain_accepts by (auto simp: plain_tcp_def)
  with r obtain t' where "tcp_accept plain_answer (InetAddress_any 80) plain_tcp = Inr t'" by (auto simp: res_map_eq_Inr)
  with r show ?thesis by (auto simp: plain_answer_def)
qed

end
