(* ===== verification/HttpServer.thy ===== *)
theory HttpServer
  imports HttpResponse HttpSession FastCgi TcpServerRun
begin

text \<open>
  \<open>soc/http/src/HttpService.cc\<close> and \<open>soc/http/src/HttpServer.cc\<close>: the services of an
  application, and the dispatch of a parsed request to a service, to a regular expression, to a mounted
  directory or to PHP. A service is application code: a function on the response under construction and
  on the sessions. Regular expressions, the file tests and the connection to PHP-FPM are arguments; so
  is the order in which the unordered maps of services and directories are traversed.
\<close>

section \<open>Services\<close>

record 'v svc =
  sv_resp :: builder
  sv_store :: "'v store"
  sv_session :: "'v session option"      \<comment> \<open>\<open>req.session_\<close>\<close>
  sv_match :: "string list"              \<comment> \<open>\<open>req.match_\<close>\<close>
  sv_php_message :: string               \<comment> \<open>\<open>req.php_message_\<close>\<close>

definition getSession :: "string \<Rightarrow> int \<Rightarrow> timestamp \<Rightarrow> request \<Rightarrow> 'v svc \<Rightarrow> 'v svc res" where
  \<comment> \<open>\<open>HttpRequest::getSession\<close>, which a service calls; the session it returns is \<open>sv_session\<close>\<close>
  "getSession rnd lifetime now req sv =
     res_map (\<lambda>(s, st). sv\<lparr>sv_session := Some s, sv_store := st\<rparr>) (associateSession rnd lifetime now (rq_cookies req) (sv_store sv))"

type_synonym 'v handler = "request \<Rightarrow> 'v svc \<Rightarrow> 'v svc res"

record 'v service =
  do_head :: "'v handler option"         \<comment> \<open>\<open>None\<close>: not overridden\<close>
  do_get :: "'v handler option"
  do_post :: "'v handler option"

definition not_allowed :: "'v handler" where
  "not_allowed req sv = Inr (sv\<lparr>sv_resp := setCode 405 (sv_resp sv)\<rparr>)"

definition doGet :: "'v service \<Rightarrow> 'v handler" where
  "doGet s = (case do_get s of Some f \<Rightarrow> f | None \<Rightarrow> not_allowed)"

definition doPost :: "'v service \<Rightarrow> 'v handler" where
  "doPost s = (case do_post s of Some f \<Rightarrow> f | None \<Rightarrow> not_allowed)"

definition doHead :: "'v service \<Rightarrow> 'v handler" where
  "doHead s = (case do_head s of Some f \<Rightarrow> f | None \<Rightarrow> doGet s)"

definition service_run :: "'v service \<Rightarrow> 'v handler" where
  "service_run s req sv =
     (case rq_method req of
        Some HEAD \<Rightarrow> doHead s req sv | Some GET \<Rightarrow> doGet s req sv | Some POST \<Rightarrow> doPost s req sv | None \<Rightarrow> Inr sv)"

definition service0 :: "'v service \<Rightarrow> string list \<Rightarrow> 'v handler" where
  "service0 s m req sv = service_run s req (sv\<lparr>sv_match := m\<rparr>)"

type_synonym 'v error_handler = "int \<Rightarrow> request \<Rightarrow> 'v svc \<Rightarrow> (bool \<times> 'v svc) res"

definition baseErrorPage :: "int \<Rightarrow> string res" where
  "baseErrorPage code =
     res_map (\<lambda>phrase. let t = int_decimal code @ '' '' @ phrase
        in ''<html><head><title>'' @ t @ ''</title></head><body><center><h1>'' @ t @
           ''</h1></center><hr><center>socnet</center></body></html>'')
       (status_at code)"

definition error_service :: "'v error_handler \<Rightarrow> 'v handler" where
  "error_service doError req sv =
     (let code = rb_code (sv_resp sv)
      in res_bind (doError code req sv) (\<lambda>(handled, sv).
           if handled then Inr sv
           else res_bind (baseErrorPage code) (\<lambda>page.
                res_map (\<lambda>b. sv\<lparr>sv_resp := b\<rparr>) (setBody page (setHeader ''Content-Type'' ''text/html'' (sv_resp sv))))))"

definition DefaultErrorService :: "'v error_handler" where
  "DefaultErrorService code req sv = Inr (False, sv)"

datatype 'v base_service = Service "'v service" | ErrorService "'v error_handler"

fun run_base :: "'v base_service \<Rightarrow> 'v handler" where
  "run_base (Service s) = service_run s"
| "run_base (ErrorService e) = error_service e"


section \<open>The server\<close>

record 'v http_server =
  hs_pages :: "string list"
  hs_mount :: "(string, string) httpmap"
  hs_services :: "(string, 'v base_service) httpmap"
  hs_urlp :: "(string, 'v service) httpmap"

record 's http_io = io_env +
  hx_exist :: "string \<Rightarrow> bool"
  hx_regex :: "string \<Rightarrow> string \<Rightarrow> string list option"  \<comment> \<open>\<open>regex_search\<close>: the groups of a match\<close>
  hx_enable_php :: bool
  hx_connected :: bool                                      \<comment> \<open>\<open>connectPhpFpm\<close>\<close>
  hx_read :: "'s reader"
  hx_sock :: 's
  hx_stale :: string                                        \<comment> \<open>the uninitialised \<open>responderHeader\<close>\<close>
  hx_writes :: "int list"                                   \<comment> \<open>results of \<open>write\<close> in \<open>sendPost\<close>\<close>
  hx_fuel :: nat

definition hs_new :: "string list \<Rightarrow> 'v http_server" where
  \<comment> \<open>\<open>initialize\<close>: the default pages come from the configuration\<close>
  "hs_new pages = \<lparr>hs_pages = pages, hs_mount = hm_new, hs_services = hm_add hm_new ''#'' (ErrorService DefaultErrorService), hs_urlp = hm_new\<rparr>"

definition setErrorService :: "'v error_handler \<Rightarrow> 'v http_server \<Rightarrow> 'v http_server" where
  "setErrorService e s = s\<lparr>hs_services := hm_add (hs_services s) ''#'' (ErrorService e)\<rparr>"

definition addService :: "string \<Rightarrow> 'v service \<Rightarrow> 'v http_server \<Rightarrow> 'v http_server" where
  "addService url x s = s\<lparr>hs_services := hm_add (hs_services s) url (Service x)\<rparr>"

definition addUrlPatternService :: "string \<Rightarrow> 'v service \<Rightarrow> 'v http_server \<Rightarrow> 'v http_server" where
  "addUrlPatternService p x s = s\<lparr>hs_urlp := hm_add (hs_urlp s) p x\<rparr>"

definition removeService :: "string \<Rightarrow> 'v http_server \<Rightarrow> 'v http_server" where
  "removeService url s = s\<lparr>hs_services := hm_remove (hs_services s) url\<rparr>"

definition removeUrlPatternService :: "string \<Rightarrow> 'v http_server \<Rightarrow> 'v http_server" where
  "removeUrlPatternService p s = s\<lparr>hs_urlp := hm_remove (hs_urlp s) p\<rparr>"

definition addMountDir :: "(string \<Rightarrow> string) \<Rightarrow> string \<Rightarrow> string \<Rightarrow> 'v http_server \<Rightarrow> 'v http_server res" where
  \<comment> \<open>the first argument is \<open>std::filesystem::canonical\<close>\<close>
  "addMountDir canonical url dir s =
     (if url = [] then Inl OutOfBounds
      else Inr (s\<lparr>hs_mount := hm_add (hs_mount s) (if last url \<noteq> CHR ''/'' then url @ ''/'' else url) (canonical dir @ ''/'')\<rparr>))"

definition getErrorService :: "'v http_server \<Rightarrow> 'v base_service res" where
  "getErrorService s = opt_value (hm_get (hs_services s) ''#'')"


section \<open>Files\<close>

fun getIndexPageFileName :: "(string \<Rightarrow> bool) \<Rightarrow> string list \<Rightarrow> string \<Rightarrow> string option" where
  \<comment> \<open>the new value of \<open>dir\<close> when a page is found\<close>
  "getIndexPageFileName exist [] dir = None"
| "getIndexPageFileName exist (page # pages) dir =
     (if exist (dir @ page) then Some (dir @ page) else getIndexPageFileName exist pages dir)"



section \<open>PHP\<close>

definition php_auth :: "auth option \<Rightarrow> (fcgi_param \<times> string) list" where
  "php_auth a =
     (case a of None \<Rightarrow> []
      | Some (BasicAuth user pass _) \<Rightarrow> [(PHP_AUTH_USER, user), (PHP_AUTH_PW, pass)]
      | Some (DigestAuth info _) \<Rightarrow> [(PHP_AUTH_DIGEST, info)])"

definition php_content :: "request \<Rightarrow> (fcgi_param \<times> string) list" where
  "php_content req =
     (case hd_get (rq_header req) ''Content-Type'' of
        Some type \<Rightarrow> [(CONTENT_TYPE, type), (CONTENT_LENGTH, decimal (length (rq_post_data req)))]
      | None \<Rightarrow> [])"

definition php_params :: "string \<Rightarrow> request \<Rightarrow> (fcgi_param \<times> string) list" where
  \<comment> \<open>the parameters in the order of the calls of \<open>sendParams\<close>\<close>
  "php_params path req =
     [(SCRIPT_FILENAME, path)] @ php_auth (rq_auth req) @
     (if rq_query req \<noteq> hm_new then [(QUERY_STRING, rq_query_s req)] else []) @
     (case rq_method req of
        Some HEAD \<Rightarrow> [(REQUEST_METHOD, ''HEAD'')]
      | Some GET \<Rightarrow> [(REQUEST_METHOD, ''GET'')]
      | Some POST \<Rightarrow> (REQUEST_METHOD, ''POST'') # php_content req
      | None \<Rightarrow> [])"

fun send_all_params :: "(fcgi_param \<times> string) list \<Rightarrow> string res" where
  "send_all_params [] = Inr []"
| "send_all_params ((p, v) # ps) =
     res_bind (sendParams 1 p v) (\<lambda>r. res_map (\<lambda>rs. r @ rs) (send_all_params ps))"

definition php_request :: "int list \<Rightarrow> string \<Rightarrow> request \<Rightarrow> string run" where
  \<comment> \<open>the bytes written to PHP-FPM\<close>
  "php_request writes path req =
     run_bind (Some (send_all_params (php_params path req))) (\<lambda>ps.
       let start = sendStartRequestRecord 1 @ ps @ (if rq_method req = None then [] else sendEndRequestRecord 1)
       in if rq_method req = Some POST
          then run_bind (sendPost writes 1 (rq_post_data req)) (\<lambda>post. Some (Inr (start @ post)))
          else Some (Inr start))"

fun digits :: "string \<Rightarrow> int \<Rightarrow> int" where
  "digits (c # s) n = (if isdigit c then digits s (n * 10 + (of_char c - 48)) else n)"
| "digits [] n = n"

definition atoi :: "string \<Rightarrow> int res" where
  \<comment> \<open>leading white space, an optional sign, digits; a value that does not fit is undefined\<close>
  "atoi s =
     (let t = dropWhile (\<lambda>c. of_char c = (32 :: nat) \<or> of_char c \<in> {9..13 :: nat}) (c_str s)
      in chk_int (case t of c # t' \<Rightarrow> if c = CHR ''-'' then - digits t' 0 else if c = CHR ''+'' then digits t' 0 else digits t 0
                  | [] \<Rightarrow> 0))"

definition php_status :: "header \<Rightarrow> builder \<Rightarrow> builder res" where
  "php_status header b =
     (case hd_get header ''Status'' of
        None \<Rightarrow> Inr b
      | Some status \<Rightarrow>
          res_bind (sv_substr status 0 (sv_find_first_of status (CHR '' ''))) (\<lambda>codesv.
            res_map (\<lambda>code. setCode code b) (atoi codesv)))"

definition php_response :: "bool \<Rightarrow> sview \<Rightarrow> builder \<Rightarrow> builder res" where
  "php_response ok out b =
     res_bind (hd_parse [] out 0) (\<lambda>(header, index).
     res_bind (php_status header (setHeaders header b)) (\<lambda>b.
       if \<not> ok \<and> rb_code b \<noteq> 200 then Inr b
       else res_bind (sv_remove_prefix out (to_size index)) (\<lambda>body. setBody body b)))"

definition dispatchPhpProcessor :: "('s, 'z) http_io_scheme \<Rightarrow> string \<Rightarrow> request \<Rightarrow> 'v svc \<Rightarrow> 'v svc run" where
  "dispatchPhpProcessor io path req sv =
     (if \<not> hx_connected io then Some (Inr (sv\<lparr>sv_resp := setCode 500 (sv_resp sv)\<rparr>))
      else run_bind (php_request (hx_writes io) path req) (\<lambda>sent.
           run_bind (readPhpFpm (hx_fuel io) (hx_read io) (hx_stale io) (Buffer_new 4096) (hx_sock io) True ''OK'') (\<lambda>(ok, message, buffer, sock).
             Some (res_map (\<lambda>b. sv\<lparr>sv_resp := b, sv_php_message := message\<rparr>) (php_response ok (buf_view buffer) (sv_resp sv))))))"


section \<open>Dispatch\<close>

definition dispatchFile ::
  "('s, 'z) http_io_scheme \<Rightarrow> 'v http_server \<Rightarrow> string \<Rightarrow> sview \<Rightarrow> string \<Rightarrow> request \<Rightarrow> 'v svc \<Rightarrow> (bool \<times> 'v svc) run" where
  "dispatchFile io s prefix req_url path req sv =
     run_bind (Some (sv_remove_prefix req_url (length prefix))) (\<lambda>suffix.
       let path = path @ suffix;
           index = (if path \<noteq> [] \<and> last path = CHR ''/'' then getIndexPageFileName (hx_exist io) (hs_pages s) path else None)
       in if path = [] then Some (Inl OutOfBounds)
          else if last path = CHR ''/'' \<and> index = None
          then Some (Inr (True, sv\<lparr>sv_resp := setCode 403 (sv_resp sv)\<rparr>))
          else if index = None \<and> \<not> hx_exist io path then Some (Inr (False, sv))
          else let path = (case index of Some p \<Rightarrow> p | None \<Rightarrow> path)
               in if ends_with path ''.php''
                  then if hx_enable_php io then run_bind (dispatchPhpProcessor io path req sv) (\<lambda>sv. Some (Inr (True, sv)))
                       else Some (Inr (True, sv\<lparr>sv_resp := setCode 403 (sv_resp sv)\<rparr>))
                  else Some (res_map (\<lambda>type. (True, sv\<lparr>sv_resp := setBodyFile path (setHeader ''Content-Type'' type (sv_resp sv))\<rparr>))
                         (mappingMimeType path)))"

fun mount_each ::
  "('s, 'z) http_io_scheme \<Rightarrow> 'v http_server \<Rightarrow> (string \<times> string) list \<Rightarrow> request \<Rightarrow> 'v svc \<Rightarrow> (bool \<times> 'v svc) run" where
  \<comment> \<open>\<open>mount_dir_.each\<close> with the callback of \<open>dispatchMountDir\<close>\<close>
  "mount_each io s [] req sv = Some (Inr (False, sv))"
| "mount_each io s ((prefix, dir) # es) req sv =
     (if starts_with (rq_url req) prefix
      then run_bind (dispatchFile io s prefix (rq_url req) dir req sv) (\<lambda>(found, sv).
             if found then Some (Inr (True, sv)) else mount_each io s es req sv)
      else mount_each io s es req sv)"

definition dispatchMountDir ::
  "('s, 'z) http_io_scheme \<Rightarrow> 'v http_server \<Rightarrow> (string \<times> string) list \<Rightarrow> request \<Rightarrow> 'v svc \<Rightarrow> (bool \<times> 'v svc) run" where
  \<comment> \<open>the list is the traversal order of \<open>mount_dir_\<close>\<close>
  "dispatchMountDir io s es req sv =
     (if es = [] then Some (Inr (False, sv))
      else run_bind (mount_each io s es req sv) (\<lambda>(status, sv).
             Some (Inr (status, if status then sv else sv\<lparr>sv_resp := setCode 404 (sv_resp sv)\<rparr>))))"

fun pattern_each :: "('s, 'z) http_io_scheme \<Rightarrow> (string \<times> 'v service) list \<Rightarrow> request \<Rightarrow> 'v svc \<Rightarrow> (bool \<times> 'v svc) res" where
  "pattern_each io [] req sv = Inr (False, sv)"
| "pattern_each io ((urlp, service) # es) req sv =
     (case hx_regex io urlp (rq_url req) of
        Some groups \<Rightarrow> res_map (\<lambda>sv. (True, sv)) (service0 service groups req sv)
      | None \<Rightarrow> pattern_each io es req sv)"

definition dispatchUrlPattern ::
  "('s, 'z) http_io_scheme \<Rightarrow> 'v http_server \<Rightarrow> (string \<times> 'v service) list \<Rightarrow> request \<Rightarrow> 'v svc \<Rightarrow> (bool \<times> 'v svc) res" where
  "dispatchUrlPattern io s es req sv =
     (case hm_get (hs_services s) (rq_url req) of
        Some x \<Rightarrow> res_map (\<lambda>sv. (True, sv)) (run_base x req sv)
      | None \<Rightarrow> if es = [] then Inr (False, sv) else pattern_each io es req sv)"

definition associateRequestSession :: "'v svc \<Rightarrow> 'v svc" where
  "associateRequestSession sv =
     (case sv_session sv of
        Some s \<Rightarrow> if isNew s
          then sv\<lparr>sv_resp := setCookie (ck_toString [(''SESSIONID'', se_id s)] (setPath ''/'' (ck_add ''SESSIONID'' (se_id s) ck_new))) (sv_resp sv)\<rparr>
          else sv
      | None \<Rightarrow> sv)"

definition run_error_service :: "'v http_server \<Rightarrow> request \<Rightarrow> 'v svc \<Rightarrow> 'v svc res" where
  "run_error_service s req sv = res_bind (getErrorService s) (\<lambda>e. run_base e req sv)"

definition handle_request ::
  "('s, 'z) http_io_scheme \<Rightarrow> 'v http_server \<Rightarrow> (string \<times> string) list \<Rightarrow> (string \<times> 'v service) list \<Rightarrow> request \<Rightarrow> 'v svc \<Rightarrow> 'v svc run" where
  \<comment> \<open>the part of \<open>onMessage\<close> between \<open>reset\<close> and \<open>send\<close>\<close>
  "handle_request io s dirs pats req sv =
     run_bind (Some (dispatchUrlPattern io s pats req sv)) (\<lambda>(found, sv).
     run_bind (if found then Some (Inr (True, sv)) else dispatchMountDir io s dirs req sv) (\<lambda>(_, sv).
       let sv = associateRequestSession sv
       in Some (if rb_code (sv_resp sv) \<ge> 400 \<and> rb_code (sv_resp sv) < 600 then run_error_service s req sv else Inr sv)))"

definition svc_start :: "('s, 'z) http_io_scheme \<Rightarrow> request \<Rightarrow> 'v store \<Rightarrow> 'v svc" where
  "svc_start io req st = \<lparr>sv_resp = rb_new (io_env.truncate io) req, sv_store = st, sv_session = None, sv_match = [], sv_php_message = []\<rparr>"

definition onMessage ::
  "nat \<Rightarrow> env \<Rightarrow> ('s, 'z) http_io_scheme \<Rightarrow> 'v http_server \<Rightarrow> (string \<times> string) list \<Rightarrow> (string \<times> 'v service) list \<Rightarrow>
   request connection \<Rightarrow> 'v store \<Rightarrow> (bool \<times> request connection \<times> 'v store) run" where
  \<comment> \<open>\<open>dirs\<close> and \<open>pats\<close>: the traversal orders; the context of a connection that was closed
      meanwhile keeps pointing to the deleted request\<close>
  "onMessage fuel ev io s dirs pats conn st =
     (case cn_channel conn of
        None \<Rightarrow> Some (Inl NullPointer)
      | Some ch \<Rightarrow>
          let req = (case context_ptr conn of None \<Rightarrow> rq_new | Some r \<Rightarrow> r)
          in run_bind (parseRequest fuel ev (recver ch) req) (\<lambda>(code, b, req).
               let conn = setChannel (Some (ch\<lparr>recver := b\<rparr>)) (setContext (Some req) conn)
               in if disconnected conn then Some (Inr (True, conn, st))
                  else if code = BAD_REQUEST then
                    let conn = setContext None (setKeepAlive False conn);
                        sv = svc_start io req st;
                        sv = sv\<lparr>sv_resp := setHeader ''Connection'' ''close'' (setCode 400 (sv_resp sv))\<rparr>
                    in run_bind (Some (run_error_service s req sv)) (\<lambda>sv.
                       run_bind (Some (send_response (io_env.truncate io) (sv_resp sv) conn)) (\<lambda>(_, conn).
                         Some (Inr (True, conn, sv_store sv))))
                  else if code \<noteq> REQUEST_CONTENT_DONE then Some (Inr (False, conn, st))
                  else let req = rq_reset req
                       in run_bind (handle_request io s dirs pats req (svc_start io req st)) (\<lambda>sv.
                          run_bind (Some (send_response (io_env.truncate io) (sv_resp sv) conn)) (\<lambda>(_, conn).
                            Some (Inr (True, setContext None conn, sv_store sv))))))"


section \<open>Serving files\<close>

definition serves_file :: "('s, 'z) http_io_scheme \<Rightarrow> string \<Rightarrow> string \<Rightarrow> bool" where
  \<comment> \<open>a path that names a regular file and is not a script, and its content type\<close>
  "serves_file io path type \<longleftrightarrow> path \<noteq> [] \<and> last path \<noteq> CHR ''/'' \<and> hx_exist io path \<and> \<not> ends_with path ''.php'' \<and>
     mappingMimeType path = Inr type"

definition file_response :: "string \<Rightarrow> string \<Rightarrow> builder \<Rightarrow> builder" where
  "file_response path type b = setBodyFile path (setHeader ''Content-Type'' type b)"

lemma dispatchFile_regular:
  assumes "starts_with url prefix" and "serves_file io (dir @ drop (length prefix) url) type"
  shows "dispatchFile io s prefix url dir req sv =
     Some (Inr (True, sv\<lparr>sv_resp := file_response (dir @ drop (length prefix) url) type (sv_resp sv)\<rparr>))"
  using assms starts_with_length [OF assms(1)]
  by (auto simp: dispatchFile_def sv_remove_prefix_def serves_file_def Let_def file_response_def)

lemma handle_request_file:
  assumes "hs_services s (rq_url req) = None" and "starts_with (rq_url req) prefix"
    and "serves_file io (dir @ drop (length prefix) (rq_url req)) type" and "sv_session sv = None" and "rb_code (sv_resp sv) = 200"
  shows "handle_request io s [(prefix, dir)] [] req sv =
     Some (Inr (sv\<lparr>sv_resp := file_response (dir @ drop (length prefix) (rq_url req)) type (sv_resp sv)\<rparr>))"
proof -
  have "rb_code (file_response p t b) = rb_code b" for p t b by (simp add: file_response_def setBodyFile_def)
  then show ?thesis
    using assms by (simp add: handle_request_def dispatchUrlPattern_def hm_get_def dispatchMountDir_def dispatchFile_regular
        associateRequestSession_def)
qed

lemma file_built_size:
  assumes "io_fs io (c_str path) = Some f" and "b = file_response path type (rb_new io r)"
    and "\<forall>x \<in> set [fl_bytes f, io_gzip io (fl_bytes f), fl_mtime f, type, io_date io]. length x < 268435456"
  shows "length (response_head ''OK'' (built io b ch)) + length (final_content io b ch) < 1610612736"
proof -
  have b: "rb_resp_file b" "rb_file_name b = path" "rb_code b = 200"
    by (simp_all add: assms(2) file_response_def setBodyFile_def setHeader_def rb_new_def)
  have "length (hd_toString (rb_header b)) \<le> length (io_date io) + length type + 120"
    using rb_new_header(2) [of io r] length_setHeader [of "''Content-Type''" type "rb_new io r"]
    by (simp add: assms(2) file_response_def setBodyFile_def)
  moreover have "final_content io b ch \<in> {fl_bytes f, io_gzip io (fl_bytes f)}"
    using b assms(1) by (simp add: final_content_def Let_def) (simp add: content_def)
  moreover have "length (version_text (rb_version b)) \<le> 9" by (simp add: version_text_def split: option.split http_version.split)
  moreover have "length (int_decimal 200) = 3" by (simp add: int_decimal_def decimal.simps)
  ultimately show ?thesis using length_built [OF b(1), of io f ch] assms(1,3) b
    by (auto simp: response_head_def CRLF_def)
qed


text \<open>
  C36. A request for a url below a mounted directory is answered from the file that the rest of the url
  names, with the content type of its extension, whatever that rest is: nothing stops it from climbing
  out of the directory with \<open>..\<close> components.
\<close>

theorem mounted_file_response:
  assumes "hs_services s (rq_url req) = None" and "rq_url req = prefix @ rest" and "serves_file io (dir @ rest) type"
    and "sv_session sv = None" and "rb_code (sv_resp sv) = 200"
  shows "\<exists>sv'. handle_request io s [(prefix, dir)] [] req sv = Some (Inr sv') \<and>
     rb_resp_file (sv_resp sv') \<and> rb_file_name (sv_resp sv') = dir @ rest \<and> rb_code (sv_resp sv') = 200 \<and>
     rb_header (sv_resp sv') = hd_add (rb_header (sv_resp sv)) ''Content-Type'' type"
proof -
  have "starts_with (rq_url req) prefix" "drop (length prefix) (rq_url req) = rest" using assms(2) by simp_all
  then show ?thesis using handle_request_file [OF assms(1), of prefix io dir type sv] assms(3-5)
    by (simp add: file_response_def setBodyFile_def setHeader_def)
qed

definition demo_http_io :: "unit http_io" where
  "demo_http_io = io_env.extend demo_io
     (http_io.fields (\<lambda>p. p = ''/srv/../etc/passwd'') (\<lambda>p u. None) False False (\<lambda>s n. (None, s)) () (replicate 8 NUL) [] 0)"

definition demo_svc :: "unit svc" where
  "demo_svc = svc_start demo_http_io rq_new no_sessions"

theorem mounted_file_response_witness:
  "\<exists>sv'. handle_request demo_http_io (hs_new []) [(''/'', ''/srv/'')] [] (rq_new\<lparr>rq_url := ''/../etc/passwd''\<rparr>) demo_svc = Some (Inr sv') \<and>
     rb_resp_file (sv_resp sv') \<and> rb_file_name (sv_resp sv') = ''/srv/'' @ ''../etc/passwd'' \<and> rb_code (sv_resp sv') = 200 \<and>
     rb_header (sv_resp sv') = hd_add (rb_header (sv_resp demo_svc)) ''Content-Type'' ''application/octet-stream''"
proof (rule mounted_file_response)
  have "mappingMimeType (''/srv/.'' @ CHR ''.'' # ''/etc/passwd'') = Inr (with_charset (case map_of Content_Type (hashExt ''/etc/passwd'') of Some t \<Rightarrow> t | None \<Rightarrow> ''application/octet-stream''))"
    by (rule mappingMimeType_ext) (simp_all add: npos_def)
  moreover have "map_of Content_Type (hashExt ''/etc/passwd'') = None"
    by (simp add: Content_Type_def mime_table_def hashExt_def schar_def)
  ultimately show "serves_file demo_http_io (''/srv/'' @ ''../etc/passwd'') ''application/octet-stream''"
    by (simp add: serves_file_def demo_http_io_def http_io.defs io_env.defs ends_with_def with_charset_def starts_with_def)
qed (simp_all add: hs_new_def hm_add_def hm_new_def demo_svc_def svc_start_def rb_new_def)


section \<open>The HTTP server as the application of the TCP server\<close>

text \<open>
  Every message finds its own file system, clock and other outside inputs, \<open>world i\<close> for the
  \<open>i\<close>-th message; the state of the application is the number of messages and the sessions.
\<close>

definition setIdleTime :: "int \<Rightarrow> int" where
  "setIdleTime millsecond = (if millsecond \<le> 0 then 2000 else millsecond)"

record fds =
  fd_event :: int
  fd_listen :: int
  fd_timer :: int
  fd_session :: int

definition http_message ::
  "(nat \<Rightarrow> nat \<times> env \<times> ('s, 'z) http_io_scheme) \<Rightarrow> 'v http_server \<Rightarrow> (string \<times> string) list \<Rightarrow> (string \<times> 'v service) list \<Rightarrow>
   request connection \<Rightarrow> nat \<times> 'v store \<Rightarrow> (bool \<times> request connection \<times> nat \<times> 'v store) run" where
  "http_message world s dirs pats conn app =
     (case world (fst app) of (fuel, ev, io) \<Rightarrow>
        run_bind (onMessage fuel ev io s dirs pats conn (snd app)) (\<lambda>(finished, conn, st). Some (Inr (finished, conn, Suc (fst app), st))))"

definition http_config ::
  "fds \<Rightarrow> int \<Rightarrow> bool \<Rightarrow> bool \<Rightarrow> (nat \<Rightarrow> nat \<times> env \<times> ('s, 'z) http_io_scheme) \<Rightarrow> 'v http_server \<Rightarrow> (string \<times> string) list \<Rightarrow>
   (string \<times> 'v service) list \<Rightarrow> (request, nat \<times> 'v store) config" where
  \<comment> \<open>\<open>HttpServer::initialize\<close> sets the message callback only\<close>
  "http_config d ms sf https world s dirs pats =
     \<lparr>cf_evfd = fd_event d, cf_listenfd = fd_listen d, cf_timerfd = fd_timer d, cf_sessionfd = fd_session d,
      cf_idle = setIdleTime ms, cf_sendfile = sf, cf_https = https,
      cf_session = (\<lambda>(i, st). st_timer st \<noteq> None),
      cf_session_timeout = (\<lambda>now (i, st). res_map (\<lambda>st. (i, st)) (session_timeout now st)),
      cf_new_conn = None, cf_msg = http_message world s dirs pats, cf_closed = None\<rparr>"

lemma send_response_keeps:
  assumes "send_response io b conn = Inr (b', conn')"
  shows "connfd conn' = connfd conn \<and> disconnected conn' = disconnected conn \<and> cn_channel conn' \<noteq> None"
  using assms by (auto simp: send_response_def setKeepAlive_def setChannel_def Let_def res_simps split: option.splits)

lemma onMessage_keeps:
  assumes "onMessage fuel ev io s dirs pats conn st = Some (Inr (finished, conn', st'))"
  shows "connfd conn' = connfd conn \<and> disconnected conn' = disconnected conn \<and> cn_channel conn' \<noteq> None"
proof -
  from assms obtain ch where ch: "cn_channel conn = Some ch" by (auto simp: onMessage_def split: option.splits)
  from assms ch obtain code b req where
    p: "parseRequest fuel ev (recver ch) (case context_ptr conn of None \<Rightarrow> rq_new | Some r \<Rightarrow> r) = Some (Inr (code, b, req))"
    by (auto simp: onMessage_def Let_def res_simps)
  from assms show ?thesis
    unfolding onMessage_def option.case Let_def ch p run_bind_simps prod.case
    by (auto simp: res_simps setChannel_def setContext_def setKeepAlive_def split: if_splits dest!: send_response_keeps)
qed

interpretation http: tcp_callbacks "http_config d ms sf https world s dirs pats"
proof
  show "\<not> unusable conn' \<and> connfd conn' = connfd conn"
    if "cf_msg (http_config d ms sf https world s dirs pats) conn app = Some (Inr (finished, conn', app'))" "\<not> unusable conn"
    for conn conn' finished app app'
    using that onMessage_keeps by (fastforce simp: http_config_def http_message_def unusable_def res_simps split: prod.splits)
qed (simp_all add: http_config_def)

end
