(* ===== verification/HttpServerRun.thy ===== *)
theory HttpServerRun
  imports HttpServer
begin

text \<open>
  The life of an \<open>HttpServer\<close> (\<open>soc/http/src/HttpServer.cc\<close>): its constructor and \<open>initialize\<close>, which read the
  configuration, \<open>start\<close> and \<open>quit\<close>.
\<close>

record 'v http =
  ht_server :: "'v http_server"
  ht_tcp :: "(request, nat \<times> 'v store) tcp"

definition tcp_fields :: "fds \<Rightarrow> int \<Rightarrow> (request, nat \<times> 'v store) config" where
  \<comment> \<open>the fields of \<open>TcpServer\<close> before they are set: \<open>idle_timeout_\<close> is not initialised, the callbacks are empty
      functions\<close>
  "tcp_fields d stale =
     \<lparr>cf_evfd = fd_event d, cf_listenfd = fd_listen d, cf_timerfd = fd_timer d, cf_sessionfd = fd_session d,
      cf_idle = stale, cf_sendfile = False, cf_https = False,
      cf_session = (\<lambda>(i, st). st_timer st \<noteq> None),
      cf_session_timeout = (\<lambda>now (i, st). res_map (\<lambda>st. (i, st)) (session_timeout now st)),
      cf_new_conn = None, cf_msg = (\<lambda>conn app. Some (Inl BadFunctionCall)), cf_closed = None\<rparr>"

definition http_setIdleTime :: "int \<Rightarrow> (request, nat \<times> 'v store) tcp \<Rightarrow> (request, nat \<times> 'v store) tcp" where
  "http_setIdleTime millsecond t = tcp_setIdleTime (setIdleTime millsecond) t"

definition http_initialize :: "ConfigMp \<Rightarrow> openssl \<Rightarrow> (request, nat \<times> 'v store) tcp \<Rightarrow> 'v http res" where
  \<comment> \<open>the value of \<open>enable_https\<close> is read again at every \<open>accept\<close>; the configuration does not change\<close>
  "http_initialize m ox t =
     res_bind (GET_CONFIG as_int m ''server'' ''idle_timeout'') (\<lambda>ms.
     let t = http_setIdleTime ms t
     in res_bind (GET_CONFIG as_strings m ''server'' ''default_page'') (\<lambda>pages.
     res_bind (GET_CONFIG as_bool m ''server'' ''enable_https'') (\<lambda>https.
     let t = t\<lparr>tc_config := (tc_config t)\<lparr>cf_https := https\<rparr>\<rparr>
     in res_map (\<lambda>t. \<lparr>ht_server = hs_new pages, ht_tcp = t\<rparr>)
          (if https then
             res_bind (GET_CONFIG as_string m ''https'' ''cert_file'') (\<lambda>cert.
             res_bind (GET_CONFIG as_string m ''https'' ''private_key_file'') (\<lambda>key.
             res_bind (GET_CONFIG as_string m ''https'' ''password'') (\<lambda>password.
               tcp_setCertificate ox cert key password t)))
           else Inr t))))"

definition HttpServer_new :: "ConfigMp \<Rightarrow> openssl \<Rightarrow> fds \<Rightarrow> int \<Rightarrow> nat \<times> 'v store \<Rightarrow> kernel \<Rightarrow> 'v http res" where
  "HttpServer_new m ox d stale app k = res_bind (TcpServer_new m (tcp_fields d stale) app k) (http_initialize m ox)"

definition http_address :: "ConfigMp \<Rightarrow> (string \<Rightarrow> (8 word \<times> 8 word \<times> 8 word \<times> 8 word) option) \<Rightarrow> sockaddr_in res" where
  \<comment> \<open>the port is converted to \<open>uint16_t\<close>\<close>
  "http_address m pton =
     res_bind (GET_CONFIG as_string m ''server'' ''listen_ip'') (\<lambda>ip.
     res_map (\<lambda>port. InetAddress_ip pton ip (word_of_int port)) (GET_CONFIG as_int m ''server'' ''listen_port''))"

definition HttpServer_start ::
  "ConfigMp \<Rightarrow> (string \<Rightarrow> (8 word \<times> 8 word \<times> 8 word \<times> 8 word) option) \<Rightarrow> start_env \<Rightarrow>
   (nat \<Rightarrow> nat \<times> env \<times> ('s, 'z) http_io_scheme) \<Rightarrow> (string \<times> string) list \<Rightarrow> (string \<times> 'v service) list \<Rightarrow> turn list \<Rightarrow>
   'v http \<Rightarrow> 'v http run" where
  \<comment> \<open>\<open>initialize\<close> has set \<open>onMessage\<close> as the message callback; it finds the services that were added before\<close>
  "HttpServer_start m pton e world dirs pats turns h =
     (case http_address m pton of Inl err \<Rightarrow> Some (Inl err)
      | Inr address \<Rightarrow> run_bind (tcp_start e address turns (setMessageCallback (http_message world (ht_server h) dirs pats) (ht_tcp h)))
          (\<lambda>t. Some (Inr (h\<lparr>ht_tcp := t\<rparr>))))"

definition http_quit :: "'v http \<Rightarrow> 'v http" where
  "http_quit h = h\<lparr>ht_tcp := tcp_quit (ht_tcp h)\<rparr>"

definition removeErrorService :: "'v http \<Rightarrow> 'v http" where
  "removeErrorService h = h\<lparr>ht_server := setErrorService DefaultErrorService (ht_server h)\<rparr>"


definition php_connect ::
  "ConfigMp \<Rightarrow> (string \<Rightarrow> 8 word \<times> 8 word \<times> 8 word \<times> 8 word) \<Rightarrow> (sockaddr_in \<Rightarrow> bool) \<Rightarrow> (string \<Rightarrow> bool) \<Rightarrow> bool res" where
  \<comment> \<open>the first part of \<open>dispatchPhpProcessor\<close>\<close>
  "php_connect m inet_addr tcp unix =
     res_bind (GET_CONFIG as_bool m ''php-fpm'' ''tcp_or_domain'') (\<lambda>tcp_or_domain.
       if tcp_or_domain then
         res_bind (GET_CONFIG as_string m ''php-fpm'' ''server_ip'') (\<lambda>ip.
         res_map (\<lambda>port. connectPhpFpm_tcp inet_addr tcp ip (word_of_int port)) (GET_CONFIG as_int m ''php-fpm'' ''server_port''))
       else
         res_bind (GET_CONFIG as_string m ''php-fpm'' ''sock_path'') (connectPhpFpm_unix unix))"

definition php_processor ::
  "ConfigMp \<Rightarrow> (string \<Rightarrow> 8 word \<times> 8 word \<times> 8 word \<times> 8 word) \<Rightarrow> (sockaddr_in \<Rightarrow> bool) \<Rightarrow> (string \<Rightarrow> bool) \<Rightarrow>
   ('s, 'z) http_io_scheme \<Rightarrow> string \<Rightarrow> request \<Rightarrow> 'v svc \<Rightarrow> 'v svc run" where
  \<comment> \<open>\<open>dispatchPhpProcessor\<close> with the connection it makes\<close>
  "php_processor m inet_addr tcp unix io path req sv =
     run_bind (Some (php_connect m inet_addr tcp unix)) (\<lambda>connected. dispatchPhpProcessor (io\<lparr>hx_connected := connected\<rparr>) path req sv)"

text \<open>Without PHP-FPM behind the configured port the answer is an internal server error.\<close>

lemma php_unreachable:
  assumes "config_get m ''php-fpm'' ''tcp_or_domain'' = Inr (VBool True)" and "config_get m ''php-fpm'' ''server_ip'' = Inr (VString ip)"
    and "config_get m ''php-fpm'' ''server_port'' = Inr (VInt port)" and "\<not> tcp \<lparr>sin_port = htons (word_of_int port), sin_addr = inet_addr (c_str ip)\<rparr>"
  shows "php_processor m inet_addr tcp unix io path req sv = Some (Inr (sv\<lparr>sv_resp := setCode 500 (sv_resp sv)\<rparr>))"
  using assms(1-3) [folded GET_CONFIG_eq] assms(4)
  by (simp add: php_processor_def php_connect_def connectPhpFpm_tcp_def dispatchPhpProcessor_def)


section \<open>From the configuration to the event loop\<close>

definition config_server :: "ConfigMp \<Rightarrow> string \<Rightarrow> int \<Rightarrow> int \<Rightarrow> string list \<Rightarrow> bool \<Rightarrow> bool \<Rightarrow> bool" where
  "config_server m ip port ms pages sf https \<longleftrightarrow>
     config_get m ''server'' ''listen_ip'' = Inr (VString ip) \<and> config_get m ''server'' ''listen_port'' = Inr (VInt port) \<and>
     config_get m ''server'' ''idle_timeout'' = Inr (VInt ms) \<and> config_get m ''server'' ''default_page'' = Inr (VStrings pages) \<and>
     config_get m ''server'' ''enable_sendfile'' = Inr (VBool sf) \<and> config_get m ''server'' ''enable_https'' = Inr (VBool https)"

definition config_tls :: "ConfigMp \<Rightarrow> openssl \<Rightarrow> ssl_ctx \<Rightarrow> bool" where
  \<comment> \<open>the configuration names a certificate and a key that OpenSSL takes\<close>
  "config_tls m ox ctx \<longleftrightarrow>
     (\<exists>cert key password. config_get m ''https'' ''cert_file'' = Inr (VString cert) \<and>
        config_get m ''https'' ''private_key_file'' = Inr (VString key) \<and> config_get m ''https'' ''password'' = Inr (VString password) \<and>
        ServerSsl_new ox cert key password = Inr ctx)"

definition initialized :: "fds \<Rightarrow> int \<Rightarrow> int \<Rightarrow> bool \<Rightarrow> bool \<Rightarrow> ssl_ctx option \<Rightarrow> (request, nat \<times> 'v store) tcp \<Rightarrow> (request, nat \<times> 'v store) tcp" where
  \<comment> \<open>the server that \<open>initialize\<close> leaves\<close>
  "initialized d stale ms sf https ssl t =
     t\<lparr>tc_config := (tcp_fields d stale)\<lparr>cf_sendfile := sf, cf_idle := setIdleTime ms, cf_https := https\<rparr>, tc_ssl := ssl\<rparr>"

lemma HttpServer_new_ok:
  assumes "config_server m ip port ms pages sf https" and "https \<longrightarrow> config_tls m ox ctx"
  shows "\<exists>t. TcpServer_new m (tcp_fields d stale) app k = Inr t \<and>
     HttpServer_new m ox d stale app k =
       Inr \<lparr>ht_server = hs_new pages, ht_tcp = initialized d stale ms sf https (if https then Some ctx else None) t\<rparr>"
proof -
  note c = assms(1) [unfolded config_server_def GET_CONFIG_eq [symmetric]]
  note defs = HttpServer_new_def http_initialize_def http_setIdleTime_def tcp_setIdleTime_def initialized_def
  obtain t where t: "TcpServer_new m (tcp_fields d stale) app k = Inr t" "tc_config t = (tcp_fields d stale)\<lparr>cf_sendfile := sf\<rparr>" "tc_ssl t = None"
    using c by (simp add: TcpServer_new_def createNBSocket_def Let_def)
  show ?thesis
  proof (cases https)
    case True
    then obtain cert key password where "GET_CONFIG as_string m ''https'' ''cert_file'' = Inr cert"
      "GET_CONFIG as_string m ''https'' ''private_key_file'' = Inr key" "GET_CONFIG as_string m ''https'' ''password'' = Inr password"
      "ServerSsl_new ox cert key password = Inr ctx" using assms(2) by (auto simp: config_tls_def GET_CONFIG_eq [symmetric])
    then show ?thesis using c t True by (simp add: defs tcp_setCertificate_def Let_def)
  next
    case False
    then show ?thesis using c t by (simp add: defs Let_def)
  qed
qed

text \<open>
  \<open>start\<close> runs the loop from the state \<open>server_new\<close>, with the configured values and the services that were
  registered in the meantime; before it the socket has been opened at the configured address.
\<close>

lemma initialized_starts:
  assumes "TcpServer_new m (tcp_fields d stale) app k = Inr t" and "http_address m pton = Inr address"
    and "int_range (setIdleTime ms * 1000)" and "0 \<le> fd_listen d" and "0 \<le> se_bind e" and "0 \<le> se_listen e"
  shows "\<exists>t'. tc_config t' = http_config d ms sf https world s dirs pats \<and> opened (tc_config t') address (tc_kernel t') \<and> tc_ssl t' = ssl \<and>
     (\<forall>turns. HttpServer_start m pton e world dirs pats turns \<lparr>ht_server = s, ht_tcp = initialized d stale ms sf https ssl t\<rparr> =
        run_bind (start_loop (tc_config t') turns (server_new (tc_config t') app))
          (\<lambda>sr. Some (Inr \<lparr>ht_server = s, ht_tcp = t'\<lparr>tc_server := sr\<rparr>\<rparr>)))"
proof -
  let ?cfg = "http_config d ms sf https world s dirs pats"
  have cb: "setMessageCallback (http_message world s dirs pats) (initialized d stale ms sf https ssl t) = t\<lparr>tc_config := ?cfg, tc_ssl := ssl\<rparr>"
    by (simp add: setMessageCallback_def initialized_def tcp_fields_def http_config_def)
  have "\<exists>t'. start_open e address (t\<lparr>tc_config := ?cfg, tc_ssl := ssl\<rparr>) = Inr t' \<and> tc_config t' = ?cfg \<and>
      tc_server t' = server_new ?cfg app \<and> opened ?cfg address (tc_kernel t') \<and> getInetAddress t' = Some address \<and> tc_ssl t' = ssl"
    by (rule start_open_ok [OF assms(1)]) (use assms(3-6) in \<open>simp_all add: http_config_def tcp_fields_def\<close>)
  then obtain t' where "start_open e address (t\<lparr>tc_config := ?cfg, tc_ssl := ssl\<rparr>) = Inr t'" "tc_config t' = ?cfg"
      "tc_server t' = server_new ?cfg app" "opened ?cfg address (tc_kernel t')" "tc_ssl t' = ssl" by blast
  then show ?thesis using cb assms(2)
    by (intro exI [of _ t']) (simp add: HttpServer_start_def tcp_start_def run_bind_def split: option.split sum.split)
qed

lemma HttpServer_start_ok:
  assumes "config_server m ip port ms pages sf https" and "https \<longrightarrow> config_tls m ox ctx"
    and "int_range (setIdleTime ms * 1000)" and "0 \<le> fd_listen d" and "0 \<le> se_bind e" and "0 \<le> se_listen e"
  shows "\<exists>h. HttpServer_new m ox d stale app k = Inr h \<and> ht_server h = hs_new pages \<and>
     (\<forall>world s dirs pats. \<exists>t. tc_config t = http_config d ms sf https world s dirs pats \<and>
        opened (tc_config t) (InetAddress_ip pton ip (word_of_int port)) (tc_kernel t) \<and> tc_ssl t = (if https then Some ctx else None) \<and>
        (\<forall>turns. HttpServer_start m pton e world dirs pats turns (h\<lparr>ht_server := s\<rparr>) =
           run_bind (start_loop (tc_config t) turns (server_new (tc_config t) app))
             (\<lambda>sr. Some (Inr \<lparr>ht_server = s, ht_tcp = t\<lparr>tc_server := sr\<rparr>\<rparr>))))"
proof -
  obtain t where t: "TcpServer_new m (tcp_fields d stale) app k = Inr t" and
    h: "HttpServer_new m ox d stale app k =
       Inr \<lparr>ht_server = hs_new pages, ht_tcp = initialized d stale ms sf https (if https then Some ctx else None) t\<rparr>"
    using HttpServer_new_ok [OF assms(1,2)] by blast
  have "http_address m pton = Inr (InetAddress_ip pton ip (word_of_int port))"
    using assms(1) [unfolded config_server_def GET_CONFIG_eq [symmetric]] by (simp add: http_address_def)
  note start = initialized_starts [OF t this assms(3-6), of sf https _ _ _ _ "if https then Some ctx else None"]
  let ?h = "\<lparr>ht_server = hs_new pages, ht_tcp = initialized d stale ms sf https (if https then Some ctx else None) t\<rparr>"
  show ?thesis
  proof (intro exI [of _ ?h] conjI allI)
    show "HttpServer_new m ox d stale app k = Inr ?h" "ht_server ?h = hs_new pages" by (rule h, simp)
  qed (unfold http.update_convs, rule start)
qed

end
