(* ===== verification/SessionCookie.thy ===== *)
theory SessionCookie
  imports HttpServer
begin

text \<open>
  A session across two requests: \<open>HttpRequest::getSession\<close> and \<open>HttpServer::associateRequestSession\<close> of the first,
  the cookie the client sends back, \<open>parseCookie\<close> and \<open>getSession\<close> of the second.
\<close>

definition cookie_pair :: "string \<Rightarrow> string" where
  \<comment> \<open>what a client returns of a \<open>Set-Cookie\<close> value: the part before the attributes (RFC 6265)\<close>
  "cookie_pair value = takeWhile (\<lambda>c. c \<noteq> CHR '';'') value"

lemma session_name_random: "session_name (genRandromStr rands) = take 26 (''SESSIONID_'' @ genRandromStr rands)"
proof -
  have "\<not> isalnum NUL" by (simp add: NUL_def isalnum_def isdigit_def islower_def isupper_def)
  then have "\<forall>c \<in> set (genRandromStr rands). c \<noteq> NUL" using genRandromStr_alnum by metis
  then have "c_str (genRandromStr rands) = genRandromStr rands" by (simp add: c_str_def takeWhile_eq_all_conv)
  then show ?thesis by (simp add: session_name_def)
qed

lemma session_name_plain:
  assumes "c \<in> set (session_name (genRandromStr rands))"
  shows "c \<noteq> CHR '';'' \<and> c \<noteq> CHR ''='' \<and> c \<noteq> CHR ''%''"
proof -
  have "c \<in> set ''SESSIONID_'' \<or> isalnum c"
    using assms genRandromStr_alnum set_take_subset by (fastforce simp: session_name_random)
  then show ?thesis by (auto simp: isalnum_def isdigit_def islower_def isupper_def)
qed

definition session_cookie :: "string \<Rightarrow> string" where
  "session_cookie sid = ''SESSIONID='' @ sid @ ''; Path=/''"

lemma session_cookie_set:
  assumes "sv_session sv = Some s" and "isNew s"
  shows "(''set-cookie'', session_cookie (se_id s)) \<in> set (rb_header (sv_resp (associateRequestSession sv)))"
proof -
  have "toLowers ''Set-Cookie'' = ''set-cookie''" by (simp add: toLowers_map tolower_def isupper_def char_of_def bit_0)
  moreover have "ck_toString [(''SESSIONID'', se_id s)] (setPath ''/'' (ck_add ''SESSIONID'' (se_id s) ck_new)) = session_cookie (se_id s)"
    by (simp add: ck_toString_def setPath_def ck_add_def ck_new_def session_cookie_def)
  ultimately show ?thesis using assms
    by (simp add: associateRequestSession_def setCookie_def hd_add_def add0_def Let_def set_mm_emplace starts_with_def)
qed

lemma session_cookie_read_back:
  assumes "sid = session_name (genRandromStr rands)" and "hd_get (rq_header r) ''Cookie'' = Some (cookie_pair (session_cookie sid))"
  shows "\<exists>r'. parseCookie r = Inr r' \<and> rq_cookies r' = hm_add (rq_cookies r) ''SESSIONID'' sid"
proof -
  have plain: "\<forall>c \<in> set sid. c \<noteq> CHR '';'' \<and> c \<noteq> CHR ''='' \<and> c \<noteq> CHR ''%''" using session_name_plain assms(1) by blast
  have len: "length sid \<le> 26" using assms(1) by (simp add: session_name_def)
  have "cookie_pair (session_cookie sid) = ''SESSIONID='' @ sid"
    using plain by (simp add: cookie_pair_def session_cookie_def takeWhile_append2)
  then have t: "cookie_pair (session_cookie sid) = pairs_text (CHR ''='') (CHR '';'') '' '' [(''SESSIONID'', sid)]" by simp
  have "cookie_pair_ok (''SESSIONID'', sid)" using plain by (auto simp: cookie_pair_ok_def pair_ok_def)
  then have "parseKeyValue (cookie_pair (session_cookie sid)) [NUL] (CHR ''='') (CHR '';'') (rq_cookies r) =
      Inr (hm_add (rq_cookies r) ''SESSIONID'' sid)"
    unfolding t using len by (subst parse_cookie_pairs) (simp_all add: npos_eq)
  then show ?thesis using assms(2) by (simp add: parseCookie_def)
qed

text \<open>
  C9. A session survives from one request to the next: a request without a session cookie gets a new session,
  whose id is random, and the response sets the cookie; when the client sends the cookie back in time,
  \<open>getSession\<close> returns the same session, now accessed, with its values, its lifetime starts again, and no
  session is created.
\<close>

theorem session_resumed_by_cookie:
  assumes store: "store_inv (sv_store sv)" "fresh_id (session_name (genRandromStr rands)) (sv_store sv)"
      "\<forall>h. st_timer (sv_store sv) = Some h \<longrightarrow> th_room h"
    and req: "hm_get (rq_cookies req) ''SESSIONID'' = None" and life: "short_lived lifetime"
  shows "\<exists>s sv1 value. getSession (genRandromStr rands) lifetime now req sv = Inr sv1 \<and> sv_session sv1 = Some s \<and> isNew s \<and>
     (''set-cookie'', value) \<in> set (rb_header (sv_resp (associateRequestSession sv1))) \<and>
     (\<forall>req2 sv2 rnd2 life2 now2. hd_get (rq_header req2) ''Cookie'' = Some (cookie_pair value) \<and> sv_store sv2 = sv_store sv1 \<and>
        ts_plus now (ttl s) \<le> ts_plus now2 (ttl s) \<longrightarrow>
        (\<exists>req3 sv3. parseCookie req2 = Inr req3 \<and> getSession rnd2 life2 now2 req3 sv2 = Inr sv3 \<and>
           sv_session sv3 = Some (setStatus Accessed s) \<and> store_inv (sv_store sv3) \<and>
           dom (st_sessions (sv_store sv3)) = dom (st_sessions (sv_store sv2)) \<and>
           deadline (sv_store sv3) (se_id s) = Some (ts_plus now2 (ttl s))))"
proof -
  let ?sid = "session_name (genRandromStr rands)" and ?st = "sv_store sv"
  define s :: "'a session" where "s = HttpSession_new ?sid lifetime"
  have s: "se_id s = ?sid" "isNew s" "se_interval s = lifetime" "\<not> isDestroy s" by (simp_all add: s_def HttpSession_new_def isNew_def isDestroy_def)
  from newSession_ok [OF store(1,2) life, of now] store(3) s obtain st1 where st1:
    "newSession (genRandromStr rands) lifetime now ?st = Inr (s, st1)" "store_inv st1"
    "st_sessions st1 = (st_sessions ?st)(?sid \<mapsto> s)" "timers st1 = (timers ?st)(session_key ?sid \<mapsto> (ts_plus now (ttl s), Some ?sid))"
    by (auto simp: s_def [symmetric])
  let ?sv1 = "sv\<lparr>sv_session := Some s, sv_store := st1\<rparr>"
  have g: "getSession (genRandromStr rands) lifetime now req sv = Inr ?sv1"
    using st1(1) req by (simp add: getSession_def associateSession_def)
  have resume: "\<exists>req3 sv3. parseCookie req2 = Inr req3 \<and> getSession rnd2 life2 now2 req3 sv2 = Inr sv3 \<and>
           sv_session sv3 = Some (setStatus Accessed s) \<and> store_inv (sv_store sv3) \<and>
           dom (st_sessions (sv_store sv3)) = dom (st_sessions (sv_store sv2)) \<and>
           deadline (sv_store sv3) (se_id s) = Some (ts_plus now2 (ttl s))"
    if a: "hd_get (rq_header req2) ''Cookie'' = Some (cookie_pair (session_cookie ?sid))" "sv_store sv2 = sv_store ?sv1"
      "ts_plus now (ttl s) \<le> ts_plus now2 (ttl s)" for req2 and sv2 :: "'a svc" and rnd2 life2 now2
  proof -
    obtain r where r: "parseCookie req2 = Inr r" "rq_cookies r = hm_add (rq_cookies req2) ''SESSIONID'' ?sid"
      using session_cookie_read_back [OF refl a(1)] by blast
    have m: "st_sessions st1 ?sid = Some s" using st1(3) by simp
    have "\<exists>st2. accessSession now2 s st1 = Inr (setStatus Accessed s, st2) \<and> store_inv st2 \<and>
        st_sessions st2 = (st_sessions st1)(?sid \<mapsto> setStatus Accessed s) \<and>
        timers st2 = (timers st1)(session_key ?sid \<mapsto> (ts_plus now2 (ttl s), Some ?sid))"
      by (rule accessSession_ok [OF st1(2) m]) (use life s a(3) st1(4) in \<open>auto simp: deadline_def\<close>)
    then obtain st2 where st2: "accessSession now2 s st1 = Inr (setStatus Accessed s, st2)" "store_inv st2"
        "st_sessions st2 = (st_sessions st1)(?sid \<mapsto> setStatus Accessed s)"
        "timers st2 = (timers st1)(session_key ?sid \<mapsto> (ts_plus now2 (ttl s), Some ?sid))" by blast
    have "getSession rnd2 life2 now2 r sv2 = Inr (sv2\<lparr>sv_session := Some (setStatus Accessed s), sv_store := st2\<rparr>)"
      using r(2) m st2(1) a(2) s(4) by (simp add: getSession_def associateSession_def hm_get_def hm_add_def)
    moreover have "dom (st_sessions st2) = dom (st_sessions st1)" using m st2(3) by auto
    ultimately show ?thesis using r(1) st2(2,4) a(2) s(1)
      by (intro exI [of _ r] exI [of _ "sv2\<lparr>sv_session := Some (setStatus Accessed s), sv_store := st2\<rparr>"]) (simp add: deadline_def)
  qed
  show ?thesis
    using g s(1,2) session_cookie_set [of ?sv1 s] resume
    by (intro exI [of _ s] exI [of _ ?sv1] exI [of _ "session_cookie ?sid"]) auto
qed

theorem session_resumed_by_cookie_witness:
  "\<exists>s sv1 value. getSession (genRandromStr (replicate 16 7)) 60 (TimeStamp 5) rq_new demo_svc = Inr sv1 \<and> sv_session sv1 = Some s \<and> isNew s \<and>
     (''set-cookie'', value) \<in> set (rb_header (sv_resp (associateRequestSession sv1))) \<and>
     (\<forall>req2 sv2 rnd2 life2 now2. hd_get (rq_header req2) ''Cookie'' = Some (cookie_pair value) \<and> sv_store sv2 = sv_store sv1 \<and>
        ts_plus (TimeStamp 5) (ttl s) \<le> ts_plus now2 (ttl s) \<longrightarrow>
        (\<exists>req3 sv3. parseCookie req2 = Inr req3 \<and> getSession rnd2 life2 now2 req3 sv2 = Inr sv3 \<and>
           sv_session sv3 = Some (setStatus Accessed s) \<and> store_inv (sv_store sv3) \<and>
           dom (st_sessions (sv_store sv3)) = dom (st_sessions (sv_store sv2)) \<and>
           deadline (sv_store sv3) (se_id s) = Some (ts_plus now2 (ttl s))))"
proof (rule session_resumed_by_cookie)
  show "\<forall>h. st_timer (sv_store demo_svc) = Some h \<longrightarrow> th_room h" by (simp add: demo_svc_def svc_start_def no_sessions_def)
qed (simp_all add: demo_svc_def svc_start_def no_sessions_inv short_lived_def rq_new_def hm_get_def hm_new_def)

end
