(* ===== verification/HttpFullUrl.thy ===== *)
theory HttpFullUrl
  imports HttpRequest AppConfig
begin

text \<open>\<open>HttpRequest::getFullUrl\<close> of \<open>soc/http/src/HttpRequest.cc\<close>: the url of a request with the configured host and port.\<close>

definition full_url :: "ConfigMp \<Rightarrow> request \<Rightarrow> string res" where
  \<comment> \<open>the body of the function, with the exceptions of \<open>AppConfig\<close>\<close>
  "full_url m r =
     res_bind (GET_CONFIG as_bool m ''server'' ''enable_https'') (\<lambda>on_https.
     let has_host = config_exist m ''server'' ''server_hostname''; schema = (if on_https then ''https'' else ''http'')
     in res_bind (GET_CONFIG as_int m ''server'' ''listen_port'') (\<lambda>port.
     res_map (\<lambda>host. schema @ '':'' @ ''//'' @ host @ '':'' @ int_decimal port @ urlDecode (rq_req_url r))
       (if has_host then GET_CONFIG as_string m ''server'' ''server_hostname'' else GET_CONFIG as_string m ''server'' ''listen_ip'')))"

definition getFullUrl :: "ConfigMp \<Rightarrow> request \<Rightarrow> string res" where
  \<comment> \<open>\<open>noexcept\<close>: every exception ends the process\<close>
  "getFullUrl m r = (case full_url m r of Inl e \<Rightarrow> Inl Terminate | Inr url \<Rightarrow> Inr url)"

lemma getFullUrl_hostname:
  assumes "config_get m ''server'' ''enable_https'' = Inr (VBool https)" and "config_get m ''server'' ''listen_port'' = Inr (VInt port)"
    and "config_get m ''server'' ''server_hostname'' = Inr (VString host)"
  shows "getFullUrl m r = Inr ((if https then ''https'' else ''http'') @ ''://'' @ host @ '':'' @ int_decimal port @ urlDecode (rq_req_url r))"
proof -
  have "config_exist m ''server'' ''server_hostname''" using assms(3) by (auto simp: config_get_lookup split: option.splits)
  then show ?thesis using assms [folded GET_CONFIG_eq] by (simp add: getFullUrl_def full_url_def Let_def)
qed

lemma getFullUrl_ip:
  assumes "config_get m ''server'' ''enable_https'' = Inr (VBool https)" and "config_get m ''server'' ''listen_port'' = Inr (VInt port)"
    and "\<not> config_exist m ''server'' ''server_hostname''" and "config_get m ''server'' ''listen_ip'' = Inr (VString ip)"
  shows "getFullUrl m r = Inr ((if https then ''https'' else ''http'') @ ''://'' @ ip @ '':'' @ int_decimal port @ urlDecode (rq_req_url r))"
  using assms(1,2,4) [folded GET_CONFIG_eq] assms(3) by (simp add: getFullUrl_def full_url_def Let_def)

text \<open>A configuration without a port ends the process at the first call.\<close>

lemma getFullUrl_terminates: "config_get m ''server'' ''listen_port'' = Inl e \<Longrightarrow> getFullUrl m r = Inl Terminate"
  by (auto simp: getFullUrl_def full_url_def Let_def GET_CONFIG_def as_bool_def res_bind_def split: sum.splits Values.splits option.splits)

end
