(* ===== verification/ServerDate.thy ===== *)
theory ServerDate
  imports Cxx_Prelude
begin

text \<open>
  \<open>TimeStamp::getServerDate\<close> of \<open>soc/net/include/TimeStamp.h\<close>: the date of a response. The time in seconds since 1970 is
  an argument; \<open>gmtime\<close> and the conversions of \<open>strftime\<close> that the format uses are modelled for times from 1970 on.
\<close>

definition leap_year :: "nat \<Rightarrow> bool" where
  "leap_year y \<longleftrightarrow> 4 dvd y \<and> (\<not> 100 dvd y \<or> 400 dvd y)"

definition year_days :: "nat \<Rightarrow> nat" where
  "year_days y = (if leap_year y then 366 else 365)"

definition month_days :: "nat \<Rightarrow> nat list" where
  "month_days y = [31, if leap_year y then 29 else 28, 31, 30, 31, 30, 31, 31, 30, 31, 30, 31]"

record tm =
  tm_year :: nat
  tm_mon :: nat            \<comment> \<open>0 to 11\<close>
  tm_mday :: nat           \<comment> \<open>1 to 31\<close>
  tm_hour :: nat
  tm_min :: nat
  tm_sec :: nat
  tm_wday :: nat           \<comment> \<open>0: Sunday\<close>

function split_years :: "nat \<Rightarrow> nat \<Rightarrow> nat \<times> nat" where
  \<comment> \<open>the year and the day in it, for a number of days since the beginning of the year \<open>y\<close>\<close>
  "split_years y d = (if d < year_days y then (y, d) else split_years (Suc y) (d - year_days y))"
  by auto
termination by (relation "measure snd") (auto simp: year_days_def split: if_splits)

declare split_years.simps [simp del]

fun split_months :: "nat list \<Rightarrow> nat \<Rightarrow> nat \<times> nat" where
  "split_months [] d = (0, d)"
| "split_months (n # ns) d = (if d < n then (0, d) else let (m, r) = split_months ns (d - n) in (Suc m, r))"

definition gmtime :: "nat \<Rightarrow> tm" where
  "gmtime t =
     (let (y, yd) = split_years 1970 (t div 86400); (m, md) = split_months (month_days y) yd; s = t mod 86400
      in \<lparr>tm_year = y, tm_mon = m, tm_mday = md + 1, tm_hour = s div 3600, tm_min = s mod 3600 div 60, tm_sec = s mod 60,
          tm_wday = (t div 86400 + 4) mod 7\<rparr>)"

definition two_digits :: "nat \<Rightarrow> string" where
  "two_digits n = decimal (n div 10 mod 10) @ decimal (n mod 10)"

definition wday_name :: "nat \<Rightarrow> string" where
  "wday_name w = [''Sun'', ''Mon'', ''Tue'', ''Wed'', ''Thu'', ''Fri'', ''Sat''] ! w"

definition mon_name :: "nat \<Rightarrow> string" where
  "mon_name m = [''Jan'', ''Feb'', ''Mar'', ''Apr'', ''May'', ''Jun'', ''Jul'', ''Aug'', ''Sep'', ''Oct'', ''Nov'', ''Dec''] ! m"

definition date_text :: "tm \<Rightarrow> string" where
  "date_text g = wday_name (tm_wday g) @ '', '' @ two_digits (tm_mday g) @ '' '' @ mon_name (tm_mon g) @ '' '' @ decimal (tm_year g) @ '' '' @
     two_digits (tm_hour g) @ '':'' @ two_digits (tm_min g) @ '':'' @ two_digits (tm_sec g) @ '' GMT''"

definition getServerDate :: "nat \<Rightarrow> string" where
  \<comment> \<open>\<open>strftime\<close> writes nothing, and the zeroed array stays empty, when the text and its NUL need more than 50 bytes\<close>
  "getServerDate t = (let s = date_text (gmtime t) in if length s + 1 \<le> 50 then s else [])"


section \<open>The date belongs to the time\<close>

definition days_before_year :: "nat \<Rightarrow> nat" where
  "days_before_year y = sum_list (map year_days [1970..<y])"

definition seconds_of :: "tm \<Rightarrow> nat" where
  "seconds_of g = ((days_before_year (tm_year g) + sum_list (take (tm_mon g) (month_days (tm_year g))) + (tm_mday g - 1)) * 24 +
     tm_hour g) * 3600 + tm_min g * 60 + tm_sec g"

lemma split_years_ok:
  "1970 \<le> y \<Longrightarrow> split_years y d = (y', d') \<Longrightarrow> days_before_year y' + d' = days_before_year y + d \<and> d' < year_days y' \<and> y \<le> y'"
proof (induction y d rule: split_years.induct)
  case (1 y d)
  show ?case
  proof (cases "d < year_days y")
    case True
    then show ?thesis using "1.prems" by (simp add: split_years.simps [of y d])
  next
    case False
    then have "split_years (Suc y) (d - year_days y) = (y', d')" using "1.prems" by (simp add: split_years.simps [of y d])
    with "1.IH" [OF False] "1.prems"(1) False show ?thesis by (auto simp: days_before_year_def)
  qed
qed

lemma split_months_ok:
  "split_months ns d = (m, r) \<Longrightarrow> d < sum_list ns \<Longrightarrow> sum_list (take m ns) + r = d \<and> m < length ns \<and> r < ns ! m"
proof (induction ns arbitrary: d m)
  case (Cons n ns)
  show ?case
  proof (cases "d < n")
    case False
    then obtain k where k: "split_months ns (d - n) = (k, r)" "m = Suc k" using Cons.prems(1) by (auto split: prod.splits)
    have "d - n < sum_list ns" using Cons.prems(2) False by simp
    from Cons.IH [OF k(1) this] k(2) False show ?thesis by auto
  qed (use Cons.prems in auto)
qed simp

lemma day_seconds: "s div 3600 * 3600 + s mod 3600 div 60 * 60 + s mod 60 = (s :: nat)"
proof -
  have "s mod 60 = s mod 3600 mod 60" by (simp add: mod_mod_cancel)
  then have "s mod 3600 div 60 * 60 + s mod 60 = s mod 3600" by (simp only: div_mult_mod_eq)
  then show ?thesis using div_mult_mod_eq [of s 3600] by linarith
qed

lemma sum_month_days: "sum_list (month_days y) = year_days y"
  by (simp add: month_days_def year_days_def)

lemma gmtime_fields:
  "tm_mon (gmtime t) < 12 \<and> 1 \<le> tm_mday (gmtime t) \<and> tm_mday (gmtime t) \<le> month_days (tm_year (gmtime t)) ! tm_mon (gmtime t) \<and>
   tm_hour (gmtime t) < 24 \<and> tm_min (gmtime t) < 60 \<and> tm_sec (gmtime t) < 60 \<and> tm_wday (gmtime t) < 7 \<and> seconds_of (gmtime t) = t"
proof -
  obtain y yd where y: "split_years 1970 (t div 86400) = (y, yd)" by (cases "split_years 1970 (t div 86400)")
  obtain m md where m: "split_months (month_days y) yd = (m, md)" by (cases "split_months (month_days y) yd")
  have yy: "days_before_year y + yd = t div 86400" "yd < year_days y"
    using split_years_ok [OF _ y] by (simp_all add: days_before_year_def)
  have mm: "sum_list (take m (month_days y)) + md = yd" "m < 12" "md < month_days y ! m"
    using split_months_ok [OF m] yy(2) by (simp_all add: sum_month_days) (simp add: month_days_def)
  have s: "t mod 86400 div 3600 * 3600 + t mod 86400 mod 3600 div 60 * 60 + t mod 86400 mod 60 = t mod 86400" "t mod 86400 div 3600 < 24"
    using day_seconds [of "t mod 86400"] by (simp_all add: less_mult_imp_div_less)
  have g: "gmtime t = \<lparr>tm_year = y, tm_mon = m, tm_mday = md + 1, tm_hour = t mod 86400 div 3600, tm_min = t mod 86400 mod 3600 div 60,
      tm_sec = t mod 86400 mod 60, tm_wday = (t div 86400 + 4) mod 7\<rparr>" by (simp add: gmtime_def y m Let_def)
  have "days_before_year y + sum_list (take m (month_days y)) + md = t div 86400" using yy mm by simp
  moreover have "(a * 24 + b) * 3600 + c + e = a * 86400 + (b * 3600 + c + e)" for a b c e :: nat by simp
  ultimately have "seconds_of (gmtime t) = t div 86400 * 86400 + t mod 86400" by (simp only: g seconds_of_def tm.simps add_diff_cancel_right' s(1))
  moreover have "t mod 86400 mod 3600 div 60 < 60" by (simp add: less_mult_imp_div_less)
  ultimately show ?thesis using mm s(2) by (simp add: g)
qed

text \<open>Two different seconds never get the same broken-down time.\<close>

lemma gmtime_inj: "gmtime t = gmtime u \<Longrightarrow> t = u"
  using gmtime_fields [of t] gmtime_fields [of u] by metis

lemma length_two_digits: "length (two_digits n) = 2"
proof -
  have "decimal k = [char_of (48 + k)]" if "k < 10" for k using that by (subst decimal.simps) simp
  then show ?thesis by (simp add: two_digits_def)
qed

text \<open>The text has 29 characters until the year 9999, so the array of 50 bytes always holds it.\<close>

lemma getServerDate_text:
  assumes "tm_year (gmtime t) < 10000"
  shows "getServerDate t = date_text (gmtime t)" "length (getServerDate t) = 29"
proof -
  note f = gmtime_fields [of t]
  have y: "1000 \<le> tm_year (gmtime t)"
  proof -
    obtain y yd where "split_years 1970 (t div 86400) = (y, yd)" by (cases "split_years 1970 (t div 86400)")
    then show ?thesis using split_years_ok [of 1970 "t div 86400" y yd] by (simp add: gmtime_def split_beta Let_def)
  qed
  have "length (decimal n) = 4" if "1000 \<le> n" "n < 10000" for n
  proof -
    have "\<not> n < 10" "\<not> n div 10 < 10" "\<not> n div 10 div 10 < 10" "n div 10 div 10 div 10 < 10" using that by linarith+
    then show ?thesis
      by (simp add: decimal.simps [of n] decimal.simps [of "n div 10"] decimal.simps [of "n div 10 div 10"] decimal.simps [of "n div 10 div 10 div 10"])
  qed
  then have "length (decimal (tm_year (gmtime t))) = 4" using y assms by blast
  moreover have "length (wday_name w) = 3" if "w < 7" for w using that by (auto simp: wday_name_def numeral_eq_Suc less_Suc_eq)
  moreover have "length (mon_name m) = 3" if "m < 12" for m using that by (auto simp: mon_name_def numeral_eq_Suc less_Suc_eq)
  ultimately have "length (date_text (gmtime t)) = 29" using f by (simp add: date_text_def length_two_digits)
  then show "getServerDate t = date_text (gmtime t)" "length (getServerDate t) = 29" by (simp_all add: getServerDate_def Let_def)
qed

text \<open>The example of RFC 7231.\<close>

lemma server_date_example: "getServerDate 784111777 = ''Sun, 06 Nov 1994 08:49:37 GMT''"
proof -
  have y: "split_years 1970 9075 = (1994, 309)" by (simp add: split_years.simps year_days_def leap_year_def)
  have "gmtime 784111777 = \<lparr>tm_year = 1994, tm_mon = 10, tm_mday = 6, tm_hour = 8, tm_min = 49, tm_sec = 37, tm_wday = 0\<rparr>"
    by (simp add: gmtime_def y month_days_def leap_year_def)
  then show ?thesis
    by (simp add: getServerDate_def date_text_def two_digits_def wday_name_def mon_name_def decimal.simps char_of_def bit_0)
qed

end
