(* ===== verification/HttpJson.thy ===== *)
theory HttpJson
  imports HttpResponse JsonFormatter
begin

text \<open>
  JSON bodies of responses (\<open>HttpResponseBuilder::setBodyJson\<close> of
  \<open>soc/http/include/HttpResponse.h\<close>).
\<close>

definition setBodyJson :: "'d json_env \<Rightarrow> ((string \<times> bool) \<times> 'd json) list \<Rightarrow> bool \<Rightarrow> builder \<Rightarrow> builder res" where
  "setBodyJson E root format b =
     res_bind (if format
       then json_format E (set_source_object root \<lparr>jf_indent = 4, jf_escape = True, jf_object = None, jf_array = None\<rparr>)
       else json_toString E (JsonObject root)) (\<lambda>body.
     res_map (\<lambda>b. b\<lparr>rb_header := hd_add (rb_header b) ''Content-Type'' ''application/json; charset=utf-8''\<rparr>) (setBody body b))"

lemma setBodyJson_ok:
  assumes "json_format E \<lparr>jf_indent = 4, jf_escape = True, jf_object = Some root, jf_array = None\<rparr> = Inr body"
    and "buf_inv (rb_tmp b)" and "buf_room (reset_buf (rb_tmp b)) (length body)" and "header_inv (rb_header b)"
  shows "\<exists>b'. setBodyJson E root True b = Inr b' \<and> buf_view (rb_tmp b') = body \<and> \<not> rb_resp_file b' \<and>
     hd_get (rb_header b') ''Content-Type'' = Some ''application/json; charset=utf-8''"
proof -
  obtain t where "append_buf (reset_buf (rb_tmp b)) body = Inr t" "buf_view t = body"
    using append_buf_ok [of "reset_buf (rb_tmp b)" body 0] assms(2,3) by auto
  moreover have "hd_get (hd_add (rb_header b) ''Content-Type'' ''application/json; charset=utf-8'') ''Content-Type'' = Some ''application/json; charset=utf-8''"
    using hd.add_law [OF assms(4)] by (simp add: starts_with_def toLowers_map tolower_def isupper_def)
  ultimately show ?thesis using assms(1) by (simp add: setBodyJson_def set_source_object_def setBody_def appendBody_def)
qed

text \<open>
  A body is printed with \<open>escape\<close> set: a string added by \<open>JsonObject::add\<close> (\<open>isEscaped\<close> is
  true by default) is copied as it is, quotes and line breaks included.
\<close>

lemma json_body_not_escaped:
  "setBodyJson E [((''k'', True), JsonString s True)] False b = setBodyJson E [((''k'', True), JsonString s False)] False b"
  "fmt_value E indent True depth (JsonString s True) = Inr (quoted s)"
  by (simp_all add: setBodyJson_def string_toString_def)

end
