(* ===== verification/FileUtil.thy ===== *)
theory FileUtil
  imports Cxx_Prelude
begin

text \<open>
  \<open>soc/utility\<close> (\<open>FileUtil.h\<close>, \<open>FileUtil.cc\<close>): reading a text file line by line. The file
  system is an argument that gives the bytes of a file, or \<open>None\<close> when it cannot be opened.
\<close>

record file_stream =
  fl_rest :: string     \<comment> \<open>the bytes not yet read\<close>
  fl_eof :: bool        \<comment> \<open>the end-of-file indicator\<close>

type_synonym file_util = "file_stream option"   \<comment> \<open>\<open>fp_\<close>\<close>

definition newline :: char where
  "newline = CHR 0x0A"

definition FileUtil_load :: "(string \<Rightarrow> string option) \<Rightarrow> string \<Rightarrow> file_util \<Rightarrow> bool \<times> file_util" where
  "FileUtil_load fs file fp =
     (if fp \<noteq> None then (False, fp)
      else (True, map_option (\<lambda>bytes. \<lparr>fl_rest = bytes, fl_eof = False\<rparr>) (fs file)))"

definition FileUtil_new :: "(string \<Rightarrow> string option) \<Rightarrow> string \<Rightarrow> file_util" where
  "FileUtil_new fs file = snd (FileUtil_load fs file None)"

definition isOpen :: "file_util \<Rightarrow> bool" where
  "isOpen fp \<longleftrightarrow> fp \<noteq> None"

definition fgets :: "nat \<Rightarrow> file_stream \<Rightarrow> string option \<times> file_stream" where
  \<comment> \<open>at most \<open>n - 1\<close> bytes, up to and with the first line break; the indicator is set when the end is met\<close>
  "fgets n f =
     (let line = takeWhile (\<lambda>c. c \<noteq> newline) (fl_rest f);
          chunk = take (n - 1) (if newline \<in> set (fl_rest f) then line @ [newline] else line)
      in if chunk = [] then (None, f\<lparr>fl_eof := True\<rparr>)
         else (Some chunk, f\<lparr>fl_rest := drop (length chunk) (fl_rest f),
                 fl_eof := fl_eof f \<or> (length chunk < n - 1 \<and> newline \<notin> set chunk)\<rparr>))"

definition readLine :: "file_util \<Rightarrow> string option \<times> file_util" where
  \<comment> \<open>\<open>None\<close>: \<open>false\<close>. The array ends at its first NUL for \<open>strchr\<close> and \<open>strlen\<close>.\<close>
  "readLine fp =
     (case fp of None \<Rightarrow> (None, None)
      | Some f \<Rightarrow>
          if fl_eof f then (None, Some f)
          else (case fgets 1024 f of
                  (None, f) \<Rightarrow> (None, Some f)
                | (Some chunk, f) \<Rightarrow> (Some (takeWhile (\<lambda>c. c \<noteq> newline) (takeWhile (\<lambda>c. c \<noteq> NUL) chunk)), Some f)))"

definition FileUtil_delete :: "file_util \<Rightarrow> file_util" where
  "FileUtil_delete fp = None"

text \<open>
  Descriptors: an open file is what it holds from its offset on; \<open>openFile\<close> gets the descriptor the kernel gives.
\<close>

datatype node = Regular string | Directory

type_synonym open_files = "int \<rightharpoonup> string"

definition openFile :: "int \<Rightarrow> (string \<Rightarrow> node option) \<Rightarrow> string \<Rightarrow> open_files \<Rightarrow> int \<times> open_files" where
  \<comment> \<open>a directory can be opened too; nothing can be read from it\<close>
  "openFile fd fs file t =
     (case fs (c_str file) of None \<Rightarrow> (-1, t) | Some (Regular bytes) \<Rightarrow> (fd, t(fd \<mapsto> bytes)) | Some Directory \<Rightarrow> (fd, t(fd \<mapsto> [])))"

definition closeFile :: "int \<Rightarrow> open_files \<Rightarrow> open_files" where
  "closeFile fd t = t(fd := None)"

definition file_read :: "int \<Rightarrow> size_t \<Rightarrow> open_files \<Rightarrow> (int \<times> string) \<times> open_files" where
  \<comment> \<open>the result and the bytes written to \<open>data\<close>\<close>
  "file_read fd sz t =
     (case t fd of None \<Rightarrow> ((-1, []), t) | Some bytes \<Rightarrow> ((int (length (take sz bytes)), take sz bytes), t(fd \<mapsto> drop sz bytes)))"

definition file_exist :: "(string \<Rightarrow> node option) \<Rightarrow> string \<Rightarrow> bool" where
  "file_exist fs file \<longleftrightarrow> (case fs (c_str file) of Some (Regular bytes) \<Rightarrow> True | _ \<Rightarrow> False)"

fun read_blocks :: "nat \<Rightarrow> int \<Rightarrow> size_t \<Rightarrow> open_files \<Rightarrow> string" where
  "read_blocks 0 fd sz t = []"
| "read_blocks (Suc n) fd sz t = (case file_read fd sz t of ((r, bytes), t) \<Rightarrow> if r \<le> 0 then [] else bytes @ read_blocks n fd sz t)"

definition unread :: "file_util \<Rightarrow> nat" where
  "unread fp = (case fp of None \<Rightarrow> 0 | Some f \<Rightarrow> length (fl_rest f))"

lemma fgets_shrinks: "fgets n f = (Some chunk, f') \<Longrightarrow> length (fl_rest f') < length (fl_rest f)"
  by (auto simp: fgets_def Let_def split: if_splits intro!: diff_less dest!: arg_cong [of _ _ set])

lemma readLine_shrinks: "readLine fp = (Some line, fp') \<Longrightarrow> unread fp' < unread fp"
  by (auto simp: readLine_def unread_def fgets_shrinks split: option.splits if_splits prod.splits)

function read_lines :: "file_util \<Rightarrow> string list" where
  \<comment> \<open>the lines of \<open>while (readLine(line))\<close>\<close>
  "read_lines fp = (case readLine fp of (None, _) \<Rightarrow> [] | (Some line, fp) \<Rightarrow> line # read_lines fp)"
  by pat_completeness auto
termination
  by (relation "measure unread") (auto simp: readLine_shrinks [OF sym])

declare read_lines.simps [simp del]

definition line_ok :: "string \<Rightarrow> bool" where
  \<comment> \<open>the line and its end fit into the array of 1024 bytes\<close>
  "line_ok l \<longleftrightarrow> length l < 1023 \<and> newline \<notin> set l \<and> NUL \<notin> set l"

lemma readLine_line:
  assumes "line_ok l"
  shows "readLine (Some \<lparr>fl_rest = l @ newline # rest, fl_eof = False\<rparr>) = (Some l, Some \<lparr>fl_rest = rest, fl_eof = False\<rparr>)"
proof -
  have l: "takeWhile (\<lambda>c. c \<noteq> newline) (l @ newline # rest) = l" "takeWhile (\<lambda>c. c \<noteq> newline) (l @ [newline]) = l"
    using assms by (auto simp: line_ok_def takeWhile_append2 takeWhile_tail)
  have "newline \<noteq> NUL" by (simp add: newline_def NUL_def)
  then have "takeWhile (\<lambda>c. c \<noteq> NUL) (l @ [newline]) = l @ [newline]"
    using assms by (auto simp: line_ok_def)
  moreover have "take (1023 - length l) [newline] = [newline]" "min (Suc 0) (1023 - length l) = Suc 0"
    using assms by (auto simp: line_ok_def take_Cons' min_def)
  ultimately show ?thesis using l assms by (simp add: readLine_def fgets_def line_ok_def)
qed

lemma read_lines_text:
  assumes "\<forall>l \<in> set ls. line_ok l"
  shows "read_lines (Some \<lparr>fl_rest = concat (map (\<lambda>l. l @ [newline]) ls), fl_eof = False\<rparr>) = ls"
  using assms
proof (induction ls)
  case Nil
  show ?case by (subst read_lines.simps) (simp add: readLine_def fgets_def)
next
  case (Cons l ls)
  then show ?case by (subst read_lines.simps) (simp add: readLine_line)
qed

text \<open>A file that cannot be opened is reported as loaded.\<close>

lemma load_missing_file: "fs file = None \<Longrightarrow> FileUtil_load fs file None = (True, None)"
  by (simp add: FileUtil_load_def)

text \<open>Reading block by block until nothing is left gives the bytes of the file, however large the blocks are.\<close>

lemma read_blocks_all:
  assumes "t fd = Some bytes" and "0 < sz" and "length bytes \<le> n"
  shows "read_blocks n fd sz t = bytes"
  using assms
proof (induction n arbitrary: t bytes)
  case (Suc n)
  show ?case
  proof (cases "bytes = []")
    case False
    have "read_blocks n fd sz (t(fd \<mapsto> drop sz bytes)) = drop sz bytes"
      using Suc.prems False by (intro Suc.IH) auto
    then show ?thesis using Suc.prems False by (simp add: file_read_def)
  qed (use Suc.prems in \<open>simp add: file_read_def\<close>)
qed simp

lemma existing_file_opens:
  assumes "file_exist fs file" and "0 < sz"
  shows "\<exists>bytes. fs (c_str file) = Some (Regular bytes) \<and> fst (openFile fd fs file t) = fd \<and>
     read_blocks (length bytes) fd sz (snd (openFile fd fs file t)) = bytes"
  using assms by (auto simp: file_exist_def openFile_def read_blocks_all split: option.splits node.splits)

end
