(* ===== verification/HttpPassStore.thy ===== *)
theory HttpPassStore
  imports HttpAuth FileUtil AppConfig
begin

text \<open>
  \<open>HttpPassStore::HttpPassStore\<close> of \<open>soc/http/include/HttpPassStore.h\<close>: the store of credentials
  is filled from the file that the configuration names.
\<close>

definition ps_new :: "ConfigMp \<Rightarrow> (string \<Rightarrow> string option) \<Rightarrow> pass_store res" where
  "ps_new config fs =
     res_bind (GET_CONFIG as_string config ''server'' ''authenticate_realm'') (\<lambda>realm.
     res_bind (GET_CONFIG as_string config ''server'' ''user_pass_file'') (\<lambda>file.
       let loader = FileUtil_new fs file
       in ps_load realm (if isOpen loader then Some (read_lines loader) else None)))"

definition user_line :: "string \<times> string \<Rightarrow> string" where
  "user_line = (\<lambda>(user, digest). user @ '':'' @ digest)"

definition user_file :: "(string \<times> string) list \<Rightarrow> string" where
  "user_file users = concat (map (\<lambda>u. user_line u @ [newline]) users)"

definition users_ok :: "(string \<times> string) list \<Rightarrow> bool" where
  "users_ok users \<longleftrightarrow> (\<forall>u \<in> set users. line_ok (user_line u) \<and> CHR '':'' \<notin> set (fst u) \<and> 32 \<le> length (snd u))"

lemma ps_add_user:
  assumes "line_ok (user_line (u, d))" and "CHR '':'' \<notin> set u"
  shows "ps_add_line m (user_line (u, d)) = Inr (hm_add m u d)"
proof -
  have "sv_find_first_of (user_line (u, d)) (CHR '':'') = length u"
  proof -
    have "\<forall>x \<in> set u. x \<noteq> CHR '':''" using assms(2) by auto
    then show ?thesis using search_if_append_hit [of u "\<lambda>x. x = CHR '':''" "CHR '':''" d]
      by (simp add: user_line_def sv_find_first_of_def or_npos_def)
  qed
  moreover have "length u < 1023" "length d < 1023" using assms(1) by (auto simp: line_ok_def user_line_def)
  ultimately show ?thesis by (simp add: ps_add_line_def sv_substr_def size_add_def npos_def user_line_def)
qed

lemma ps_load_users:
  assumes "users_ok users"
  shows "\<exists>m. res_fold ps_add_line (map user_line users) m0 = Inr m \<and> (\<forall>u. hm_get m u = (m0 ++ map_of (rev users)) u)"
  using assms
proof (induction users arbitrary: m0)
  case (Cons ud users)
  obtain u d where ud: "ud = (u, d)" by (cases ud)
  with Cons.prems have "ps_add_line m0 (user_line ud) = Inr (hm_add m0 u d)" by (simp add: users_ok_def ps_add_user)
  moreover from Cons.prems have "users_ok users" by (simp add: users_ok_def)
  then obtain m where "res_fold ps_add_line (map user_line users) (hm_add m0 u d) = Inr m" "\<forall>v. hm_get m v = (hm_add m0 u d ++ map_of (rev users)) v"
    using Cons.IH by blast
  ultimately show ?case using ud by (simp add: hm_add_def)
qed (simp add: hm_get_def split: option.split)

text \<open>
  C25. With a configuration that names a realm and a file of lines \<open>user:digest\<close>, the store is
  loaded from the file and Basic credentials are accepted exactly when the last line of the user begins
  with the digest of \<open>user:realm:password\<close>; a user the file does not name is never accepted.
\<close>

theorem configured_users_authenticate:
  assumes "config_get config ''server'' ''authenticate_realm'' = Inr (VString realm)"
    and "config_get config ''server'' ''user_pass_file'' = Inr (VString file)"
    and "fs file = Some (user_file users)" and "users_ok users"
    and "length (MD5 (user @ '':'' @ realm @ '':'' @ pass)) = 16"
  shows "\<exists>ps a. ps_new config fs = Inr ps \<and> HttpBasicAuth MD5 ps user pass = Inr a \<and>
     (au_verified a \<longleftrightarrow> (\<exists>d. map_of (rev users) user = Some d \<and> starts_with d (md5Hash MD5 (user @ '':'' @ realm @ '':'' @ pass))))"
proof -
  have "read_lines (Some \<lparr>fl_rest = user_file users, fl_eof = False\<rparr>) = map user_line users"
    using read_lines_text [of "map user_line users"] assms(4) by (simp add: users_ok_def user_file_def comp_def)
  moreover obtain m where m: "res_fold ps_add_line (map user_line users) hm_new = Inr m" "\<forall>u. hm_get m u = map_of (rev users) u"
    using ps_load_users [OF assms(4), of hm_new] by (auto simp: hm_new_def)
  ultimately have ps: "ps_new config fs = Inr \<lparr>ps_user_pass = m, ps_realm = realm\<rparr>"
    using assms(1-3) by (simp add: ps_new_def GET_CONFIG_def as_string_def FileUtil_new_def FileUtil_load_def isOpen_def ps_load_def)
  have "map_of (rev users) user = Some d \<Longrightarrow> 32 \<le> length d" for d
    using assms(4) by (fastforce simp: users_ok_def dest: map_of_SomeD)
  with m(2) basic_auth_iff [of MD5 user "\<lparr>ps_user_pass = m, ps_realm = realm\<rparr>" pass] assms(5) ps show ?thesis
    by (auto simp: fetch_def)
qed

theorem configured_users_authenticate_witness:
  "\<exists>ps a. ps_new [''server'' \<mapsto> [''authenticate_realm'' \<mapsto> VString ''r'', ''user_pass_file'' \<mapsto> VString ''f'']]
       [''f'' \<mapsto> user_file [(''u'', replicate 32 (CHR ''0''))]] = Inr ps \<and>
     HttpBasicAuth (\<lambda>s. replicate 16 NUL) ps ''u'' ''p'' = Inr a \<and> au_verified a"
proof -
  let ?users = "[(''u'', replicate 32 (CHR ''0''))]"
  have "md5Hash (\<lambda>s. replicate 16 NUL) s = replicate 32 (CHR ''0'')" for s
    using to_hex_zeros [of 16] by (simp add: md5Hash_def)
  moreover have "users_ok ?users" by (simp add: users_ok_def line_ok_def user_line_def newline_def NUL_def)
  ultimately show ?thesis
    using configured_users_authenticate [of "[''server'' \<mapsto> [''authenticate_realm'' \<mapsto> VString ''r'', ''user_pass_file'' \<mapsto> VString ''f'']]"
      "''r''" "''f''" "[''f'' \<mapsto> user_file ?users]" ?users "\<lambda>s. replicate 16 NUL" "''u''" "''p''"]
    by (auto simp: config_get_def starts_with_def)
qed

end
