(* ===== verification/Logger.thy ===== *)
theory Logger
  imports Cxx_Prelude
begin

text \<open>
  \<open>soc/utility/include/Logger.h\<close>: the text of a log line. The message after \<open>snprintf\<close> has
  expanded it and the time as \<open>strftime\<close> prints it are arguments.
\<close>

datatype log_level = LV_INFO | LV_WARN | LV_DEBUG | LV_ERROR

definition level_text :: "log_level \<Rightarrow> string" where
  "level_text lv = (case lv of LV_INFO \<Rightarrow> ''INFO'' | LV_WARN \<Rightarrow> ''WARN'' | LV_DEBUG \<Rightarrow> ''DEBUG'' | LV_ERROR \<Rightarrow> ''ERROR'')"

definition kMaxLineBuffer :: nat where
  "kMaxLineBuffer = 512"

definition ESC :: string where
  "ESC = [CHR 0x1B]"

definition logger_format :: "nat \<Rightarrow> nat \<Rightarrow> log_level \<Rightarrow> string \<Rightarrow> int \<Rightarrow> string \<Rightarrow> string \<Rightarrow> string res" where
  \<comment> \<open>\<open>snprintf\<close> is given the length of the message, not of the array; a NUL ends the message\<close>
  "logger_format fc cc lv stamp line file message =
     (if length message + 1 > kMaxLineBuffer then Inl OutOfBounds
      else let body = ''['' @ level_text lv @ '']:['' @ stamp @ '']:['' @ int_decimal line @ '']:['' @ file @ ''] '' @ takeWhile (\<lambda>c. c \<noteq> NUL) message
           in Inr (if fc \<noteq> 0 \<and> cc \<noteq> 0 then ESC @ ''['' @ decimal fc @ '';'' @ decimal cc @ ''m'' @ body @ ESC @ ''[0m'' @ [CHR 0x0A]
                   else if fc = 0 \<and> cc = 0 then body @ [CHR 0x0A]
                   else ESC @ ''['' @ decimal (if fc \<noteq> 0 then fc else cc) @ ''m'' @ body @ ESC @ ''[0m'' @ [CHR 0x0A]))"

definition LOG_INFO :: "string \<Rightarrow> int \<Rightarrow> string \<Rightarrow> string \<Rightarrow> string res" where
  "LOG_INFO = logger_format 32 1 LV_INFO"

definition LOG_WARN :: "string \<Rightarrow> int \<Rightarrow> string \<Rightarrow> string \<Rightarrow> string res" where
  "LOG_WARN = logger_format 33 1 LV_WARN"

definition LOG_DEBUG :: "string \<Rightarrow> int \<Rightarrow> string \<Rightarrow> string \<Rightarrow> string res" where
  "LOG_DEBUG = logger_format 0 1 LV_DEBUG"

definition LOG_ERROR :: "string \<Rightarrow> int \<Rightarrow> string \<Rightarrow> string \<Rightarrow> string res" where
  "LOG_ERROR = logger_format 31 1 LV_ERROR"

text \<open>A message of 512 bytes or more is written past the array.\<close>

lemma logger_overflow_iff: "logger_format fc cc lv stamp line file message = Inl OutOfBounds \<longleftrightarrow> 512 \<le> length message"
  by (auto simp: logger_format_def kMaxLineBuffer_def Let_def)

end
