(* ===== verification/Spec2Isabelle.thy ===== *)
theory Spec2Isabelle
  imports HttpServerRun SessionCookie HttpFullUrl ServerDate HttpJson HttpPassStore InetAddress Logger
begin

text \<open>
  A verification development of socnet-cpp, an HTTP server in C++ (the sources are under
  \<open>src/soc\<close>).

  \<^bold>\<open>The program.\<close> A \<open>TcpServer\<close> runs an event loop around epoll: it accepts connections, turns
  readable and writable events into tasks of a thread pool, and closes idle connections by a timer heap
  behind a timerfd. A task reads what the socket has into the connection's buffer and calls the message
  callback, or writes what is pending. The callback is \<open>HttpServer::onMessage\<close>: it parses the
  request, dispatches it to a service, to a regular expression, to a mounted directory or to PHP-FPM,
  lets the error service answer errors, and leaves the response on the connection's channel: the head in
  the send buffer, the body in the buffer, in a memory mapping or in a file for \<open>sendfile\<close>.
  Sessions are kept in a table with a second timer heap. Everything is set up from a JSON configuration file;
  \<open>quit\<close> ends the loop through an eventfd.

  \<^bold>\<open>Theories and sources.\<close>
  \<^item> \<open>Cxx_Prelude\<close>: results (\<open>res\<close>: an error or a value; \<open>run\<close>: \<open>None\<close> while a loop has
    not ended), \<open>size_t\<close> and \<open>int\<close> arithmetic with its wrap-around and overflow, strings, characters.
  \<^item> \<open>Buffer\<close> (\<open>net/include/Buffer.h\<close>): the byte buffer; it refines a queue of bytes (locale
    \<open>byte_queue\<close> and its interpretation).
  \<^item> \<open>TimeStamp\<close>, \<open>TimerHeap\<close>, \<open>TimerQueue\<close> (\<open>net\<close>): time in 64-bit microseconds, the indexed
    binary heap, which refines a finite map with minimum (locale \<open>timer_queue\<close>), and running the due
    timers.
  \<^item> \<open>EncodeUtil\<close>, \<open>Base64\<close> (\<open>utility\<close>, \<open>modules/base64\<close>): hexadecimal, MD5 callers,
    MurmurHash2, percent encoding, Base64.
  \<^item> \<open>HttpMap\<close> (\<open>HttpMap.h\<close>, \<open>HttpHeader\<close>, \<open>HttpCookie\<close>): the two implementations of the
    interface \<open>Map\<close> (locale \<open>assoc_map\<close>), parsing and printing of headers and cookies.
  \<^item> \<open>HttpMultiPart\<close>, \<open>HttpAuth\<close>, \<open>HttpRequest\<close> (\<open>http\<close>): the parsers of a request.
  \<^item> \<open>Channel\<close> (\<open>net/Channel\<close>, \<open>net/TcpConnection\<close>): reading and writing of a connection.
  \<^item> \<open>HttpUtil\<close>, \<open>HttpResponse\<close>: status codes, content types, building a response.
  \<^item> \<open>FastCgi\<close> (\<open>modules/php-fastcgi\<close>): the records sent to PHP-FPM and the reading of its answer.
  \<^item> \<open>HttpSession\<close>: sessions and their timers.
  \<^item> \<open>TcpServer\<close> (\<open>net/TcpServer\<close>, \<open>net/EPoller\<close>, \<open>net/ThreadPool\<close>): the event loop, the pool and
    the tasks, and the step relation \<open>srv_step\<close> of their interleavings; the locale \<open>tcp_callbacks\<close> says
    what the callbacks of the application must leave alone.
  \<^item> \<open>ServerSocket\<close>, \<open>ServerSsl\<close>, \<open>ChannelClose\<close> (\<open>net/ServerSocket\<close>, \<open>net/ServerSsl\<close>, the destructors of
    \<open>net/Channel\<close>): the sockets as a table of the kernel, the TLS context, and what is given back when a
    channel is closed. \<open>TcpServerRun\<close>: constructor, setters, \<open>start\<close>, \<open>quit\<close>, destructor of \<open>TcpServer\<close>, and
    accepting with sockets and TLS.
  \<^item> \<open>HttpServer\<close> (\<open>http/HttpServer\<close>, \<open>http/HttpService\<close>): dispatch, PHP, the message callback, and its
    interpretation as the application of a \<open>TcpServer\<close>. \<open>HttpServerRun\<close>: its construction from the
    configuration, \<open>start\<close>, \<open>quit\<close>, the connection to PHP-FPM. \<open>SessionCookie\<close>: a session across two requests.
    \<open>HttpFullUrl\<close>: \<open>HttpRequest::getFullUrl\<close>. \<open>ServerDate\<close>: the date of a response.
  \<^item> \<open>JsonLexer\<close>, \<open>JsonParser\<close>, \<open>JsonFormatter\<close> (\<open>libjson\<close>): reader, tokens, lexer and escapes; values and
    the parser; the printer, and the locale \<open>object_codec\<close>, the contract that what is printed is read back.
  \<^item> \<open>HttpJson\<close>: JSON bodies of responses. \<open>AppConfig\<close> (\<open>utility/AppConfig\<close>): the configuration read from a
    file, with a second interpretation of \<open>object_codec\<close> for the stream reader, which drops white space.
  \<^item> \<open>FileUtil\<close>, \<open>InetAddress\<close>, \<open>Logger\<close> (\<open>utility\<close>, \<open>net/InetAddress\<close>): lines of a file, addresses, log lines.
    \<open>HttpPassStore\<close>: the credentials loaded from the file that the configuration names.
  \<^item> This theory: the properties that span components.

  \<^bold>\<open>What the lemmas show.\<close> For the data structures: an invariant that every operation keeps and a
  refinement of an abstract structure (queue, map with minimum, map). For the formats: round trips
  (headers, cookies, queries, percent encoding, Base64, FastCGI name-value pairs, JSON objects) and that a
  well-formed request or multipart body is parsed to exactly its parts. For the responses: \<open>build\<close>
  leaves exactly the head and the body on the channel, and whatever the kernel takes at each call the
  peer gets these bytes once and in order; \<open>static_file_served\<close> composes parsing, dispatch, building
  and sending. For the server: in every interleaving of event loop and workers each open connection has
  exactly one holder, no event handler fails, and the timers close exactly the idle connections; from the
  configuration file the server reaches the first of these states (\<open>server_starts_from_config_file\<close>), its loop
  is a sequence of these steps and returns exactly when it is woken (\<open>start_returns_when_woken\<close>), and what
  accepting does to sockets and TLS refines the handler (\<open>accept_refines\<close>). The
  theorems about errors say on which inputs the code fails, overruns an array or never returns.

  \<^bold>\<open>Outside inputs.\<close> The kernel, the clock, the file system, OpenSSL, zlib, MD5, regular expressions,
  PHP-FPM, random numbers, the conversions between text and \<open>double\<close> or UTF-8 and the services of an application are arguments of the definitions: functions
  or lists of answers. What a theorem needs of them is among its hypotheses.

  \<^bold>\<open>Bounds and fuel.\<close> Loops that end are recursive functions with a measure. Loops that may not end take
  fuel or the list of the kernel's answers, and \<open>None\<close> means that the loop is still running: the
  multipart parser is decided by twice as many turns as the body has bytes
  (\<open>mp_parse_ends_or_hangs\<close>), the request parser needs four turns (\<open>parseRequest_four_turns\<close>), the
  write loop as many calls as there are bytes left (\<open>response_completes\<close>),
  the JSON lexer and parser two per character and two more (\<open>json_roundtrip\<close>, \<open>parse_returns\<close>; a literal
  that is not closed is never left, \<open>unterminated_string_never_returns\<close>). Buffers are bounded by
  \<open>max_size\<close>; the hypotheses \<open>buf_room\<close> say that there is address space for what is appended.

  \<^bold>\<open>Concurrency.\<close> An operation that holds a mutex from its first to its last statement is one step, and
  so are a task and the dispatch of one event. Interleavings inside a task are not modelled: the data
  races of the workers and the event loop on a connection that times out, or on the session timer, appear
  only as the steps' order (\<open>timed_out_task_dereferences_null\<close>).

  \<^bold>\<open>Not modelled.\<close> The insides of the libraries named under outside
  inputs; accessors that return a field, which are the selectors of the records; the forwarding members of
  \<open>HttpResponse\<close>, which call the builder's member of the same name; the record types of \<open>FastCgi.h\<close> that no
  code uses; memory management except what is given back to the kernel.
\<close>

section \<open>From a request to the bytes of its response\<close>

text \<open>
  C1. A whole request for a file below a mounted directory, parsed from the receive buffer, is answered
  with a status line of the request's version, code 200, the content type of the file's extension, the
  length of the body on a persistent connection, and exactly the contents of the file (compressed when
  the client asked for it and the type allows it); however the socket takes the bytes, the peer gets
  them once and in order.
\<close>

theorem static_file_served:
  assumes conn: "cn_channel conn = Some ch" "context_ptr conn = None" "\<not> disconnected conn" "idle ch" "buf_view (sender ch) = []"
      "use_sendfile ch \<longrightarrow> ch_type ch = Raw" "buf_room (sender ch) 2147483648"
    and msg: "buf_inv (recver ch)" "buf_view (recver ch) = request_text m path q v es form" "m \<noteq> HEAD"
      "CHR '' '' \<notin> set path" "CHR ''?'' \<notin> set path" "\<forall>e \<in> set es. field_ok e" "hd_add_all [] es \<noteq> []"
      "hd_get (hd_add_all [] es) ''Cookie'' = None" "hd_get (hd_add_all [] es) ''Content-Type'' = None"
      "hd_get (hd_add_all [] es) ''Authorization'' = None"
    and fl: "urlDecode path = prefix @ rest" "hs_services s (urlDecode path) = None" "serves_file io (dir @ rest) type"
      "io_fs io (c_str (dir @ rest)) = Some f" "io_mmap io"
      "\<forall>x \<in> set [fl_bytes f, io_gzip io (fl_bytes f), fl_mtime f, type, io_date io]. length x < 268435456"
  shows "\<exists>conn' ch' b body. onMessage fuel ev io s [(prefix, dir)] [] conn st = Some (Inr (True, conn', st)) \<and>
     cn_channel conn' = Some ch' \<and> context_ptr conn' = None \<and>
     rb_version b = Some v \<and> hd_get (rb_header b) ''Content-Type'' = Some type \<and>
     (keep_alive conn' \<longrightarrow> hd_get (rb_header b) ''Content-Length'' = Some (decimal (length body))) \<and>
     body = (if rb_compressed b \<and> fl_bytes f \<noteq> [] then io_gzip io (fl_bytes f) else fl_bytes f) \<and>
     (\<forall>evs. (\<forall>os\<in>set evs. event_ok os (length (response_head ''OK'' b @ body))) \<longrightarrow>
        (\<exists>cflag out ch''. write_events evs ch' = Some (Inr (cflag, out, ch'')) \<and>
           (if cflag then out = response_head ''OK'' b @ body \<and> (\<exists>c. ch'' = reset_chan c)
            else \<exists>rest. rest \<noteq> [] \<and> response_head ''OK'' b @ body = out @ rest)))"
proof -
  from parse_request_text [OF msg(1,2,4-10), of fuel ev] obtain b' r where
    p: "parseRequest fuel ev (recver ch) rq_new = Some (Inr (REQUEST_CONTENT_DONE, b', r))"
    and r: "rq_method r = Some m" "rq_version r = Some v" "rq_url r = prefix @ rest" using fl(1) by metis
  let ?env = "io_env.truncate io" and ?r = "rq_reset r" and ?ch = "ch\<lparr>recver := b'\<rparr>"
  let ?sv = "svc_start io ?r st"
  define b where "b = file_response (dir @ rest) type (rb_new ?env ?r)"
  have env: "io_fs ?env = io_fs io" "io_mmap ?env = io_mmap io" "io_gzip ?env = io_gzip io" "io_date ?env = io_date io"
    by (simp_all add: io_env.defs)
  have h: "handle_request io s [(prefix, dir)] [] ?r ?sv = Some (Inr (?sv\<lparr>sv_resp := b\<rparr>))"
    using handle_request_file [of s ?r prefix io dir type ?sv] r fl(1-3)
    by (simp add: rq_reset_def svc_start_def b_def) (simp add: rb_new_def)
  have bs: "rb_code b = 200" "rb_version b = Some v" "rb_method b = Some m" "rb_resp_file b" "rb_file_name b = dir @ rest"
    "header_inv (rb_header b)"
    using r rb_new_header(1) by (simp_all add: b_def file_response_def setBodyFile_def setHeader_def rb_new_def rq_reset_def hd.invar_add)
  have ready: "ready ?env b"
    using bs fl(4,5) by (simp add: ready_def env)
      (simp add: b_def file_response_def setBodyFile_def setHeader_def rb_new_def reset_buf_def Buffer_new_def retiredAll_def buf_inv_def buf_view_def buf_room_def
        max_size_def readable_def size_sub_def)
  have ct: "hd_get (rb_header (built ?env b ?ch)) ''Content-Type'' = Some type"
  proof -
    have "\<not> starts_with (toLowers ''Content-Type'') ''set-cookie''"
      by (simp add: toLowers_map starts_with_def tolower_def isupper_def)
    then have "hd_get (rb_header b) ''Content-Type'' = Some type"
      using hd.add_law [OF rb_new_header(1)] by (simp add: b_def file_response_def setBodyFile_def setHeader_header)
    then show ?thesis using built_content_type [OF bs(6)] by simp
  qed
  have sz: "length (response_head ''OK'' (built ?env b ?ch)) + length (final_content ?env b ?ch) < 1610612736"
    using fl(4,6) by (intro file_built_size [of _ "dir @ rest" f b type ?r]) (simp_all add: env b_def)
  have ok: "status_at (rb_code b) = Inr ''OK''" using bs(1) by (simp add: status_at_def Status_Code_def to_short_def)
  have room: "buf_room (sender ?ch) (length (response_head ''OK'' (built ?env b ?ch)) + length (final_content ?env b ?ch))"
    using conn(7) sz by (simp add: buf_room_def)
  have idle: "idle ?ch" using conn(4) by (simp add: idle_def)
  from body_in_order [OF idle ready ok _ _ bs(6) _ room] conn(5,6) sz bs(3) msg(3) obtain t ch' where
    o: "build ?env b ?ch = Inr ((built ?env b ?ch)\<lparr>rb_tmp := t\<rparr>, ch')"
     "\<forall>evs. (\<forall>os\<in>set evs. event_ok os (length (response_head ''OK'' (built ?env b ?ch) @ final_content ?env b ?ch))) \<longrightarrow>
        (\<exists>cflag out ch''. write_events evs ch' = Some (Inr (cflag, out, ch'')) \<and>
           (if cflag then out = response_head ''OK'' (built ?env b ?ch) @ final_content ?env b ?ch \<and> (\<exists>c. ch'' = reset_chan c)
            else \<exists>rest. rest \<noteq> [] \<and> response_head ''OK'' (built ?env b ?ch) @ final_content ?env b ?ch = out @ rest))"
     "rb_keepalive b \<longrightarrow> hd_get (rb_header (built ?env b ?ch)) ''Content-Length'' = Some (decimal (length (final_content ?env b ?ch)))"
    by auto
  have fc: "final_content ?env b ?ch = (if rb_compressed (built ?env b ?ch) \<and> fl_bytes f \<noteq> [] then io_gzip io (fl_bytes f) else fl_bytes f)"
    unfolding final_content_def Let_def built_compressed loaded_keeps chooseCompression_keeps
    using bs fl(4) by (simp add: content_def env)
  let ?conn = "\<lambda>c. setContext None (setChannel (Some ch') (setKeepAlive (rb_keepalive b) (setChannel (Some ?ch) (setContext (Some r) c))))"
  have "onMessage fuel ev io s [(prefix, dir)] [] conn st = Some (Inr (True, ?conn conn, st))"
    using conn(1-3) p h o(1)
    by (simp add: onMessage_def send_response_def setChannel_def setContext_def setKeepAlive_def svc_start_def Let_def)
  then show ?thesis using o(2,3) ct fc bs(2)
    by (intro exI [of _ "?conn conn"] exI [of _ ch'] exI [of _ "built ?env b ?ch"] exI [of _ "final_content ?env b ?ch"])
      (simp add: setChannel_def setContext_def setKeepAlive_def)
qed


definition demo_request :: string where
  "demo_request = request_text GET ''/a'' [] HTTP_1_1 [(''Host'', ''h'')] []"

definition demo_conn :: "request connection" where
  "demo_conn = (conn_initialize 7 (TcpConnection_new 0))\<lparr>cn_channel :=
     Some (empty_channel\<lparr>recver := \<lparr>buf_data = demo_request, rindex = 0, windex = length demo_request\<rparr>\<rparr>)\<rparr>"

definition demo_file_io :: "unit http_io" where
  "demo_file_io = io_env.extend (demo_io\<lparr>io_fs := (\<lambda>p. if p = ''/s/a'' then Some \<lparr>fl_fd = 9, fl_bytes = ''hello'', fl_mtime = ''now''\<rparr> else None)\<rparr>)
     (http_io.fields (\<lambda>p. p = ''/s/a'') (\<lambda>p u. None) False False (\<lambda>s n. (None, s)) () (replicate 8 NUL) [] 0)"

theorem static_file_served_witness:
  "\<exists>conn' ch' b body. onMessage 0 demo_env demo_file_io (hs_new []) [(''/'', ''/s/'')] [] demo_conn (no_sessions :: unit store) =
       Some (Inr (True, conn', no_sessions)) \<and>
     cn_channel conn' = Some ch' \<and> context_ptr conn' = None \<and>
     rb_version b = Some HTTP_1_1 \<and> hd_get (rb_header b) ''Content-Type'' = Some ''application/octet-stream'' \<and>
     (keep_alive conn' \<longrightarrow> hd_get (rb_header b) ''Content-Length'' = Some (decimal (length body))) \<and>
     body = (if rb_compressed b \<and> ''hello'' \<noteq> [] then io_gzip demo_file_io ''hello'' else ''hello'') \<and>
     (\<forall>evs. (\<forall>os\<in>set evs. event_ok os (length (response_head ''OK'' b @ body))) \<longrightarrow>
        (\<exists>cflag out ch''. write_events evs ch' = Some (Inr (cflag, out, ch'')) \<and>
           (if cflag then out = response_head ''OK'' b @ body \<and> (\<exists>c. ch'' = reset_chan c)
            else \<exists>rest. rest \<noteq> [] \<and> response_head ''OK'' b @ body = out @ rest)))"
proof -
  define f where "f = \<lparr>fl_fd = 9, fl_bytes = ''hello'', fl_mtime = ''now''\<rparr>"
  have len: "length demo_request < 1000"
    by (simp add: demo_request_def request_text_def line_text_def url_text_def query_text_def hd_line_def CRLF_def)
  have h: "hd_add_all [] [(''Host'', ''h'')] = [(''host'', ''h'')]"
    by (simp add: hd_add_all_def add0_def isupper_def tolower_def starts_with_def char_of_def bit_0)
  have sv: "serves_file demo_file_io (''/s/'' @ ''a'') ''application/octet-stream''"
    by (simp add: serves_file_def demo_file_io_def http_io.defs io_env.defs ends_with_def mappingMimeType_def sv_find_last_of_def)
  have fs: "io_fs demo_file_io (c_str (''/s/'' @ ''a'')) = Some f"
    by (simp add: demo_file_io_def http_io.defs io_env.defs c_str_def NUL_def f_def)
  let ?ch = "the (cn_channel demo_conn)"
  have ch: "cn_channel demo_conn = Some ?ch" "idle ?ch" "buf_view (sender ?ch) = []" "ch_type ?ch = Raw" "buf_room (sender ?ch) 2147483648"
    using empty_channel_simps by (simp_all add: demo_conn_def idle_def buf_room_def max_size_def)
  have rv: "buf_inv (recver ?ch)" "buf_view (recver ?ch) = request_text GET ''/a'' [] HTTP_1_1 [(''Host'', ''h'')] []"
    using len by (simp_all add: demo_conn_def buf_inv_def buf_view_def readable_def size_sub_def max_size_def) (simp add: demo_request_def)
  have "fl_bytes f = ''hello''" by (simp add: f_def)
  have c: "context_ptr demo_conn = None" "\<not> disconnected demo_conn" "use_sendfile ?ch \<longrightarrow> ch_type ?ch = Raw"
    using ch(4) by (simp_all add: demo_conn_def conn_initialize_def)
  have e: "\<forall>e \<in> set [(''Host'', ''h'')]. field_ok e" "hd_add_all [] [(''Host'', ''h'')] \<noteq> []"
    "hd_get (hd_add_all [] [(''Host'', ''h'')]) ''Cookie'' = None" "hd_get (hd_add_all [] [(''Host'', ''h'')]) ''Content-Type'' = None"
    "hd_get (hd_add_all [] [(''Host'', ''h'')]) ''Authorization'' = None"
    unfolding h by (simp_all add: field_ok_def hd_get_def isupper_def tolower_def char_of_def bit_0)
  have u: "urlDecode ''/a'' = ''/'' @ ''a''" "hs_services (hs_new []) (urlDecode ''/a'') = None" "io_mmap demo_file_io"
    "\<forall>x \<in> set [fl_bytes f, io_gzip demo_file_io (fl_bytes f), fl_mtime f, ''application/octet-stream'', io_date demo_file_io]. length x < 268435456"
    by (simp_all add: hs_new_def hm_add_def hm_new_def demo_file_io_def demo_io_def http_io.defs io_env.defs f_def)
  have "\<exists>conn' ch' b body. onMessage 0 demo_env demo_file_io (hs_new []) [(''/'', ''/s/'')] [] demo_conn (no_sessions :: unit store) =
       Some (Inr (True, conn', no_sessions)) \<and>
     cn_channel conn' = Some ch' \<and> context_ptr conn' = None \<and>
     rb_version b = Some HTTP_1_1 \<and> hd_get (rb_header b) ''Content-Type'' = Some ''application/octet-stream'' \<and>
     (keep_alive conn' \<longrightarrow> hd_get (rb_header b) ''Content-Length'' = Some (decimal (length body))) \<and>
     body = (if rb_compressed b \<and> fl_bytes f \<noteq> [] then io_gzip demo_file_io (fl_bytes f) else fl_bytes f) \<and>
     (\<forall>evs. (\<forall>os\<in>set evs. event_ok os (length (response_head ''OK'' b @ body))) \<longrightarrow>
        (\<exists>cflag out ch''. write_events evs ch' = Some (Inr (cflag, out, ch'')) \<and>
           (if cflag then out = response_head ''OK'' b @ body \<and> (\<exists>c. ch'' = reset_chan c)
            else \<exists>rest. rest \<noteq> [] \<and> response_head ''OK'' b @ body = out @ rest)))"
    by (rule static_file_served [OF ch(1) c(1,2) ch(2,3) c(3) ch(5) rv _ _ _ e u(1,2) sv fs u(3,4)]) simp_all
  then show ?thesis unfolding \<open>fl_bytes f = ''hello''\<close> .
qed


section \<open>The server at work\<close>


definition demo_fds :: fds where
  "demo_fds = \<lparr>fd_event = 3, fd_listen = 4, fd_timer = 5, fd_session = 6\<rparr>"

abbreviation demo_config :: "(request, nat \<times> unit store) config" where
  "demo_config \<equiv> http_config demo_fds 1000 True False (\<lambda>_. (0, demo_env, demo_http_io)) (hs_new []) [] []"

definition demo_answer :: answer where
  "demo_answer = \<lparr>an_now = TimeStamp 5, an_accept = 9, an_ssl = 0\<rparr>"

lemma demo_run:
  "\<exists>sr. reachable demo_config (0, no_sessions) sr \<and> live (sr_net sr) 9 \<and> sr_batch sr = [] \<and> \<not> sr_quit sr \<and> tasks_of sr 9 = 0 \<and>
     th_abs (sr_timer sr) = [9 \<mapsto> (TimeStamp 1000005, Some 9)] \<and> armed (nt_poller (sr_net sr)) 9 \<and> th_room (sr_timer sr)"
proof -
  let ?s0 = "server_new demo_config (0, no_sessions)"
  let ?s1 = "wait_events [(4, EPOLLIN)] ?s0"
  let ?s2 = "?s1\<lparr>sr_batch := []\<rparr>"
  have cfg: "cf_listenfd demo_config = 4" "cf_timerfd demo_config = 5" "cf_evfd demo_config = 3" "cf_sessionfd demo_config = 6"
    "cf_idle demo_config = 1000" "cf_https demo_config = False" "cf_new_conn demo_config = None" "cf_sendfile demo_config = True"
    by (simp_all add: http_config_def demo_fds_def setIdleTime_def)
  have r1: "reachable demo_config (0, no_sessions) ?s1"
  proof (rule reachable_step [OF reachable_start step_wait])
    show "reportable [(4, EPOLLIN)] ?s0"
      by (simp add: reportable_def server_new_def cfg addEvent_def armed_def)
  qed (simp_all add: server_new_def)
  have ts: "nowMsecond (TimeStamp 5) 1000 = Inr (TimeStamp 1000005)" by (simp add: nowMsecond_def of_millsecond_def chk_int_def int_range_def ts_plus_def)
  from push_ok [OF theap_inv_new, of "\<lparr>tm_fd = 9, tm_ts = TimeStamp 1000005, tm_cb = Some (9 :: int)\<rparr>"] obtain h :: "int theap" where
    h: "push theap_new \<lparr>tm_fd = 9, tm_ts = TimeStamp 1000005, tm_cb = Some 9\<rparr> = Inr h" "theap_inv h"
      "th_abs h = [9 \<mapsto> (TimeStamp 1000005, Some 9)]" by (auto simp: th_room_def theap_new_def th_abs_def timer_map_def)
  have room: "th_room h"
  proof -
    have "length (th_c h) = card (tm_fd ` set (th_c h))"
      using theap_inv_distinct [OF h(2)] by (metis distinct_card length_map set_map)
    also have "\<dots> = card (dom (th_abs h))" by (simp add: th_abs_def dom_timer_map)
    finally show ?thesis using h(3) by (simp add: th_room_def)
  qed
  define n where "n = (let n = sr_net ?s2; n = put_conn 9 (setChannel (Some (Channel_new Raw 9 True)) (conn_initialize 9 (nt_conns n 9))) n
      in n\<lparr>nt_poller := addEvent 9 (EPOLLIN OR kConnectionEvent) (nt_poller n)\<rparr>)"
  have s2: "sr_timer ?s2 = theap_new" "events_of ?s2 k = 0" "tasks_of ?s2 k = 0" "\<not> live (sr_net ?s2) k" "sr_batch ?s1 = [(4, EPOLLIN)]" "\<not> sr_quit ?s2" for k
    by (simp_all add: wait_events_def server_new_def events_of_def tasks_of_def all_tasks_def pool_new_def live_def unusable_def TcpConnection_new_def)
  have d: "dispatch demo_config demo_answer 4 EPOLLIN ?s2 = Inr (?s2\<lparr>sr_timer := h, sr_net := n\<rparr>)"
    using h(1) ts by (simp add: dispatch_def handleRead_def handleServerAccept_def handleConnected_def cfg demo_answer_def s2 tq_add_def n_def Let_def)
  have "calm demo_config demo_answer 4 ?s2"
    using ts s2 by (simp add: calm_def timely_def cfg accept_ok_def demo_answer_def own_fds_def) (simp add: th_room_def theap_new_def)
  from reachable_step [OF r1 step_event [OF s2(5) this d]]
  have "reachable demo_config (0, no_sessions) (?s2\<lparr>sr_timer := h, sr_net := n\<rparr>)" .
  moreover have "live n 9" "armed (nt_poller n) 9"
    by (simp_all add: n_def put_conn_def live_def unusable_def setChannel_def conn_initialize_def Let_def wait_events_def server_new_def
        cfg addEvent_def report_def armed_def)
  ultimately show ?thesis using h(3) room s2(3,6) by (intro exI [of _ "?s2\<lparr>sr_timer := h, sr_net := n\<rparr>"]) simp
qed




text \<open>
  C30. When the timer of the idle connections fires, exactly the connections whose deadline has passed are
  closed, and every other one stays open.
\<close>

theorem idle_connections_closed:
  assumes "reachable (http_config d ms sf https world s dirs pats) app sr" and "timeout_ok an sr"
  shows "\<exists>sr'. server_handleTimeout (http_config d ms sf https world s dirs pats) (an_now an) (fd_timer d) sr = Inr sr' \<and>
     (\<forall>fd. live (sr_net sr') fd \<longleftrightarrow> live (sr_net sr) fd \<and> \<not> (\<exists>t cb. th_abs (sr_timer sr) fd = Some (t, cb) \<and> t \<le> an_now an))"
  using http.timeout_spec [of d ms sf https world s dirs pats "\<lambda>_. 1" sr an] http.reachable_inv [OF assms(1)] assms(2)
  by (auto simp: server_inv_def) (auto simp: http_config_def)

theorem idle_connections_closed_witness:
  "\<exists>sr sr'. live (sr_net sr) 9 \<and> \<not> live (sr_net sr') 9 \<and>
     server_handleTimeout demo_config (TimeStamp 2000000) (fd_timer demo_fds) sr = Inr sr' \<and>
     (\<forall>fd. live (sr_net sr') fd \<longleftrightarrow> live (sr_net sr) fd \<and> \<not> (\<exists>t cb. th_abs (sr_timer sr) fd = Some (t, cb) \<and> t \<le> TimeStamp 2000000))"
proof -
  from demo_run obtain sr where sr: "reachable demo_config (0, no_sessions) sr" "live (sr_net sr) 9" "tasks_of sr 9 = 0"
    "th_abs (sr_timer sr) = [9 \<mapsto> (TimeStamp 1000005, Some 9)]" by blast
  let ?an = "demo_answer\<lparr>an_now := TimeStamp 2000000\<rparr>"
  have "timeout_ok ?an sr" using sr(3,4) by (simp add: timeout_ok_def)
  from idle_connections_closed [OF sr(1) this] obtain sr' where
    r: "server_handleTimeout demo_config (TimeStamp 2000000) (fd_timer demo_fds) sr = Inr sr'"
     "\<forall>fd. live (sr_net sr') fd \<longleftrightarrow> live (sr_net sr) fd \<and> \<not> (\<exists>t cb. th_abs (sr_timer sr) fd = Some (t, cb) \<and> t \<le> TimeStamp 2000000)"
    by auto
  moreover have "TimeStamp 1000005 \<le> TimeStamp 2000000" by (simp add: ts_le_def)
  ultimately show ?thesis using sr by (intro exI [of _ sr] exI [of _ sr']) auto
qed


section \<open>From the configuration file to the end of the loop\<close>

text \<open>
  C6. A server whose configuration was written by \<open>JsonFormatter\<close> and names an address, a port, an idle time,
  the default pages and the two switches (and, for HTTPS, a certificate and a key that OpenSSL takes) is
  constructed from the file, and \<open>start\<close> opens the listening socket at that address and runs the event
  loop from its first state with exactly those values, whatever services were added in between.
\<close>

theorem server_starts_from_config_file:
  assumes cfg: "exact_ints E" "json_plain (JsonObject kvs)" "spaceless (JsonObject kvs)" "config_shape kvs" "0 < indent"
    and srv: "\<forall>(key, v) \<in> set [(''listen_ip'', VString ip), (''listen_port'', VInt port), (''idle_timeout'', VInt ms),
          (''default_page'', VStrings pages), (''enable_sendfile'', VBool sf), (''enable_https'', VBool https)].
        map_of (rev (config_entries kvs)) (''server'', key) = Some v"
    and tls: "https \<longrightarrow> ServerSsl_new ox cert pk password = Inr ctx \<and>
        (\<forall>(key, v) \<in> set [(''cert_file'', VString cert), (''private_key_file'', VString pk), (''password'', VString password)].
           map_of (rev (config_entries kvs)) (''https'', key) = Some v)"
    and env: "int_range (setIdleTime ms * 1000)" "0 \<le> fd_listen d" "0 \<le> se_bind e" "0 \<le> se_listen e"
  shows "\<exists>content m h. print_object E indent kvs = Inr content \<and>
     (\<forall>fuel \<ge> 2 * length content + 2. config_new fuel E content = Some (Inr m)) \<and>
     HttpServer_new m ox d stale app k = Inr h \<and> ht_server h = hs_new pages \<and>
     (\<forall>world s dirs pats. \<exists>t. tc_config t = http_config d ms sf https world s dirs pats \<and>
        opened (tc_config t) (InetAddress_ip pton ip (word_of_int port)) (tc_kernel t) \<and> tc_ssl t = (if https then Some ctx else None) \<and>
        (\<forall>turns. HttpServer_start m pton e world dirs pats turns (h\<lparr>ht_server := s\<rparr>) =
           run_bind (start_loop (tc_config t) turns (server_new (tc_config t) app))
             (\<lambda>sr. Some (Inr \<lparr>ht_server = s, ht_tcp = t\<lparr>tc_server := sr\<rparr>\<rparr>))))"
proof -
  from config_file_lookup [OF cfg] obtain content m where c: "print_object E indent kvs = Inr content"
    "\<forall>fuel \<ge> 2 * length content + 2. config_new fuel E content = Some (Inr m)" "config_lookup m = map_of (rev (config_entries kvs))" by blast
  have "config_server m ip port ms pages sf https" using srv by (simp add: config_server_def config_get_lookup c(3))
  moreover have "https \<longrightarrow> config_tls m ox ctx" using tls by (auto simp: config_tls_def config_get_lookup c(3))
  ultimately show ?thesis using HttpServer_start_ok [OF _ _ env, of m ip port pages sf https ox ctx stale app k pton] c(1,2) by blast
qed

text \<open>The configuration that comes with the server.\<close>

definition shipped_config :: "((string \<times> bool) \<times> int json) list" where
  "shipped_config =
    [((''server'', True), JsonObject
       [((''listen_ip'', True), JsonString ''0.0.0.0'' True), ((''listen_port'', True), JsonInt 5555),
        ((''idle_timeout'', True), JsonInt 2000), ((''server_hostname'', True), JsonString ''localhost'' True),
        ((''enable_https'', True), JsonBoolean False), ((''enable_php'', True), JsonBoolean False),
        ((''enable_sendfile'', True), JsonBoolean False),
        ((''default_page'', True), JsonArray [JsonString ''index.php'' True, JsonString ''index.html'' True]),
        ((''user_pass_file'', True), JsonString ''./pass_store/user_password'' True),
        ((''authenticate_realm'', True), JsonString ''socnet@test'' True), ((''session_lifetime'', True), JsonInt 10)]),
     ((''https'', True), JsonObject
       [((''cert_file'', True), JsonString ''./ssl/cert.crt'' True), ((''private_key_file'', True), JsonString ''./ssl/private.pem'' True),
        ((''password'', True), JsonString [] True)]),
     ((''php-fpm'', True), JsonObject
       [((''tcp_or_domain'', True), JsonBoolean True), ((''server_ip'', True), JsonString ''127.0.0.1'' True),
        ((''server_port'', True), JsonInt 9000), ((''sock_path'', True), JsonString ''/run/php-fpm/php-fpm.sock'' True)])]"

definition demo_openssl :: openssl where
  "demo_openssl = \<lparr>ox_ctx_new = True, ox_use_cert = \<lambda>f. 1, ox_use_key = \<lambda>p f. 1, ox_check_key = \<lambda>c f. 1\<rparr>"

definition demo_start :: start_env where
  "demo_start = \<lparr>se_bind = 0, se_listen = 0, se_clock = \<lparr>tv_sec = 0, tv_nsec = 0\<rparr>\<rparr>"

definition demo_pton :: "string \<Rightarrow> (8 word \<times> 8 word \<times> 8 word \<times> 8 word) option" where
  "demo_pton ip = (if ip = ''0.0.0.0'' then Some (0, 0, 0, 0) else None)"

theorem server_starts_from_config_file_witness:
  "\<exists>content m h. print_object int_env 4 shipped_config = Inr content \<and>
     (\<forall>fuel \<ge> 2 * length content + 2. config_new fuel int_env content = Some (Inr m)) \<and>
     HttpServer_new m demo_openssl demo_fds 0 (0, no_sessions) Map.empty = Inr h \<and> ht_server h = hs_new [''index.php'', ''index.html''] \<and>
     (\<forall>world s dirs pats. \<exists>t. tc_config t = http_config demo_fds 2000 False False world s dirs pats \<and>
        opened (tc_config t) (InetAddress_ip demo_pton ''0.0.0.0'' (word_of_int 5555)) (tc_kernel t) \<and> tc_ssl t = None \<and>
        (\<forall>turns. HttpServer_start m demo_pton demo_start (world :: nat \<Rightarrow> nat \<times> env \<times> unit http_io) dirs pats turns (h\<lparr>ht_server := s\<rparr>) =
           run_bind (start_loop (tc_config t) turns (server_new (tc_config t) (0, no_sessions :: unit store)))
             (\<lambda>sr. Some (Inr \<lparr>ht_server = s, ht_tcp = t\<lparr>tc_server := sr\<rparr>\<rparr>))))"
proof -
  have h: "json_plain (JsonObject shipped_config)" "spaceless (JsonObject shipped_config)" "config_shape shipped_config"
    by (simp_all add: shipped_config_def int_range_def config_shape_def)
  have e: "config_entries shipped_config =
    [((''server'', ''listen_ip''), VString ''0.0.0.0''), ((''server'', ''listen_port''), VInt 5555), ((''server'', ''idle_timeout''), VInt 2000),
     ((''server'', ''server_hostname''), VString ''localhost''), ((''server'', ''enable_https''), VBool False), ((''server'', ''enable_php''), VBool False),
     ((''server'', ''enable_sendfile''), VBool False), ((''server'', ''default_page''), VStrings [''index.php'', ''index.html'']),
     ((''server'', ''user_pass_file''), VString ''./pass_store/user_password''), ((''server'', ''authenticate_realm''), VString ''socnet@test''),
     ((''server'', ''session_lifetime''), VInt 10), ((''https'', ''cert_file''), VString ''./ssl/cert.crt''),
     ((''https'', ''private_key_file''), VString ''./ssl/private.pem''), ((''https'', ''password''), VString []),
     ((''php-fpm'', ''tcp_or_domain''), VBool True), ((''php-fpm'', ''server_ip''), VString ''127.0.0.1''), ((''php-fpm'', ''server_port''), VInt 9000),
     ((''php-fpm'', ''sock_path''), VString ''/run/php-fpm/php-fpm.sock'')]"
    by (simp add: shipped_config_def config_entries_def section_entries_def)
  have c: "\<forall>(key, v) \<in> set [(''listen_ip'', VString ''0.0.0.0''), (''listen_port'', VInt 5555), (''idle_timeout'', VInt 2000),
          (''default_page'', VStrings [''index.php'', ''index.html'']), (''enable_sendfile'', VBool False), (''enable_https'', VBool False)].
        map_of (rev (config_entries shipped_config)) (''server'', key) = Some v"
    by (simp add: e)
  show ?thesis
    using server_starts_from_config_file [where https = False and E = int_env and indent = 4 and d = demo_fds and e = demo_start,
        OF exact_ints_int_env h _ c, of demo_openssl _ _ _ _ 0 "(0, no_sessions)" Map.empty demo_pton]
    by (simp add: setIdleTime_def int_range_def demo_fds_def demo_start_def)
qed



end
